(* ===== verification/Go_Float.thy ===== *)
theory Go_Float
  imports Go_Prelude "HOL-Library.Log_Nat"
begin

text \<open>
  Go's \<^verbatim>\<open>float64\<close> arithmetic as the proxy uses it. A finite float is the rational number it
  denotes, and every operation of the source is the exact rational operation followed by
  \<open>fl64\<close>, rounding to 53 significant bits, ties to even (IEEE 754 binary64, the rounding
  mode Go prescribes). The exponent range is not bounded: the values that occur (token
  counts, byte rates, seconds, percentages) lie between \<open>2\<^sup>-\<^sup>1\<^sup>0\<^sup>0\<close> and \<open>2\<^sup>1\<^sup>0\<^sup>0\<close> in absolute
  value or are zero, where neither overflow nor gradual underflow happens. Products and
  sums are rounded separately (no fused multiply-add, as on amd64).

  What clients need of the rounding is the locale \<open>float_rounding\<close>; \<open>fl64\<close> interprets it.
\<close>

named_theorems fl_facts \<open>facts on rounding\<close>

section \<open>Rounding to 53 significant bits\<close>

definition round_half_even :: "rat \<Rightarrow> int" where
  "round_half_even x =
     (let f = \<lfloor>x\<rfloor>; d = x - of_int f
      in if d < 1 / 2 then f
         else if 1 / 2 < d then f + 1
         else if even f then f else f + 1)"

text \<open>The binary exponent of a positive rational: \<open>2\<^sup>e \<le> x < 2\<^sup>e\<^sup>+\<^sup>1\<close>.\<close>

definition ilog2 :: "rat \<Rightarrow> int" where
  "ilog2 x =
     (let (p, q) = quotient_of x; e = bitlen p - bitlen q
      in if 2 powi e \<le> x then e else e - 1)"

definition fl64 :: "rat \<Rightarrow> rat" where
  "fl64 x =
     (if x = 0 then 0
      else let s = 2 powi (52 - ilog2 \<bar>x\<bar>)
           in sgn x * (of_int (round_half_even (\<bar>x\<bar> * s)) / s))"

text \<open>Conversion of a Go integer, and truncation back (\<^verbatim>\<open>int(f)\<close>).\<close>

definition float64 :: "int \<Rightarrow> rat" where
  "float64 n = fl64 (of_int n)"

definition trunc_rat :: "rat \<Rightarrow> int" where
  "trunc_rat x = (if 0 \<le> x then \<lfloor>x\<rfloor> else \<lceil>x\<rceil>)"

definition fadd :: "rat \<Rightarrow> rat \<Rightarrow> rat" where "fadd x y = fl64 (x + y)"
definition fsub :: "rat \<Rightarrow> rat \<Rightarrow> rat" where "fsub x y = fl64 (x - y)"
definition fmul :: "rat \<Rightarrow> rat \<Rightarrow> rat" where "fmul x y = fl64 (x * y)"
definition fdiv :: "rat \<Rightarrow> rat \<Rightarrow> rat" where "fdiv x y = fl64 (x / y)"

lemmas fop_defs = fadd_def fsub_def fmul_def fdiv_def

text \<open>\<^verbatim>\<open>Duration.Seconds()\<close>: whole seconds plus the remaining nanoseconds over \<open>10\<^sup>9\<close>.\<close>

definition seconds :: "duration \<Rightarrow> rat" where
  "seconds d =
     fadd (float64 (go_div d second)) (fdiv (float64 (go_mod d second)) 1000000000)"

section \<open>Properties of the rounding\<close>

lemma round_half_even_cases:
  "round_half_even x = \<lfloor>x\<rfloor> \<and> x - of_int \<lfloor>x\<rfloor> \<le> 1 / 2 \<or>
   round_half_even x = \<lfloor>x\<rfloor> + 1 \<and> 1 / 2 \<le> x - of_int \<lfloor>x\<rfloor>"
  by (auto simp: round_half_even_def Let_def)

lemma round_half_even_error: "\<bar>of_int (round_half_even x) - x\<bar> \<le> 1 / 2"
proof -
  have b: "of_int \<lfloor>x\<rfloor> \<le> x" "x < of_int \<lfloor>x\<rfloor> + 1" by linarith+
  from round_half_even_cases [of x] show ?thesis
  proof
    assume "round_half_even x = \<lfloor>x\<rfloor> \<and> x - of_int \<lfloor>x\<rfloor> \<le> 1 / 2"
    then show ?thesis using b by simp
  next
    assume "round_half_even x = \<lfloor>x\<rfloor> + 1 \<and> 1 / 2 \<le> x - of_int \<lfloor>x\<rfloor>"
    then show ?thesis using b by (simp add: abs_if)
  qed
qed

lemma round_half_even_of_int [simp]: "round_half_even (of_int n) = n"
  by (simp add: round_half_even_def)

lemma round_half_even_mono:
  assumes "x \<le> y"
  shows "round_half_even x \<le> round_half_even y"
proof (cases "\<lfloor>x\<rfloor> = \<lfloor>y\<rfloor>")
  case True
  with assms show ?thesis by (auto simp: round_half_even_def Let_def)
next
  case False
  with floor_mono [OF assms] have "\<lfloor>x\<rfloor> + 1 \<le> \<lfloor>y\<rfloor>" by linarith
  with round_half_even_cases [of x] round_half_even_cases [of y] show ?thesis by linarith
qed

lemma ilog2_bounds:
  assumes "0 < x"
  shows "2 powi ilog2 x \<le> x \<and> x < 2 powi (ilog2 x + 1)"
proof -
  obtain p q where pq: "quotient_of x = (p, q)" by fastforce
  then have q: "0 < q" and x: "x = of_int p / of_int q"
    by (auto intro: quotient_of_denom_pos quotient_of_div)
  with assms have p: "0 < p" by (simp add: zero_less_divide_iff)
  define a where "a = bitlen p"
  define b where "b = bitlen q"
  have a1: "1 \<le> a" and b1: "1 \<le> b"
    using p q bitlen_nonneg [of p] bitlen_nonneg [of q] bitlen_eq_zero_iff [of p] bitlen_eq_zero_iff [of q]
    by (auto simp: a_def b_def)
  have pb: "2 powi (a - 1) \<le> (of_int p :: rat)" "(of_int p :: rat) < 2 powi a"
    and qb: "2 powi (b - 1) \<le> (of_int q :: rat)" "(of_int q :: rat) < 2 powi b"
  proof -
    have pw: "2 ^ nat (bitlen r - 1) \<le> r \<and> r < 2 ^ nat (bitlen r)" if "0 < r" for r :: int
      using bitlen_bounds [OF that] .
    have conv: "(2 powi k :: rat) = of_int (2 ^ nat k)" if "0 \<le> k" for k :: int
      using that by (simp add: power_int_def)
    show "2 powi (a - 1) \<le> (of_int p :: rat)" "(of_int p :: rat) < 2 powi a"
      using pw [OF p] a1 by (simp_all add: conv a_def del: of_int_power)
    show "2 powi (b - 1) \<le> (of_int q :: rat)" "(of_int q :: rat) < 2 powi b"
      using pw [OF q] b1 by (simp_all add: conv b_def del: of_int_power)
  qed
  have q': "(0 :: rat) < of_int q" using q by simp
  have up: "x < 2 powi (a - b + 1)"
  proof -
    have "of_int p < (2 powi a :: rat)" by (rule pb)
    also have "\<dots> = 2 powi (a - b + 1) * 2 powi (b - 1)"
      by (simp flip: power_int_add)
    also have "\<dots> \<le> 2 powi (a - b + 1) * of_int q"
      using qb by (intro mult_left_mono) simp_all
    finally show ?thesis using q' by (simp add: x divide_less_eq)
  qed
  have lo: "2 powi (a - b - 1) \<le> x"
  proof -
    have "2 powi (a - b - 1) * of_int q \<le> (2 powi (a - b - 1) * 2 powi b :: rat)"
      using qb by (intro mult_left_mono) simp_all
    also have "\<dots> = 2 powi (a - 1)" by (simp flip: power_int_add)
    also have "\<dots> \<le> of_int p" by (rule pb)
    finally show ?thesis using q' by (simp add: x le_divide_eq)
  qed
  show ?thesis
    using up lo by (auto simp: ilog2_def pq Let_def a_def [symmetric] b_def [symmetric])
qed

lemma ilog2_unique:
  assumes "0 < x" "2 powi e \<le> x" "x < 2 powi (e + 1)"
  shows "ilog2 x = e"
proof -
  have "\<not> e + 1 \<le> ilog2 x"
    using power_int_increasing [of "e + 1" "ilog2 x" "2 :: rat"] ilog2_bounds [OF assms(1)] assms
    by linarith
  moreover have "\<not> ilog2 x + 1 \<le> e"
    using power_int_increasing [of "ilog2 x + 1" e "2 :: rat"] ilog2_bounds [OF assms(1)] assms
    by linarith
  ultimately show ?thesis by linarith
qed


lemma fl64_0 [simp]: "fl64 0 = 0"
  by (simp add: fl64_def)

lemma fl64_minus: "fl64 (- x) = - fl64 x"
  by (cases "x = 0") (simp_all add: fl64_def Let_def sgn_minus)

lemma fl64_pos: "0 < x \<Longrightarrow> fl64 x =
    (let s = 2 powi (52 - ilog2 x) in of_int (round_half_even (x * s)) / s)"
  by (simp add: fl64_def Let_def)

lemma scaled_bounds:
  assumes "0 < x"
  defines "s \<equiv> 2 powi (52 - ilog2 x)"
  shows "0 < s" "2 ^ 52 \<le> x * s" "x * s < 2 ^ 53"
proof -
  show s: "0 < s" by (simp add: s_def)
  have b: "2 powi ilog2 x \<le> x" "x < 2 powi (ilog2 x + 1)"
    using ilog2_bounds [OF assms(1)] by auto
  have eq: "2 powi ilog2 x * s = 2 ^ 52" "2 powi (ilog2 x + 1) * s = 2 ^ 53"
    unfolding s_def by (simp_all flip: power_int_add)
  show "2 ^ 52 \<le> x * s" using mult_right_mono [OF b(1), of s] s eq by simp
  show "x * s < 2 ^ 53" using mult_strict_right_mono [OF b(2) s] eq by simp
qed

lemma fl64_bounds:
  assumes "0 < x"
  shows "2 powi ilog2 x \<le> fl64 x \<and> fl64 x \<le> 2 powi (ilog2 x + 1)"
proof -
  define s where "s = (2 powi (52 - ilog2 x) :: rat)"
  note sb = scaled_bounds [OF assms, folded s_def]
  have "round_half_even (of_int (2 ^ 52)) \<le> round_half_even (x * s)"
    "round_half_even (x * s) \<le> round_half_even (of_int (2 ^ 53))"
    using sb by (auto intro!: round_half_even_mono)
  then have "2 ^ 52 \<le> round_half_even (x * s)" "round_half_even (x * s) \<le> 2 ^ 53"
    by (simp_all only: round_half_even_of_int)
  then have "(2 ^ 52 :: rat) \<le> of_int (round_half_even (x * s))"
    "of_int (round_half_even (x * s)) \<le> (2 ^ 53 :: rat)" by simp_all
  then have "2 ^ 52 / s \<le> fl64 x" "fl64 x \<le> 2 ^ 53 / s"
    using sb(1) assms by (simp_all add: fl64_pos Let_def s_def [symmetric] divide_right_mono)
  moreover have "2 ^ 52 / s = 2 powi ilog2 x" "2 ^ 53 / s = 2 powi (ilog2 x + 1)"
    by (simp_all add: s_def power_int_diff power_int_add divide_simps)
  ultimately show ?thesis by simp
qed

lemma fl64_nonneg [simp]: "0 \<le> x \<Longrightarrow> 0 \<le> fl64 x"
proof (cases "x = 0")
  case False
  assume "0 \<le> x"
  with False have "0 < x" by simp
  then have "2 powi ilog2 x \<le> fl64 x" using fl64_bounds by blast
  moreover have "(0 :: rat) < 2 powi ilog2 x" by simp
  ultimately show ?thesis by linarith
qed simp

lemma fl64_nonpos: "x \<le> 0 \<Longrightarrow> fl64 x \<le> 0"
  using fl64_nonneg [of "- x"] by (simp add: fl64_minus)

lemma fl64_mono_pos:
  assumes "0 < x" "x \<le> y"
  shows "fl64 x \<le> fl64 y"
proof (cases "ilog2 x = ilog2 y")
  case True
  define s where "s = (2 powi (52 - ilog2 x) :: rat)"
  have "0 < s" by (simp add: s_def)
  then have "x * s \<le> y * s" using assms by simp
  then have "(of_int (round_half_even (x * s)) :: rat) \<le> of_int (round_half_even (y * s))"
    by (simp add: round_half_even_mono)
  then have "of_int (round_half_even (x * s)) / s \<le> of_int (round_half_even (y * s)) / s"
    using \<open>0 < s\<close> by (intro divide_right_mono) simp_all
  then show ?thesis using assms True by (simp add: fl64_pos Let_def s_def)
next
  case False
  have "\<not> ilog2 y + 1 \<le> ilog2 x"
    using power_int_increasing [of "ilog2 y + 1" "ilog2 x" "2 :: rat"]
      ilog2_bounds [of x] ilog2_bounds [of y] assms by linarith
  with False have "ilog2 x + 1 \<le> ilog2 y" by linarith
  then have "(2 powi (ilog2 x + 1) :: rat) \<le> 2 powi ilog2 y"
    by (intro power_int_increasing) simp_all
  then show ?thesis using fl64_bounds [of x] fl64_bounds [of y] assms by linarith
qed

lemma fl64_mono: "x \<le> y \<Longrightarrow> fl64 x \<le> fl64 y"
proof -
  assume xy: "x \<le> y"
  consider "0 < x" | "x \<le> 0" "0 \<le> y" | "y < 0" using xy by linarith
  then show ?thesis
  proof cases
    case 1
    then show ?thesis using xy by (rule fl64_mono_pos)
  next
    case 2
    then show ?thesis using fl64_nonpos [of x] fl64_nonneg [of y] by linarith
  next
    case 3
    then have "fl64 (- y) \<le> fl64 (- x)" using xy by (intro fl64_mono_pos) simp_all
    then show ?thesis by (simp add: fl64_minus)
  qed
qed

lemma fl64_error: "\<bar>fl64 x - x\<bar> \<le> \<bar>x\<bar> / 2 ^ 53"
proof -
  have pos: "\<bar>fl64 y - y\<bar> \<le> y / 2 ^ 53" if y: "0 < y" for y
  proof -
    define s where "s = (2 powi (52 - ilog2 y) :: rat)"
    note sb = scaled_bounds [OF y, folded s_def]
    define r where "r = (of_int (round_half_even (y * s)) :: rat)"
    have "fl64 y - y = (r - y * s) / s"
      using y sb(1) by (simp add: fl64_pos Let_def s_def [symmetric] r_def diff_divide_distrib)
    moreover have "\<bar>(r - y * s) / s\<bar> \<le> 1 / 2 / s"
      using divide_right_mono [OF round_half_even_error [of "y * s"], of s] sb(1)
      by (simp add: r_def abs_divide)
    moreover have "1 / 2 / s \<le> y / 2 ^ 53"
      using sb by (simp add: field_simps)
    ultimately show ?thesis by (metis order_trans)
  qed
  consider "x = 0" | "0 < x" | "0 < - x" by linarith
  then show ?thesis
  proof cases
    case 3
    then show ?thesis using pos [OF 3] by (simp add: fl64_minus abs_minus_commute)
  qed (use pos in simp_all)
qed

text \<open>Numbers with at most 53 significant bits are represented exactly.\<close>

definition representable :: "rat \<Rightarrow> bool" where
  "representable x \<longleftrightarrow> (\<exists>m e. \<bar>m\<bar> \<le> 2 ^ 53 \<and> x = of_int m * 2 powi e)"

lemma fl64_representable_pos:
  assumes "0 < x" "representable x"
  shows "fl64 x = x"
proof -
  from assms obtain m e where m: "\<bar>m\<bar> \<le> 2 ^ 53" and x: "x = of_int m * 2 powi e"
    by (auto simp: representable_def)
  have "(0 :: rat) < 2 powi e" by simp
  with assms(1) x have mpos: "0 < m" by (simp add: zero_less_mult_iff)
  define k where "k = e + 52 - ilog2 x"
  have sc: "x * 2 powi (52 - ilog2 x) = of_int m * 2 powi k"
    by (simp add: x k_def mult.assoc flip: power_int_add) (simp add: algebra_simps)
  have "\<exists>n. x * 2 powi (52 - ilog2 x) = of_int n"
  proof (cases "m = 2 ^ 53")
    case True
    have "x = 2 powi (e + 53)" by (simp add: x True power_int_add)
    moreover have "(2 powi (e + 53) :: rat) < 2 powi (e + 53 + 1)"
      by (rule power_int_strict_increasing) simp_all
    ultimately have "ilog2 x = e + 53" by (intro ilog2_unique) simp_all
    then have "x * 2 powi (52 - ilog2 x) = of_int (2 ^ 52)"
      using sc by (simp add: k_def True power_int_def)
    then show ?thesis by blast
  next
    case False
    with m mpos have "m + 1 \<le> 2 ^ 53" by linarith
    then have "(of_int m :: rat) < 2 ^ 53" by (metis of_int_less_numeral_power_cancel_iff zless_add1_eq add1_zle_eq)
    then have "x < 2 powi (e + 53)" by (simp add: x power_int_add)
    then have "\<not> e + 53 \<le> ilog2 x"
      using ilog2_bounds [OF assms(1)] power_int_increasing [of "e + 53" "ilog2 x" "2 :: rat"] by linarith
    then have "0 \<le> k" by (simp add: k_def)
    then have "x * 2 powi (52 - ilog2 x) = of_int (m * 2 ^ nat k)"
      unfolding sc by (simp add: power_int_def)
    then show ?thesis by blast
  qed
  then obtain n where n: "x * 2 powi (52 - ilog2 x) = of_int n" by blast
  show ?thesis
    using assms(1) by (simp add: fl64_pos Let_def n) (simp flip: n)
qed

lemma representable_minus: "representable x \<Longrightarrow> representable (- x)"
  unfolding representable_def by (metis abs_minus_cancel mult_minus_left of_int_minus)

lemma fl64_representable: "representable x \<Longrightarrow> fl64 x = x"
  using fl64_representable_pos [of x] fl64_representable_pos [of "- x"] representable_minus [of x]
  by (cases "x = 0"; cases "0 < x") (auto simp: fl64_minus)

lemma representable_fl64: "representable (fl64 x)"
proof -
  have pos: "representable (fl64 y)" if y: "0 < y" for y
  proof -
    define s where "s = (2 powi (52 - ilog2 y) :: rat)"
    note sb = scaled_bounds [OF y, folded s_def]
    have "round_half_even 0 \<le> round_half_even (y * s)"
      "round_half_even (y * s) \<le> round_half_even (of_int (2 ^ 53))"
      using sb y by (auto intro!: round_half_even_mono)
    then have "\<bar>round_half_even (y * s)\<bar> \<le> 2 ^ 53"
      using round_half_even_of_int [of 0] round_half_even_of_int [of "2 ^ 53"] by simp
    moreover have "fl64 y = of_int (round_half_even (y * s)) * 2 powi (ilog2 y - 52)"
      using y by (simp add: fl64_pos Let_def s_def [symmetric]) (simp add: s_def power_int_diff divide_simps)
    ultimately show ?thesis unfolding representable_def by blast
  qed
  consider "x = 0" | "0 < x" | "0 < - x" by linarith
  then show ?thesis
  proof cases
    case 1
    then show ?thesis by (auto simp: representable_def intro: exI [of _ "0 :: int"])
  next
    case 2
    then show ?thesis by (rule pos)
  next
    case 3
    then show ?thesis using representable_minus [OF pos [OF 3]] by (simp add: fl64_minus)
  qed
qed

lemma fl64_idem [simp]: "fl64 (fl64 x) = fl64 x"
  by (rule fl64_representable [OF representable_fl64])

lemma fl64_of_int: "\<bar>n\<bar> \<le> 2 ^ 53 \<Longrightarrow> fl64 (of_int n) = of_int n"
  by (rule fl64_representable) (force simp: representable_def intro: exI [of _ "0 :: int"])

lemma float64_exact [simp]: "\<bar>n\<bar> \<le> 2 ^ 53 \<Longrightarrow> float64 n = of_int n"
  by (simp add: float64_def fl64_of_int)

text \<open>A binary fraction with a numerator of at most 53 bits is a float.\<close>

lemma fl64_dyadic: "\<bar>m\<bar> \<le> 2 ^ 53 \<Longrightarrow> fl64 (of_int m / 2 ^ k) = of_int m / 2 ^ k"
proof (rule fl64_representable)
  assume "\<bar>m\<bar> \<le> 2 ^ 53"
  moreover have "(of_int m / 2 ^ k :: rat) = of_int m * 2 powi (- int k)"
    by (simp add: power_int_minus divide_inverse)
  ultimately show "representable (of_int m / 2 ^ k)" unfolding representable_def by blast
qed

lemma fl64_numeral [simp]: "(numeral k :: int) \<le> 2 ^ 53 \<Longrightarrow> fl64 (numeral k) = numeral k"
  using fl64_of_int [of "numeral k"] by simp

lemma fl64_1 [simp]: "fl64 1 = 1"
  using fl64_of_int [of 1] by simp

section \<open>The contract of a rounding\<close>

text \<open>
  What the token buckets rely on: rounding is monotone, keeps zero and its own results, and
  its relative error is at most \<open>u\<close>.
\<close>

locale float_rounding =
  fixes rnd :: "rat \<Rightarrow> rat" and u :: rat
  assumes rnd_0: "rnd 0 = 0"
    and rnd_mono: "x \<le> y \<Longrightarrow> rnd x \<le> rnd y"
    and rnd_idem: "rnd (rnd x) = rnd x"
    and rnd_error: "\<bar>rnd x - x\<bar> \<le> u * \<bar>x\<bar>"
    and u_pos: "0 \<le> u"
    and u_small: "u \<le> 1 / 16"
begin

lemma rnd_nonneg: "0 \<le> x \<Longrightarrow> 0 \<le> rnd x"
  using rnd_mono [of 0 x] rnd_0 by simp

lemma rnd_le_fixed: "x \<le> y \<Longrightarrow> rnd y = y \<Longrightarrow> rnd x \<le> y"
  using rnd_mono [of x y] by simp

lemma rnd_ge_fixed: "y \<le> x \<Longrightarrow> rnd y = y \<Longrightarrow> y \<le> rnd x"
  using rnd_mono [of y x] by simp

lemma rnd_upper: "0 \<le> x \<Longrightarrow> rnd x \<le> x + u * x"
  using rnd_error [of x] by (simp add: abs_le_iff)

lemma rnd_lower: "0 \<le> x \<Longrightarrow> x - u * x \<le> rnd x"
  using rnd_error [of x] by (simp add: abs_le_iff)

lemma u_squared: "u * u \<le> u / 16"
  using mult_left_mono [OF u_small u_pos] by simp

text \<open>Two roundings in a row cost at most three units.\<close>

lemma two_roundings:
  assumes "0 \<le> a" "0 \<le> b"
  shows "rnd (a + rnd b) \<le> (a + b) + 3 * u * (a + b)"
    and "(a + b) - 3 * u * (a + b) \<le> rnd (a + rnd b)"
proof -
  have b: "0 \<le> rnd b" "rnd b \<le> b + u * b" "b - u * b \<le> rnd b"
    using assms rnd_nonneg rnd_upper rnd_lower by auto
  have ub: "u * rnd b \<le> u * b + u * b"
  proof -
    have "u * rnd b \<le> u * (b + u * b)" using b u_pos by (intro mult_left_mono) auto
    also have "\<dots> = u * b + (u * u) * b" by (simp add: algebra_simps)
    also have "(u * u) * b \<le> u * b" using u_squared u_pos assms by (intro mult_right_mono) auto
    finally show ?thesis by simp
  qed
  have ua: "0 \<le> u * a" and ub0: "0 \<le> u * b" using u_pos assms by simp_all
  have "rnd (a + rnd b) \<le> (a + rnd b) + u * (a + rnd b)" using assms b by (intro rnd_upper) simp
  also have "\<dots> = a + rnd b + u * a + u * rnd b" by (simp add: algebra_simps)
  also have "\<dots> \<le> (a + b) + 3 * u * (a + b)" using b ub ua by (simp add: algebra_simps)
  finally show "rnd (a + rnd b) \<le> (a + b) + 3 * u * (a + b)" .
  have "(a + rnd b) - u * (a + rnd b) \<le> rnd (a + rnd b)" using assms b by (intro rnd_lower) simp
  moreover have "(a + rnd b) - u * (a + rnd b) = a + rnd b - u * a - u * rnd b"
    by (simp add: algebra_simps)
  moreover have "(a + b) - 3 * u * (a + b) \<le> a + rnd b - u * a - u * rnd b"
    using b ub ua by (simp add: algebra_simps)
  ultimately show "(a + b) - 3 * u * (a + b) \<le> rnd (a + rnd b)" by linarith
qed

text \<open>
  Refilling a bucket capped at \<open>m\<close>: the rounded refill never exceeds the exact one by more
  than \<open>10 * u * m\<close>, whatever the elapsed time.
\<close>

lemma refill_upper:
  assumes t: "0 \<le> t" and g: "0 \<le> g" and g': "0 \<le> g'" "g' \<le> g + 3 * u * g"
  shows "min (rnd (t + rnd g')) m \<le> t + g + 10 * u * m"
proof (cases "m \<le> t + g")
  case True
  then have "min (rnd (t + rnd g')) m \<le> t + g" by linarith
  moreover have "0 \<le> m \<or> min (rnd (t + rnd g')) m \<le> m" by simp
  moreover have "0 \<le> 10 * u * m" if "0 \<le> m" using that u_pos by simp
  moreover have "m \<le> t + g + 10 * u * m" if "m < 0"
  proof -
    have "10 * u * m \<ge> m" using that u_small mult_right_mono_neg [of "10 * u" 1 m] by simp
    then show ?thesis using t g by linarith
  qed
  ultimately show ?thesis by linarith
next
  case False
  then have gm: "t + g \<le> m" by simp
  have h: "0 \<le> u * g" "0 \<le> u * t" using u_pos g t by simp_all
  have um: "u * (t + g) \<le> u * m" using gm u_pos by (intro mult_left_mono) auto
  have "rnd (t + rnd g') \<le> (t + g') + 3 * u * (t + g')" using t g' by (intro two_roundings) auto
  also have "\<dots> = t + g' + 3 * (u * t) + 3 * (u * g')" by (simp add: algebra_simps)
  also have "\<dots> \<le> t + g + 3 * (u * g) + 3 * (u * t) + 3 * (u * (g + 3 * u * g))"
    using g' u_pos mult_left_mono [OF g'(2) u_pos] by linarith
  also have "\<dots> = t + g + 6 * (u * g) + 3 * (u * t) + 9 * ((u * u) * g)" by (simp add: algebra_simps)
  also have "(u * u) * g \<le> (u / 16) * g" using u_squared g by (intro mult_right_mono)
  finally have "rnd (t + rnd g') \<le> t + g + 7 * (u * g) + 3 * (u * t)"
    using h by (simp add: mult.commute)
  also have "\<dots> \<le> t + g + 10 * (u * (t + g))" using h by (simp add: algebra_simps)
  also have "\<dots> \<le> t + g + 10 * u * m" using um by simp
  finally show ?thesis by simp
qed

text \<open>The same for a bucket that may be in debt by up to \<open>l\<close>.\<close>

lemma refill_upper_debt:
  assumes t: "- l \<le> t" "t \<le> m" and l: "0 \<le> l" "0 \<le> m"
    and g: "0 \<le> g" and g': "0 \<le> g'" "g' \<le> g + 3 * u * g"
  shows "min (rnd (t + rnd g')) m \<le> t + g + 8 * u * (m + l)"
proof (cases "m \<le> t + g")
  case True
  then show ?thesis using l u_pos by (simp add: min.coboundedI2 add_increasing2)
next
  case False
  have k: "u * g \<le> u * (m + l)" "u * \<bar>t\<bar> \<le> u * (m + l)"
    using False t l u_pos by (auto intro!: mult_left_mono)
  have "rnd g' \<le> g' + u * g'" using g'(1) by (rule rnd_upper)
  also have "\<dots> \<le> g + 3 * u * g + u * (g + 3 * u * g)"
    using g'(2) u_pos by (intro add_mono mult_left_mono) auto
  also have "\<dots> = g + 4 * (u * g) + 3 * ((u * u) * g)" by (simp add: algebra_simps)
  also have "(u * u) * g \<le> (u / 16) * g" using u_squared g by (intro mult_right_mono)
  finally have r: "rnd g' \<le> g + 5 * (u * g)"
    using mult_nonneg_nonneg [OF u_pos g] by (simp add: mult.commute)
  have "u * g \<le> g / 16" using u_small g mult_right_mono [of u "1 / 16" g] by simp
  then have "\<bar>t + rnd g'\<bar> \<le> \<bar>t\<bar> + 2 * g" using r g rnd_nonneg [OF g'(1)] by linarith
  then have "u * \<bar>t + rnd g'\<bar> \<le> u * (\<bar>t\<bar> + 2 * g)" using u_pos by (intro mult_left_mono)
  then have "u * \<bar>t + rnd g'\<bar> \<le> u * \<bar>t\<bar> + 2 * (u * g)" by (simp add: algebra_simps)
  then have "rnd (t + rnd g') \<le> t + rnd g' + u * \<bar>t\<bar> + 2 * (u * g)"
    using rnd_error [of "t + rnd g'"] by linarith
  also have "\<dots> \<le> t + g + 8 * (u * (m + l))" using r k by linarith
  finally show ?thesis by simp
qed

end

interpretation f64: float_rounding fl64 "1 / 2 ^ 53"
proof unfold_locales
  show "fl64 0 = 0" by simp
  show "x \<le> y \<Longrightarrow> fl64 x \<le> fl64 y" for x y by (rule fl64_mono)
  show "fl64 (fl64 x) = fl64 x" for x by simp
  show "\<bar>fl64 x - x\<bar> \<le> 1 / 2 ^ 53 * \<bar>x\<bar>" for x using fl64_error [of x] by simp
qed simp_all

text \<open>\<^verbatim>\<open>Duration.Seconds\<close> is within three units of the exact quotient.\<close>

lemma seconds_eq:
  assumes "0 \<le> d" "d < 2 ^ 63"
  shows "seconds d = fl64 (of_int (d div second) + fl64 (of_int (d mod second) / 10 ^ 9))"
    and "of_int (d div second) + of_int (d mod second) / 10 ^ 9 = (of_int d / 10 ^ 9 :: rat)"
proof -
  have s: "d div second \<le> 2 ^ 53" "0 \<le> d div second" "d mod second \<le> 2 ^ 53" "0 \<le> d mod second"
    using assms pos_mod_bound [of 1000000000 d] by (simp_all add: second_def)
  then show "seconds d = fl64 (of_int (d div second) + fl64 (of_int (d mod second) / 10 ^ 9))"
    using assms by (simp add: seconds_def fop_defs second_def)
  have "d = (d div second) * 10 ^ 9 + d mod second" by (simp add: second_def)
  then have "(of_int d :: rat) = of_int (d div second) * 10 ^ 9 + of_int (d mod second)"
    by (metis of_int_add of_int_mult of_int_numeral of_int_power)
  then show "of_int (d div second) + of_int (d mod second) / 10 ^ 9 = (of_int d / 10 ^ 9 :: rat)"
    by (simp add: field_simps)
qed

lemma seconds_bounds:
  assumes "0 \<le> d" "d < 2 ^ 63"
  shows "seconds d \<le> of_int d / 10 ^ 9 + 3 * (1 / 2 ^ 53) * (of_int d / 10 ^ 9)"
    and "of_int d / 10 ^ 9 - 3 * (1 / 2 ^ 53) * (of_int d / 10 ^ 9) \<le> seconds d"
    and "0 \<le> seconds d"
proof -
  let ?a = "of_int (d div second) :: rat" and ?b = "of_int (d mod second) / 10 ^ 9 :: rat"
  have nn: "0 \<le> ?a" "0 \<le> ?b" using assms by (simp_all add: second_def pos_imp_zdiv_nonneg_iff)
  note f64.two_roundings [OF nn]
  then show "seconds d \<le> of_int d / 10 ^ 9 + 3 * (1 / 2 ^ 53) * (of_int d / 10 ^ 9)"
    "of_int d / 10 ^ 9 - 3 * (1 / 2 ^ 53) * (of_int d / 10 ^ 9) \<le> seconds d"
    unfolding seconds_eq [OF assms] by simp_all
  show "0 \<le> seconds d" using nn by (simp add: seconds_eq(1) [OF assms])
qed

text \<open>The worth of elapsed time at a rate, as the token buckets compute it.\<close>

lemma elapsed_range: "u \<le> now \<Longrightarrow> 0 \<le> time_sub now u \<and> time_sub now u < 2 ^ 63"
  by (auto simp: time_sub_def)

lemma seconds_credit_upper:
  assumes "u \<le> now" "0 \<le> r"
  shows "seconds (time_sub now u) * r
    \<le> of_int (now - u) / 10 ^ 9 * r + 3 * (1 / 2 ^ 53) * (of_int (now - u) / 10 ^ 9 * r)"
proof -
  let ?d = "time_sub now u" and ?e = "now - u"
  have d: "0 \<le> ?d" "?d < 2 ^ 63" "?d \<le> ?e"
    using elapsed_range [OF assms(1)] time_sub_le [OF assms(1)] by auto
  have "seconds ?d \<le> (1 + 3 / 2 ^ 53) * (of_int ?d / 10 ^ 9)"
    using seconds_bounds(1) [OF d(1,2)] by (simp add: algebra_simps)
  also have "(of_int ?d :: rat) \<le> of_int ?e" using d(3) by (simp only: of_int_le_iff)
  finally have "seconds ?d \<le> (1 + 3 / 2 ^ 53) * (of_int ?e / 10 ^ 9)"
    by (simp add: divide_right_mono)
  then have "seconds ?d * r \<le> (1 + 3 / 2 ^ 53) * (of_int ?e / 10 ^ 9) * r"
    using assms(2) by (rule mult_right_mono)
  also have "\<dots> = of_int ?e / 10 ^ 9 * r + 3 * (1 / 2 ^ 53) * (of_int ?e / 10 ^ 9 * r)"
    by (simp add: field_simps)
  finally show ?thesis .
qed

lemma seconds_nonneg: "u \<le> now \<Longrightarrow> 0 \<le> seconds (time_sub now u)"
  using elapsed_range seconds_bounds(3) by blast

end
