(* ===== verification/Limiter_Spec.thy ===== *)
theory Limiter_Spec
  imports Go_Prelude
begin

text \<open>
  The contract of a limiter that keeps one independent record per key and answers requests
  one at a time: the per-user rate limiter of \<^verbatim>\<open>internal/auth/ratelimit.go\<close> and the per-client
  limiter of \<^verbatim>\<open>internal/pac/pac.go\<close> both provide it. The client's lemma is isolation: in any
  interleaving of the requests of several keys, the answers one key gets are those it
  would get alone.
\<close>

section \<open>Runs\<close>

text \<open>A limiter serving a sequence of timed requests, and one record serving its own.\<close>

fun run_keyed :: "('s \<Rightarrow> 'k \<Rightarrow> time \<Rightarrow> bool \<times> 's) \<Rightarrow> 's \<Rightarrow> ('k \<times> time) list \<Rightarrow> ('k \<times> bool) list \<times> 's"
where
  "run_keyed allow s [] = ([], s)"
| "run_keyed allow s ((k, t) # rs) =
     (let (d, s') = allow s k t; (ds, s'') = run_keyed allow s' rs in ((k, d) # ds, s''))"

fun run_one :: "('b \<Rightarrow> time \<Rightarrow> bool \<times> 'b) \<Rightarrow> 'b \<Rightarrow> time list \<Rightarrow> bool list \<times> 'b" where
  "run_one decide b [] = ([], b)"
| "run_one decide b (t # ts) =
     (let (d, b') = decide b t; (ds, b'') = run_one decide b' ts in (d # ds, b''))"

text \<open>What the requests, and the answers, of one key are.\<close>

definition requests_of :: "'k \<Rightarrow> ('k \<times> time) list \<Rightarrow> time list" where
  "requests_of k rs = map snd (filter (\<lambda>r. fst r = k) rs)"

definition answers_of :: "'k \<Rightarrow> ('k \<times> bool) list \<Rightarrow> bool list" where
  "answers_of k ds = map snd (filter (\<lambda>d. fst d = k) ds)"

definition granted :: "bool list \<Rightarrow> nat" where
  "granted ds = length (filter id ds)"

lemma granted_simps [simp]: "granted [] = 0" "granted (d # ds) = (if d then 1 else 0) + granted ds"
  by (simp_all add: granted_def)

lemma requests_of_simps [simp]:
  "requests_of k [] = []"
  "requests_of k ((k', t) # rs) = (if k' = k then t # requests_of k rs else requests_of k rs)"
  by (simp_all add: requests_of_def)

lemma answers_of_simps [simp]:
  "answers_of k [] = []"
  "answers_of k ((k', d) # ds) = (if k' = k then d # answers_of k ds else answers_of k ds)"
  by (simp_all add: answers_of_def)

lemma run_one_length [simp]: "length (fst (run_one decide b ts)) = length ts"
  by (induction ts arbitrary: b) (simp_all add: case_prod_beta Let_def)

section \<open>The interface\<close>

locale keyed_limiter =
  fixes allow :: "'s \<Rightarrow> 'k \<Rightarrow> time \<Rightarrow> bool \<times> 's"
    and view :: "'s \<Rightarrow> 'k \<Rightarrow> 'b"
    and decide :: "'b \<Rightarrow> time \<Rightarrow> bool \<times> 'b"
  assumes allow_answer: "fst (allow s k t) = fst (decide (view s k) t)"
    and allow_same: "view (snd (allow s k t)) k = snd (decide (view s k) t)"
    and allow_other: "k' \<noteq> k \<Longrightarrow> view (snd (allow s k t)) k' = view s k'"
begin

lemma isolation:
  "answers_of k (fst (run_keyed allow s rs)) = fst (run_one decide (view s k) (requests_of k rs))
   \<and> view (snd (run_keyed allow s rs)) k = snd (run_one decide (view s k) (requests_of k rs))"
proof (induction rs arbitrary: s)
  case Nil
  then show ?case by simp
next
  case (Cons r rs)
  obtain k' t where r: "r = (k', t)" by fastforce
  obtain d s' where a: "allow s k' t = (d, s')" by fastforce
  show ?case
  proof (cases "k' = k")
    case True
    have "fst (decide (view s k) t) = d" "snd (decide (view s k) t) = view s' k"
      using a True allow_answer [of s k t] allow_same [of s k t] by simp_all
    then have "decide (view s k) t = (d, view s' k)" by (simp add: prod_eq_iff)
    then show ?thesis using Cons.IH [of s'] a True by (simp add: r case_prod_beta Let_def)
  next
    case False
    then have "view s' k = view s k" using a allow_other [of k k' s t] by simp
    then show ?thesis using Cons.IH [of s'] a False by (simp add: r case_prod_beta Let_def)
  qed
qed

end

end
