(* ===== verification/Rate_Limiter.thy ===== *)
theory Rate_Limiter
  imports Go_Float Limiter_Spec
begin

text \<open>
  \<^verbatim>\<open>internal/auth/ratelimit.go\<close>: the token bucket rate limiter, one bucket per user name. The
  two maps of the Go struct are \<open>rl_buckets\<close> and \<open>rl_limits\<close>; each method holds the mutex for
  its whole body, so one call is one atomic step. The time read by \<^verbatim>\<open>time.Now()\<close> is an argument.
\<close>

section \<open>Data\<close>

record tokenBucket =
  tb_tokens :: rat
  tb_maxTokens :: rat
  tb_refillRate :: rat
  tb_lastRefill :: time

record RateLimiter =
  rl_buckets :: "string \<rightharpoonup> tokenBucket"
  rl_limits :: "string \<rightharpoonup> int"

section \<open>Operations\<close>

definition NewRateLimiter :: RateLimiter where
  "NewRateLimiter = \<lparr>rl_buckets = Map.empty, rl_limits = Map.empty\<rparr>"

definition SetLimit :: "RateLimiter \<Rightarrow> string \<Rightarrow> int \<Rightarrow> time \<Rightarrow> RateLimiter" where
  "SetLimit r username rpm now =
     (let maxTokens = fdiv (float64 rpm) 6;
          maxTokens = (if maxTokens < 10 then 10 else maxTokens)
      in r\<lparr>rl_limits := (rl_limits r)(username \<mapsto> rpm),
           rl_buckets := (rl_buckets r)(username \<mapsto>
             \<lparr>tb_tokens = maxTokens, tb_maxTokens = maxTokens,
              tb_refillRate = fdiv (float64 rpm) 60, tb_lastRefill = now\<rparr>)\<rparr>)"

text \<open>The part of \<^verbatim>\<open>Allow\<close> that works on the bucket it found.\<close>

definition bucket_allow :: "tokenBucket \<Rightarrow> time \<Rightarrow> bool \<times> tokenBucket" where
  "bucket_allow bucket now =
     (let elapsed = seconds (time_sub now (tb_lastRefill bucket));
          tokens = fadd (tb_tokens bucket) (fmul elapsed (tb_refillRate bucket));
          tokens = (if tokens > tb_maxTokens bucket then tb_maxTokens bucket else tokens);
          bucket = bucket\<lparr>tb_tokens := tokens, tb_lastRefill := now\<rparr>
      in if tokens \<ge> 1 then (True, bucket\<lparr>tb_tokens := fsub tokens 1\<rparr>) else (False, bucket))"

definition Allow :: "RateLimiter \<Rightarrow> string \<Rightarrow> time \<Rightarrow> bool \<times> RateLimiter" where
  "Allow r username now =
     (case rl_buckets r username of
        None \<Rightarrow> (True, r)
      | Some bucket \<Rightarrow>
          let (ok, bucket') = bucket_allow bucket now
          in (ok, r\<lparr>rl_buckets := (rl_buckets r)(username \<mapsto> bucket')\<rparr>))"

definition GetRemainingTokens :: "RateLimiter \<Rightarrow> string \<Rightarrow> rat" where
  "GetRemainingTokens r username =
     (case rl_buckets r username of None \<Rightarrow> -1 | Some bucket \<Rightarrow> tb_tokens bucket)"

section \<open>The limiter as a keyed limiter\<close>

fun bucket_decide :: "tokenBucket option \<Rightarrow> time \<Rightarrow> bool \<times> tokenBucket option" where
  "bucket_decide None now = (True, None)"
| "bucket_decide (Some bucket) now = (let (ok, b) = bucket_allow bucket now in (ok, Some b))"

interpretation rl: keyed_limiter Allow rl_buckets bucket_decide
  by unfold_locales (auto simp: Allow_def split: option.splits prod.splits)

section \<open>The bucket invariant\<close>

text \<open>
  The token count stays between zero and the burst size, and both are floats.
\<close>

definition bucket_ok :: "tokenBucket \<Rightarrow> bool" where
  "bucket_ok b \<longleftrightarrow>
     0 \<le> tb_tokens b \<and> tb_tokens b \<le> tb_maxTokens b \<and> 10 \<le> tb_maxTokens b \<and>
     fl64 (tb_maxTokens b) = tb_maxTokens b \<and> 0 \<le> tb_refillRate b"

definition limiter_ok :: "RateLimiter \<Rightarrow> bool" where
  "limiter_ok r \<longleftrightarrow> (\<forall>b \<in> ran (rl_buckets r). bucket_ok b)"

lemma limiter_ok_new: "limiter_ok NewRateLimiter"
  by (simp add: limiter_ok_def NewRateLimiter_def)

lemma limiter_ok_lookup: "limiter_ok r \<Longrightarrow> rl_buckets r u = Some b \<Longrightarrow> bucket_ok b"
  by (auto simp: limiter_ok_def ran_def)

lemma limiter_ok_update:
  "limiter_ok r \<Longrightarrow> bucket_ok b \<Longrightarrow> limiter_ok (r\<lparr>rl_buckets := (rl_buckets r)(u \<mapsto> b)\<rparr>)"
  by (auto simp: limiter_ok_def ran_def split: if_splits)

lemma float64_nonneg: "0 \<le> n \<Longrightarrow> 0 \<le> float64 n"
  by (simp add: float64_def)

lemma SetLimit_ok: "limiter_ok r \<Longrightarrow> 0 \<le> rpm \<Longrightarrow> limiter_ok (SetLimit r u rpm now)"
  by (auto simp: SetLimit_def Let_def limiter_ok_def bucket_ok_def ran_def fdiv_def
      float64_nonneg split: if_splits)

text \<open>What one call on a bucket does, with the refilled count named.\<close>

definition refilled :: "tokenBucket \<Rightarrow> time \<Rightarrow> rat" where
  "refilled b now =
     min (fl64 (tb_tokens b + fl64 (seconds (time_sub now (tb_lastRefill b)) * tb_refillRate b)))
       (tb_maxTokens b)"

lemma bucket_allow_eq:
  "bucket_allow b now =
     (1 \<le> refilled b now,
      b\<lparr>tb_tokens := (if 1 \<le> refilled b now then fl64 (refilled b now - 1) else refilled b now),
        tb_lastRefill := now\<rparr>)"
  by (auto simp: bucket_allow_def refilled_def fop_defs Let_def min_def)

lemma refilled_nonneg:
  assumes "bucket_ok b" "tb_lastRefill b \<le> now"
  shows "0 \<le> refilled b now"
  using assms seconds_nonneg [OF assms(2)] by (auto simp: refilled_def bucket_ok_def)

lemma bucket_allow_ok:
  assumes "bucket_ok b" "tb_lastRefill b \<le> now"
  shows "bucket_ok (snd (bucket_allow b now))"
proof -
  have r: "0 \<le> refilled b now" "refilled b now \<le> tb_maxTokens b"
    using refilled_nonneg [OF assms] by (simp_all add: refilled_def)
  have "fl64 (refilled b now - 1) \<le> tb_maxTokens b"
    using r assms by (intro f64.rnd_le_fixed) (auto simp: bucket_ok_def)
  then show ?thesis using assms r by (auto simp: bucket_allow_eq bucket_ok_def)
qed


section \<open>Throughput and progress of one bucket\<close>

text \<open>The exact number of tokens the elapsed time is worth.\<close>

definition refill_credit :: "tokenBucket \<Rightarrow> time \<Rightarrow> rat" where
  "refill_credit b now = of_int (now - tb_lastRefill b) / 10 ^ 9 * tb_refillRate b"

lemma refill_credit_nonneg: "bucket_ok b \<Longrightarrow> tb_lastRefill b \<le> now \<Longrightarrow> 0 \<le> refill_credit b now"
  by (auto simp: refill_credit_def bucket_ok_def)

lemma computed_credit_upper:
  assumes "bucket_ok b" "tb_lastRefill b \<le> now"
  shows "seconds (time_sub now (tb_lastRefill b)) * tb_refillRate b
           \<le> refill_credit b now + 3 * (1 / 2 ^ 53) * refill_credit b now"
  using assms unfolding refill_credit_def by (intro seconds_credit_upper) (auto simp: bucket_ok_def)

lemma bucket_allow_potential:
  assumes "bucket_ok b" "tb_lastRefill b \<le> now"
  shows "tb_tokens (snd (bucket_allow b now)) + (if fst (bucket_allow b now) then 1 else 0)
           \<le> tb_tokens b + refill_credit b now + 11 / 2 ^ 53 * tb_maxTokens b"
proof -
  let ?g' = "seconds (time_sub now (tb_lastRefill b)) * tb_refillRate b"
  have ok: "0 \<le> tb_tokens b" "10 \<le> tb_maxTokens b" "0 \<le> tb_refillRate b"
    using assms(1) by (auto simp: bucket_ok_def)
  have "0 \<le> ?g'" using seconds_nonneg [OF assms(2)] ok by auto
  then have up: "refilled b now \<le> tb_tokens b + refill_credit b now + 10 * (1 / 2 ^ 53) * tb_maxTokens b"
    unfolding refilled_def
    using ok assms by (intro f64.refill_upper refill_credit_nonneg computed_credit_upper) auto
  have "fl64 (refilled b now - 1) + 1 \<le> refilled b now + tb_maxTokens b / 2 ^ 53"
    if "1 \<le> refilled b now"
  proof -
    have "fl64 (refilled b now - 1) \<le> (refilled b now - 1) + (refilled b now - 1) / 2 ^ 53"
      using that f64.rnd_upper [of "refilled b now - 1"] by simp
    moreover have "(refilled b now - 1) / 2 ^ 53 \<le> tb_maxTokens b / 2 ^ 53"
      by (intro divide_right_mono) (simp_all add: refilled_def)
    ultimately show ?thesis by linarith
  qed
  then show ?thesis using up ok by (auto simp: bucket_allow_eq field_simps)
qed

lemma bucket_run_bound:
  assumes "bucket_ok b" "sorted (tb_lastRefill b # ts)"
  shows "of_nat (granted (fst (run_one bucket_allow b ts)))
           \<le> tb_tokens b + of_int (last (tb_lastRefill b # ts) - tb_lastRefill b) / 10 ^ 9 * tb_refillRate b
             + of_nat (length ts) * (11 / 2 ^ 53 * tb_maxTokens b)"
  using assms
proof (induction ts arbitrary: b)
  case Nil
  then show ?case by (simp add: bucket_ok_def)
next
  case (Cons t ts)
  define d where "d = fst (bucket_allow b t)"
  define b' where "b' = snd (bucket_allow b t)"
  have le: "tb_lastRefill b \<le> t" and srt: "sorted (t # ts)" using Cons.prems by auto
  have same: "tb_lastRefill b' = t" "tb_refillRate b' = tb_refillRate b"
    "tb_maxTokens b' = tb_maxTokens b"
    by (simp_all add: b'_def bucket_allow_eq)
  have IH: "of_nat (granted (fst (run_one bucket_allow b' ts)))
      \<le> tb_tokens b' + of_int (last (t # ts) - t) / 10 ^ 9 * tb_refillRate b
         + of_nat (length ts) * (11 / 2 ^ 53 * tb_maxTokens b)"
    using Cons.IH [of b'] bucket_allow_ok [OF Cons.prems(1) le, folded b'_def] srt
    unfolding same by simp
  have pot: "tb_tokens b' + (if d then 1 else 0)
      \<le> tb_tokens b + refill_credit b t + 11 / 2 ^ 53 * tb_maxTokens b"
    using bucket_allow_potential [OF Cons.prems(1) le] by (simp add: b'_def d_def)
  have run: "fst (run_one bucket_allow b (t # ts)) = d # fst (run_one bucket_allow b' ts)"
    by (simp add: d_def b'_def case_prod_beta Let_def)
  have "refill_credit b t + of_int (last (t # ts) - t) / 10 ^ 9 * tb_refillRate b
      = of_int (last (tb_lastRefill b # t # ts) - tb_lastRefill b) / 10 ^ 9 * tb_refillRate b"
    by (simp add: refill_credit_def field_simps)
  moreover define K where "K = 11 / 2 ^ 53 * tb_maxTokens b"
  moreover have "of_nat (length (t # ts)) * K = K + of_nat (length ts) * K"
    by (simp add: distrib_right)
  moreover have "of_nat (granted (d # fst (run_one bucket_allow b' ts)))
      = (if d then 1 else 0) + (of_nat (granted (fst (run_one bucket_allow b' ts))) :: rat)"
    by simp
  ultimately show ?case using IH pot unfolding run K_def [symmetric] by linarith
qed

lemma run_one_decide_Some:
  "fst (run_one bucket_decide (Some b) ts) = fst (run_one bucket_allow b ts)"
  by (induction ts arbitrary: b) (simp_all add: case_prod_beta Let_def)

lemma run_one_decide_None: "fst (run_one bucket_decide None ts) = replicate (length ts) True"
  by (induction ts) (simp_all add: case_prod_beta)

lemma bucket_allow_progress:
  assumes ok: "bucket_ok b" and le: "tb_lastRefill b \<le> now"
    and ns: "now - tb_lastRefill b < 2 ^ 63"
    and enough: "1 + 1 / 2 ^ 49 \<le> tb_tokens b + refill_credit b now"
  shows "fst (bucket_allow b now)"
proof -
  let ?d = "time_sub now (tb_lastRefill b)"
  let ?g = "refill_credit b now" and ?g' = "seconds ?d * tb_refillRate b" and ?u = "1 / 2 ^ 53 :: rat"
  have d: "?d = now - tb_lastRefill b" using le ns by (simp add: time_sub_def)
  have r: "0 \<le> tb_refillRate b" "0 \<le> tb_tokens b" "10 \<le> tb_maxTokens b"
    using ok by (auto simp: bucket_ok_def)
  have g: "0 \<le> ?g" using ok le by (rule refill_credit_nonneg)
  have dr: "0 \<le> ?d" "?d < 2 ^ 63" using le ns unfolding d by simp_all
  have "(1 - 3 * ?u) * (of_int ?d / 10 ^ 9) \<le> seconds ?d" "0 \<le> seconds ?d"
    using seconds_bounds(2,3) [OF dr] by (simp_all only: left_diff_distrib mult_1)
  note sec = this
  have g'1: "(1 - 3 * ?u) * (of_int ?d / 10 ^ 9) * tb_refillRate b \<le> ?g'"
    using sec(1) r(1) by (rule mult_right_mono)
  have g'0: "0 \<le> ?g'" using sec r by simp
  have g'2: "(1 - 3 * ?u) * ?g \<le> ?g'" using g'1 unfolding refill_credit_def d by (simp only: mult.assoc)
  have lo: "(tb_tokens b + ?g') - 3 * ?u * (tb_tokens b + ?g') \<le> fl64 (tb_tokens b + fl64 ?g')"
    using r g'0 by (intro f64.two_roundings) auto
  have "(1 - 3 * ?u) * (tb_tokens b + ?g) \<le> tb_tokens b + ?g'"
    using g'2 r by (simp add: algebra_simps)
  moreover have "(1 - 3 * ?u) * (1 + 1 / 2 ^ 49) \<le> (1 - 3 * ?u) * (tb_tokens b + ?g)"
    using enough by (intro mult_left_mono) simp_all
  ultimately have "(1 - 3 * ?u) * (1 + 1 / 2 ^ 49) \<le> tb_tokens b + ?g'" by linarith
  then have A: "(1 - 3 * ?u) * ((1 - 3 * ?u) * (1 + 1 / 2 ^ 49)) \<le> (1 - 3 * ?u) * (tb_tokens b + ?g')"
    by (intro mult_left_mono) simp_all
  have N: "1 \<le> (1 - 3 * ?u) * ((1 - 3 * ?u) * (1 + 1 / 2 ^ 49))" by simp
  have L: "(1 - 3 * ?u) * (tb_tokens b + ?g') \<le> fl64 (tb_tokens b + fl64 ?g')"
    using lo by (simp only: left_diff_distrib mult_1)
  have "1 \<le> fl64 (tb_tokens b + fl64 ?g')"
    by (rule order_trans [OF order_trans [OF N A] L])
  then show ?thesis using r by (simp add: bucket_allow_eq refilled_def)
qed

section \<open>Properties\<close>

text \<open>C4: a user with a limit of \<open>rpm\<close> requests per minute is granted, in any interleaving with
  the requests of other users and over any sequence of non-decreasing times, at most the burst
  \<open>max 10 (rpm / 6)\<close> plus \<open>rpm / 60\<close> requests per elapsed second, up to the rounding of
  \<^verbatim>\<open>float64\<close> (one part in \<open>2\<^sup>4\<^sup>9\<close> of the burst per request).\<close>

theorem rate_limit_throughput:
  assumes "0 < rpm" and "rpm \<le> 2 ^ 53" and "sorted (now # requests_of u rs)"
  defines "burst \<equiv> fdiv (of_int rpm) 6"
  shows "of_nat (granted (answers_of u (fst (run_keyed Allow (SetLimit r u rpm now) rs))))
           \<le> max 10 burst
              + of_int (last (now # requests_of u rs) - now) / 10 ^ 9 * fdiv (of_int rpm) 60
              + of_nat (length (requests_of u rs)) * (max 10 burst / 2 ^ 49)"
proof -
  define b where "b = \<lparr>tb_tokens = max 10 burst, tb_maxTokens = max 10 burst,
      tb_refillRate = fdiv (of_int rpm) 60, tb_lastRefill = now\<rparr>"
  have b: "rl_buckets (SetLimit r u rpm now) u = Some b"
    using assms(1,2) by (simp add: SetLimit_def Let_def b_def burst_def max_def)
  have "bucket_ok b"
    using assms(1) by (auto simp: bucket_ok_def b_def burst_def fdiv_def max_def)
  then have "of_nat (granted (fst (run_one bucket_allow b (requests_of u rs))))
      \<le> max 10 burst
         + of_int (last (now # requests_of u rs) - now) / 10 ^ 9 * fdiv (of_int rpm) 60
         + of_nat (length (requests_of u rs)) * (11 / 2 ^ 53 * max 10 burst)"
    using bucket_run_bound [of b "requests_of u rs"] assms(3) by (simp add: b_def)
  moreover have "of_nat (length (requests_of u rs)) * (11 / 2 ^ 53 * max 10 burst)
      \<le> of_nat (length (requests_of u rs)) * (max 10 burst / 2 ^ 49)"
    by (intro mult_left_mono) (simp_all add: max_def)
  moreover have "answers_of u (fst (run_keyed Allow (SetLimit r u rpm now) rs))
      = fst (run_one bucket_allow b (requests_of u rs))"
    using rl.isolation [of u "SetLimit r u rpm now" rs] by (simp add: b run_one_decide_Some)
  ultimately show ?thesis by (simp only:)
qed

text \<open>The hypotheses hold for a limit of 60 requests per minute and three requests at once.\<close>

theorem rate_limit_throughput_witness:
  "(0 :: int) < 60 \<and> (60 :: int) \<le> 2 ^ 53 \<and>
   sorted (0 # requests_of ''bob'' [(''bob'', 0), (''eve'', 1), (''bob'', second)]) \<and>
   of_nat (granted (answers_of ''bob'' (fst (run_keyed Allow (SetLimit NewRateLimiter ''bob'' 60 0)
       [(''bob'', 0), (''eve'', 1), (''bob'', second)])))) \<le> (11 + 20 / 2 ^ 49 :: rat)"
proof -
  have s: "sorted (0 # requests_of ''bob'' [(''bob'', 0), (''eve'', 1), (''bob'', second)])"
    by (simp add: second_def)
  have f: "fdiv (of_int 60) 6 = 10" "fdiv (of_int 60) 60 = 1" by (simp_all add: fdiv_def)
  show ?thesis
    using rate_limit_throughput [OF _ _ s, of 60 NewRateLimiter] s
    unfolding f by (simp add: second_def)
qed

text \<open>C5: no bucket ever holds a negative number of tokens or more than its burst size: the
  invariant holds in a new limiter, \<^verbatim>\<open>SetLimit\<close> with a non-negative limit establishes it, and every
  \<^verbatim>\<open>Allow\<close> at a time not before the user's last refill keeps it.\<close>

theorem limiter_invariant:
  "limiter_ok NewRateLimiter \<and>
   (\<forall>r u rpm now. limiter_ok r \<longrightarrow> 0 \<le> rpm \<longrightarrow> limiter_ok (SetLimit r u rpm now)) \<and>
   (\<forall>r u now. limiter_ok r \<longrightarrow>
      (\<forall>b. rl_buckets r u = Some b \<longrightarrow> tb_lastRefill b \<le> now) \<longrightarrow>
      limiter_ok (snd (Allow r u now)) \<and>
      (\<forall>b. rl_buckets (snd (Allow r u now)) u = Some b \<longrightarrow>
         0 \<le> tb_tokens b \<and> tb_tokens b \<le> tb_maxTokens b \<and> tb_lastRefill b = now))"
proof -
  have step: "limiter_ok (snd (Allow r u now)) \<and>
      (\<forall>b. rl_buckets (snd (Allow r u now)) u = Some b \<longrightarrow>
         0 \<le> tb_tokens b \<and> tb_tokens b \<le> tb_maxTokens b \<and> tb_lastRefill b = now)"
    if ok: "limiter_ok r" and t: "\<forall>b. rl_buckets r u = Some b \<longrightarrow> tb_lastRefill b \<le> now" for r u now
  proof (cases "rl_buckets r u")
    case None
    then show ?thesis using ok by (simp add: Allow_def)
  next
    case (Some b)
    then have "bucket_ok (snd (bucket_allow b now))"
      using ok t limiter_ok_lookup bucket_allow_ok by blast
    then show ?thesis using ok Some
      by (auto simp: Allow_def case_prod_beta Let_def limiter_ok_update bucket_ok_def)
        (simp add: bucket_allow_eq)
  qed
  then show ?thesis using limiter_ok_new SetLimit_ok by blast
qed

theorem limiter_invariant_witness:
  "limiter_ok (snd (Allow (SetLimit NewRateLimiter ''bob'' 60 0) ''bob'' 5))"
proof -
  have "limiter_ok (SetLimit NewRateLimiter ''bob'' 60 0)"
    using limiter_invariant by simp
  moreover have "\<forall>b. rl_buckets (SetLimit NewRateLimiter ''bob'' 60 0) ''bob'' = Some b
      \<longrightarrow> tb_lastRefill b \<le> 5"
    by (simp add: SetLimit_def Let_def)
  ultimately show ?thesis using limiter_invariant by blast
qed

text \<open>C6: nobody is starved: as soon as the tokens a user has left plus the exact worth of the
  time since the last request reach one (and a rounding margin of \<open>2\<^sup>-\<^sup>4\<^sup>9\<close>), the next \<^verbatim>\<open>Allow\<close> grants.\<close>

theorem rate_limit_progress:
  assumes "limiter_ok r" and "rl_buckets r u = Some b"
    and "tb_lastRefill b \<le> now" and "now - tb_lastRefill b < 2 ^ 63"
    and "1 + 1 / 2 ^ 49 \<le> GetRemainingTokens r u + refill_credit b now"
  shows "fst (Allow r u now)"
proof -
  have "bucket_ok b" using assms(1,2) by (rule limiter_ok_lookup)
  then have "fst (bucket_allow b now)"
    using assms by (intro bucket_allow_progress) (simp_all add: GetRemainingTokens_def)
  then show ?thesis using assms(2) by (simp add: Allow_def case_prod_beta Let_def)
qed

theorem rate_limit_progress_witness:
  "fst (Allow \<lparr>rl_buckets = [''bob'' \<mapsto> \<lparr>tb_tokens = 0, tb_maxTokens = 10, tb_refillRate = 1,
      tb_lastRefill = 0\<rparr>], rl_limits = [''bob'' \<mapsto> 60]\<rparr> ''bob'' (2 * second))"
  (is "fst (Allow ?r _ _)")
proof -
  have "limiter_ok ?r" by (simp add: limiter_ok_def bucket_ok_def)
  then show ?thesis
    by (rule rate_limit_progress [where b = "\<lparr>tb_tokens = 0, tb_maxTokens = 10,
          tb_refillRate = 1, tb_lastRefill = 0\<rparr>"])
      (simp_all add: second_def GetRemainingTokens_def refill_credit_def)
qed

end
