(* ===== verification/Go_Net.thy ===== *)
theory Go_Net
  imports Go_Prelude
begin

unbundle bit_operations_syntax

text \<open>
  The part of Go's \<^verbatim>\<open>net\<close> package the proxy relies on: textual addresses (\<^verbatim>\<open>ParseIP\<close>, \<^verbatim>\<open>ParseCIDR\<close>,
  \<^verbatim>\<open>IP.String\<close>), networks (\<^verbatim>\<open>IPNet.Contains\<close>) and \<^verbatim>\<open>SplitHostPort\<close>. An \<^verbatim>\<open>IP\<close> is a byte list of
  length 4 or 16, as in Go; \<^verbatim>\<open>ParseIP\<close> gives the 16-byte form.
\<close>

section \<open>Parsing addresses\<close>

definition v4InV6Prefix :: "byte list" where
  "v4InV6Prefix = replicate 10 0 @ [255, 255]"

text \<open>The four decimal fields: no empty field, no leading zero, at most 255.\<close>

fun ipv4_loop :: "string \<Rightarrow> bool \<Rightarrow> nat \<Rightarrow> nat \<Rightarrow> nat list \<Rightarrow> nat list option" where
  "ipv4_loop [] after_dot val digLen fields =
     (if length fields < 3 then None else Some (fields @ [val]))"
| "ipv4_loop (c # s) after_dot val digLen fields =
     (if is_digit c then
        (if digLen = 1 \<and> val = 0 then None
         else let val' = val * 10 + digit_val c
              in if val' > 255 then None else ipv4_loop s False val' (digLen + 1) fields)
      else if c = CHR ''.'' then
        (if after_dot \<or> s = [] then None
         else if length fields = 3 then None
         else ipv4_loop s True 0 0 (fields @ [val]))
      else None)"

definition parse_ipv4 :: "string \<Rightarrow> byte list option" where
  "parse_ipv4 s = map_option (map of_nat) (ipv4_loop s True 0 0 [])"

text \<open>One group of at most four hexadecimal digits: digits read, value, rest.\<close>

fun hex_group :: "string \<Rightarrow> nat \<Rightarrow> nat \<Rightarrow> (nat \<times> nat \<times> string) option" where
  "hex_group [] off acc = Some (off, acc, [])"
| "hex_group (c # s) off acc =
     (case hex_val c of
        None \<Rightarrow> Some (off, acc, c # s)
      | Some d \<Rightarrow> if off > 3 then None else hex_group s (off + 1) (acc * 16 + d))"

text \<open>The loop over the groups; \<open>ip\<close> holds the bytes so far, \<open>ell\<close> the place of the \<^verbatim>\<open>::\<close>.\<close>

function v6_loop :: "byte list \<Rightarrow> nat option \<Rightarrow> string \<Rightarrow> (byte list \<times> nat option \<times> string) option" where
  "v6_loop ip ell s =
     (if 16 \<le> length ip then Some (ip, ell, s)
      else case hex_group s 0 0 of
        None \<Rightarrow> None
      | Some (off, acc, rest) \<Rightarrow>
          if off = 0 then None
          else if rest \<noteq> [] \<and> hd rest = CHR ''.'' then
            (if ell = None \<and> length ip \<noteq> 12 then None
             else if length ip + 4 > 16 then None
             else case parse_ipv4 s of None \<Rightarrow> None | Some f \<Rightarrow> Some (ip @ f, ell, []))
          else
            let ip' = ip @ [of_nat (acc div 256), of_nat (acc mod 256)]
            in case rest of
                 [] \<Rightarrow> Some (ip', ell, [])
               | c # s' \<Rightarrow>
                   if c \<noteq> CHR '':'' then None
                   else if s' = [] then None
                   else if hd s' = CHR '':'' then
                     (if ell \<noteq> None then None
                      else if tl s' = [] then Some (ip', Some (length ip'), [])
                      else v6_loop ip' (Some (length ip')) (tl s'))
                   else v6_loop ip' ell s')"
  by pat_completeness auto
termination
  by (relation "measure (\<lambda>(ip, ell, s). 16 - length ip)") auto

declare v6_loop.simps [simp del]

definition v6_expand :: "byte list \<Rightarrow> nat option \<Rightarrow> byte list option" where
  "v6_expand ip ell =
     (if length ip < 16 then
        (case ell of
           None \<Rightarrow> None
         | Some e \<Rightarrow> Some (take e ip @ replicate (16 - length ip) 0 @ drop e ip))
      else if ell \<noteq> None then None else Some ip)"

definition parse_ipv6 :: "string \<Rightarrow> byte list option" where
  "parse_ipv6 s =
     (let lead = has_prefix s ''::''; s' = (if lead then drop 2 s else s);
          ell = (if lead then Some 0 else None)
      in if lead \<and> s' = [] then Some (replicate 16 0)
         else case v6_loop [] ell s' of
                None \<Rightarrow> None
              | Some (ip, e, rest) \<Rightarrow> if rest \<noteq> [] then None else v6_expand ip e)"

datatype addr = V4 "byte list" | V6 "byte list"

text \<open>The first dot or colon decides the family; an address with a zone is refused.\<close>

fun addr_family :: "string \<Rightarrow> char option" where
  "addr_family [] = None"
| "addr_family (c # s) =
     (if c = CHR ''.'' \<or> c = CHR '':'' \<or> c = CHR ''%'' then Some c else addr_family s)"

definition parse_addr :: "string \<Rightarrow> addr option" where
  "parse_addr s =
     (if CHR ''%'' \<in> set s then None
      else case addr_family s of
        None \<Rightarrow> None
      | Some c \<Rightarrow>
          if c = CHR ''.'' then map_option V4 (parse_ipv4 s) else map_option V6 (parse_ipv6 s))"

fun as16 :: "addr \<Rightarrow> byte list" where
  "as16 (V4 b) = v4InV6Prefix @ b"
| "as16 (V6 b) = b"

definition ParseIP :: "string \<Rightarrow> byte list option" where
  "ParseIP s = map_option as16 (parse_addr s)"

section \<open>Networks\<close>

definition To4 :: "byte list \<Rightarrow> byte list option" where
  "To4 ip =
     (if length ip = 4 then Some ip
      else if length ip = 16 \<and> take 12 ip = v4InV6Prefix then Some (drop 12 ip)
      else None)"

record IPNet =
  net_ip :: "byte list"
  net_mask :: "byte list"

text \<open>\<^verbatim>\<open>CIDRMask\<close>: \<open>n\<close> one bits in \<open>l\<close> bytes.\<close>

fun cidr_mask :: "nat \<Rightarrow> nat \<Rightarrow> byte list" where
  "cidr_mask n 0 = []"
| "cidr_mask n (Suc l) =
     (if n \<ge> 8 then 255 # cidr_mask (n - 8) l else NOT (drop_bit n 255) # cidr_mask 0 l)"

text \<open>\<^verbatim>\<open>dtoi\<close>: a decimal number below \<open>0xFFFFFF\<close>, here together with the test that it is the
  whole string.\<close>

fun dtoi_loop :: "nat \<Rightarrow> string \<Rightarrow> nat option" where
  "dtoi_loop n [] = Some n"
| "dtoi_loop n (c # s) =
     (if is_digit c then
        (let n' = n * 10 + digit_val c in if n' \<ge> 16777215 then None else dtoi_loop n' s)
      else None)"

definition dtoi :: "string \<Rightarrow> nat option" where
  "dtoi s = (if s = [] then None else dtoi_loop 0 s)"

definition ParseCIDR :: "string \<Rightarrow> IPNet option" where
  "ParseCIDR s =
     (case index_byte s CHR ''/'' of
        None \<Rightarrow> None
      | Some i \<Rightarrow>
          (case (parse_addr (take i s), dtoi (drop (Suc i) s)) of
             (Some (V4 b), Some n) \<Rightarrow>
               if n \<le> 32
               then let m = cidr_mask n 4 in Some \<lparr>net_ip = map2 (AND) b m, net_mask = m\<rparr>
               else None
           | (Some (V6 b), Some n) \<Rightarrow>
               if n \<le> 128
               then let m = cidr_mask n 16 in Some \<lparr>net_ip = map2 (AND) b m, net_mask = m\<rparr>
               else None
           | _ \<Rightarrow> None))"

text \<open>\<^verbatim>\<open>networkNumberAndMask\<close> and \<^verbatim>\<open>Contains\<close>.\<close>

definition network_number_and_mask :: "IPNet \<Rightarrow> (byte list \<times> byte list) option" where
  "network_number_and_mask n =
     (case To4 (net_ip n) of
        Some ip \<Rightarrow>
          if length (net_mask n) = 4 then Some (ip, net_mask n)
          else if length (net_mask n) = 16 then Some (ip, drop 12 (net_mask n))
          else None
      | None \<Rightarrow>
          if length (net_ip n) = 16 \<and> length (net_mask n) = 16
          then Some (net_ip n, net_mask n) else None)"

definition net_contains :: "IPNet \<Rightarrow> byte list \<Rightarrow> bool" where
  "net_contains n ip =
     (let x = (case To4 ip of Some x \<Rightarrow> x | None \<Rightarrow> ip)
      in case network_number_and_mask n of
           None \<Rightarrow> x = []
         | Some (nn, m) \<Rightarrow> length x = length nn \<and> map2 (AND) nn m = map2 (AND) x m)"

section \<open>Printing addresses\<close>

definition ipv4_string :: "byte list \<Rightarrow> string" where
  "ipv4_string b =
     nat_dec (unat (b ! 0)) @ ''.'' @ nat_dec (unat (b ! 1)) @ ''.'' @
     nat_dec (unat (b ! 2)) @ ''.'' @ nat_dec (unat (b ! 3))"

definition v6u16 :: "byte list \<Rightarrow> nat \<Rightarrow> nat" where
  "v6u16 ip i = unat (ip ! (2 * i)) * 256 + unat (ip ! (2 * i + 1))"

text \<open>The end of the run of zero groups that starts at group \<open>i\<close>.\<close>

fun zero_run :: "byte list \<Rightarrow> nat \<Rightarrow> nat \<Rightarrow> nat" where
  "zero_run ip j 0 = j"
| "zero_run ip j (Suc f) = (if j < 8 \<and> v6u16 ip j = 0 then zero_run ip (Suc j) f else j)"

definition longest_zero_run :: "byte list \<Rightarrow> nat \<times> nat" where
  "longest_zero_run ip =
     fold (\<lambda>i (zs, ze).
             let j = zero_run ip i 8
             in if j - i \<ge> 2 \<and> j - i > ze - zs then (i, j) else (zs, ze))
       [0..<8] (255, 255)"

fun v6_groups :: "byte list \<Rightarrow> nat \<Rightarrow> nat \<Rightarrow> nat \<Rightarrow> nat \<Rightarrow> string" where
  "v6_groups ip zs ze i 0 = []"
| "v6_groups ip zs ze i (Suc f) =
     (if i \<ge> 8 then []
      else if i = zs then
        ''::'' @ (if ze \<ge> 8 then [] else nat_hex (v6u16 ip ze) @ v6_groups ip zs ze (Suc ze) f)
      else (if i > 0 then '':'' else []) @ nat_hex (v6u16 ip i) @ v6_groups ip zs ze (Suc i) f)"

definition ipv6_string :: "byte list \<Rightarrow> string" where
  "ipv6_string ip = (let (zs, ze) = longest_zero_run ip in v6_groups ip zs ze 0 9)"

definition IP_String :: "byte list \<Rightarrow> string" where
  "IP_String ip =
     (if ip = [] then ''<nil>''
      else if length ip \<noteq> 4 \<and> length ip \<noteq> 16 then CHR ''?'' # hex_encode ip
      else case To4 ip of Some p4 \<Rightarrow> ipv4_string p4 | None \<Rightarrow> ipv6_string ip)"

section \<open>Host and port\<close>

text \<open>\<^verbatim>\<open>net.SplitHostPort\<close>; the three kinds of error are not told apart.\<close>

definition SplitHostPort :: "string \<Rightarrow> (string \<times> string) option" where
  "SplitHostPort hostport =
     (case last_index_byte hostport CHR '':'' of
        None \<Rightarrow> None
      | Some i \<Rightarrow>
          if hd hostport = CHR ''['' then
            (case index_byte hostport CHR '']'' of
               None \<Rightarrow> None
             | Some e \<Rightarrow>
                 if e + 1 \<noteq> i then None
                 else if CHR ''['' \<in> set (drop 1 hostport) then None
                 else if CHR '']'' \<in> set (drop (e + 1) hostport) then None
                 else Some (take (e - 1) (drop 1 hostport), drop (i + 1) hostport))
          else if CHR '':'' \<in> set (take i hostport) then None
          else if CHR ''['' \<in> set hostport \<or> CHR '']'' \<in> set hostport then None
          else Some (take i hostport, drop (i + 1) hostport))"

section \<open>Host and port: the two cases the proxy meets\<close>

lemma SplitHostPort_plain:
  assumes "CHR '':'' \<notin> set h" "CHR ''['' \<notin> set h" "CHR '']'' \<notin> set h"
    and "CHR '':'' \<notin> set p" "CHR ''['' \<notin> set p" "CHR '']'' \<notin> set p"
  shows "SplitHostPort (h @ '':'' @ p) = Some (h, p)"
proof -
  have "last_index_byte (h @ CHR '':'' # p) CHR '':'' = Some (length h)"
    using assms by (intro last_index_byte_append) simp
  moreover have "hd (h @ CHR '':'' # p) \<noteq> CHR ''[''"
    using assms by (cases h) auto
  ultimately show ?thesis using assms by (simp add: SplitHostPort_def)
qed

lemma SplitHostPort_colon_in_host:
  assumes "CHR '':'' \<in> set h" "hd h \<noteq> CHR ''[''" "CHR '':'' \<notin> set p"
  shows "SplitHostPort (h @ '':'' @ p) = None"
proof -
  have "last_index_byte (h @ CHR '':'' # p) CHR '':'' = Some (length h)"
    using assms by (intro last_index_byte_append) simp
  moreover have "hd (h @ CHR '':'' # p) = hd h" using assms by (cases h) auto
  ultimately show ?thesis using assms by (simp add: SplitHostPort_def)
qed

section \<open>Characters of printed addresses\<close>

lemma digit_not_sep: "is_digit c \<Longrightarrow> c \<noteq> CHR '':'' \<and> c \<noteq> CHR ''['' \<and> c \<noteq> CHR '']'' \<and> c \<noteq> CHR ''.'' \<and> c \<noteq> CHR ''%'' \<and> c \<noteq> CHR ''/''"
  by (auto simp: is_digit_def)

lemma nat_dec_no_sep:
  "CHR '':'' \<notin> set (nat_dec n)" "CHR ''['' \<notin> set (nat_dec n)" "CHR '']'' \<notin> set (nat_dec n)"
  "CHR ''.'' \<notin> set (nat_dec n)" "CHR ''%'' \<notin> set (nat_dec n)" "CHR ''/'' \<notin> set (nat_dec n)"
  using nat_dec_digits digit_not_sep by blast+

lemma ipv4_string_no_sep:
  "CHR '':'' \<notin> set (ipv4_string b)" "CHR ''['' \<notin> set (ipv4_string b)"
  "CHR '']'' \<notin> set (ipv4_string b)" "CHR ''%'' \<notin> set (ipv4_string b)" "CHR ''/'' \<notin> set (ipv4_string b)"
  by (simp_all add: ipv4_string_def nat_dec_no_sep)

lemma digit_char_not_bracket: "d < 16 \<Longrightarrow> digit_char d \<noteq> CHR ''['' \<and> digit_char d \<noteq> CHR '':''"
  using of_char_digit_char [of d] by (auto split: if_splits)

lemma nat_hex_no_bracket: "CHR ''['' \<notin> set (nat_hex n)"
proof (induction n rule: nat_hex.induct)
  case (1 n)
  then show ?case
    using digit_char_not_bracket [of n] digit_char_not_bracket [of "n mod 16"]
    by (subst nat_hex.simps) auto
qed

lemma v6_groups_no_bracket: "CHR ''['' \<notin> set (v6_groups ip zs ze i f)"
  by (induction ip zs ze i f rule: v6_groups.induct) (auto simp: nat_hex_no_bracket)

lemma v6_groups_colon: "0 < i \<Longrightarrow> i < 8 \<Longrightarrow> CHR '':'' \<in> set (v6_groups ip zs ze i (Suc f))"
  by simp

text \<open>An IPv6 address that is not an IPv4-mapped one is printed with a colon, and never starts
  with a bracket.\<close>

lemma ipv6_string_colon: "CHR '':'' \<in> set (ipv6_string ip)"
proof -
  obtain zs ze where z: "longest_zero_run ip = (zs, ze)" by fastforce
  have "CHR '':'' \<in> set (v6_groups ip zs ze (Suc 0) (Suc 7))"
    by (rule v6_groups_colon) simp_all
  then show ?thesis
    by (simp add: ipv6_string_def z eval_nat_numeral del: v6_groups.simps(2)) (subst v6_groups.simps(2), simp del: v6_groups.simps(2))
qed

lemma ipv6_string_nonempty: "ipv6_string ip \<noteq> []"
  using ipv6_string_colon [of ip] by auto

lemma ipv6_string_hd: "hd (ipv6_string ip) \<noteq> CHR ''[''"
proof -
  have "CHR ''['' \<notin> set (ipv6_string ip)"
    by (simp add: ipv6_string_def v6_groups_no_bracket case_prod_beta)
  then show ?thesis using ipv6_string_nonempty hd_in_set by metis
qed

section \<open>Round trip of IPv4 addresses\<close>

lemma nat_dec_cases:
  assumes "n < 256"
  shows "n < 10 \<and> nat_dec n = [digit_char n] \<or>
    10 \<le> n \<and> n < 100 \<and> nat_dec n = [digit_char (n div 10), digit_char (n mod 10)] \<or>
    100 \<le> n \<and> nat_dec n =
      [digit_char (n div 100), digit_char (n div 10 mod 10), digit_char (n mod 10)]"
proof -
  consider "n < 10" | "10 \<le> n" "n < 100" | "100 \<le> n" by linarith
  then show ?thesis
  proof cases
    case 1
    then show ?thesis by (simp add: nat_dec.simps [of n])
  next
    case 2
    then have "n div 10 < 10" by simp
    with 2 show ?thesis by (simp add: nat_dec.simps [of n] nat_dec.simps [of "n div 10"])
  next
    case 3
    then have "\<not> n div 10 < 10" "n div 10 div 10 < 10" using assms by simp_all
    with 3 show ?thesis
      by (simp add: nat_dec.simps [of n] nat_dec.simps [of "n div 10"]
          nat_dec.simps [of "n div 100"] div_mult2_eq [symmetric])
  qed
qed

lemma ipv4_loop_field:
  assumes "n < 256"
  shows "ipv4_loop (nat_dec n @ s) True 0 0 fs = ipv4_loop s False n (length (nat_dec n)) fs"
  using nat_dec_cases [OF assms]
proof (elim disjE conjE)
  assume "n < 10" "nat_dec n = [digit_char n]"
  then show ?thesis by simp
next
  assume n: "10 \<le> n" "n < 100" "nat_dec n = [digit_char (n div 10), digit_char (n mod 10)]"
  then have "n div 10 < 10" "n div 10 \<noteq> 0" "n div 10 \<le> 255" by linarith+
  moreover have "n div 10 * 10 + n mod 10 = n" by simp
  ultimately show ?thesis using n assms by (auto simp: Let_def simp del: div_mult_mod_eq)
next
  assume n: "100 \<le> n" "nat_dec n =
      [digit_char (n div 100), digit_char (n div 10 mod 10), digit_char (n mod 10)]"
  have d: "n div 100 < 10" "n div 100 \<noteq> 0" using n assms by simp_all
  have a: "n div 100 * 10 + n div 10 mod 10 = n div 10"
    using div_mult_mod_eq [of "n div 10" 10] by (simp add: div_mult2_eq [symmetric])
  have b: "n div 10 * 10 + n mod 10 = n" by simp
  have c: "n div 10 \<le> 255" "n \<le> 255" using assms by simp_all
  show ?thesis using n d c a b by (auto simp: Let_def simp del: div_mult_mod_eq)
qed

lemma ipv4_loop_dot:
  "s \<noteq> [] \<Longrightarrow> length fs < 3 \<Longrightarrow> ipv4_loop (CHR ''.'' # s) False v d fs = ipv4_loop s True 0 0 (fs @ [v])"
  by (simp add: is_digit_def)

lemma parse_ipv4_string:
  assumes "length b = 4"
  shows "parse_ipv4 (ipv4_string b) = Some b"
proof -
  obtain w x y z where b: "b = [w, x, y, z]"
    using assms by (auto simp: length_Suc_conv eval_nat_numeral)
  have "ipv4_loop (ipv4_string b) True 0 0 [] = Some [unat w, unat x, unat y, unat z]"
    by (simp add: b ipv4_string_def ipv4_loop_field ipv4_loop_dot del: ipv4_loop.simps(2))
      (use ipv4_loop_field [of "unat z" "[]" "[unat w, unat x, unat y]"] in simp)
  then show ?thesis by (simp add: parse_ipv4_def b)
qed

lemma addr_family_digits:
  "\<forall>c \<in> set d. is_digit c \<Longrightarrow> addr_family (d @ s) = addr_family s"
  by (induction d) (auto simp: is_digit_def)

lemma addr_family_ipv4: "addr_family (ipv4_string b) = Some CHR ''.''"
  by (simp add: ipv4_string_def addr_family_digits nat_dec_digits)

lemma ParseIP_ipv4_string:
  assumes "length b = 4"
  shows "parse_addr (ipv4_string b) = Some (V4 b)"
    and "ParseIP (ipv4_string b) = Some (v4InV6Prefix @ b)"
  using assms
  by (simp_all add: ParseIP_def parse_addr_def addr_family_ipv4 parse_ipv4_string ipv4_string_no_sep)

lemma To4_mapped [simp]: "length b = 4 \<Longrightarrow> To4 (v4InV6Prefix @ b) = Some b"
  by (simp add: To4_def v4InV6Prefix_def)

section \<open>A CIDR mask keeps the leading bits\<close>

text \<open>Bit \<open>k\<close> of an address, counted from the front as network prefixes do.\<close>

definition addr_bit :: "byte list \<Rightarrow> nat \<Rightarrow> bool" where
  "addr_bit ip k = bit (ip ! (k div 8)) (7 - k mod 8)"

lemma length_cidr_mask [simp]: "length (cidr_mask n l) = l"
  by (induction n l rule: cidr_mask.induct) simp_all

lemma bit_partial_mask: "j < 8 \<Longrightarrow> n < 8 \<Longrightarrow> bit (NOT (drop_bit n 255) :: byte) j \<longleftrightarrow> 7 - j < n"
proof -
  assume j: "j < 8" "n < 8"
  have m: "(255 :: byte) = mask 8" by (simp add: mask_eq_exp_minus_1)
  have "bit (drop_bit n 255 :: byte) j \<longleftrightarrow> n + j < 8"
    using j unfolding m by (simp add: bit_drop_bit_eq bit_mask_iff)
  then show ?thesis using j by (auto simp: bit_not_iff)
qed

lemma bit_cidr_mask:
  "i < l \<Longrightarrow> j < 8 \<Longrightarrow> bit (cidr_mask n l ! i) j \<longleftrightarrow> 8 * i + (7 - j) < n"
proof (induction n l arbitrary: i rule: cidr_mask.induct)
  case (1 n)
  then show ?case by simp
next
  case (2 n l)
  have m: "(255 :: byte) = mask 8" by (simp add: mask_eq_exp_minus_1)
  show ?case
  proof (cases i)
    case 0
    then show ?thesis using "2.prems" bit_partial_mask [of j n]
      by (auto simp: m bit_mask_iff)
  next
    case (Suc i')
    then show ?thesis using "2.prems" "2.IH" by (cases "8 \<le> n") auto
  qed
qed

lemma byte_eq_bits: "(x :: byte) = y \<longleftrightarrow> (\<forall>j < 8. bit x j = bit y j)"
  by (auto intro: bit_word_eqI)

lemma masked_eq_iff:
  assumes "length a = l" "length b = l"
  shows "map2 (AND) a (cidr_mask n l) = map2 (AND) b (cidr_mask n l) \<longleftrightarrow>
    (\<forall>k < 8 * l. k < n \<longrightarrow> addr_bit a k = addr_bit b k)"
    (is "?L \<longleftrightarrow> ?R")
proof -
  have "?L \<longleftrightarrow> (\<forall>i < l. \<forall>j < 8. 8 * i + (7 - j) < n \<longrightarrow> bit (a ! i) j = bit (b ! i) j)"
    using assms by (auto simp: list_eq_iff_nth_eq byte_eq_bits bit_and_iff bit_cidr_mask)
  also have "\<dots> \<longleftrightarrow> ?R"
  proof
    assume h: "\<forall>i < l. \<forall>j < 8. 8 * i + (7 - j) < n \<longrightarrow> bit (a ! i) j = bit (b ! i) j"
    show ?R
    proof (intro allI impI)
      fix k assume "k < 8 * l" "k < n"
      then have "k div 8 < l" "7 - k mod 8 < 8" "8 * (k div 8) + (7 - (7 - k mod 8)) < n" by auto
      then show "addr_bit a k = addr_bit b k" using h unfolding addr_bit_def by blast
    qed
  next
    assume h: ?R
    show "\<forall>i < l. \<forall>j < 8. 8 * i + (7 - j) < n \<longrightarrow> bit (a ! i) j = bit (b ! i) j"
    proof (intro allI impI)
      fix i j assume ij: "i < l" "j < 8" "8 * i + (7 - j) < n"
      let ?k = "8 * i + (7 - j)"
      have "?k < 8 * l" "?k div 8 = i" "?k mod 8 = 7 - j" using ij
        by (simp_all only: mod_mult_self4 div_mult_self4) auto
      then have "?k < 8 * l" "?k div 8 = i" "7 - ?k mod 8 = j" using ij by auto
      then show "bit (a ! i) j = bit (b ! i) j" using h ij unfolding addr_bit_def by metis
    qed
  qed
  finally show ?thesis .
qed

lemma mask_idem: "map2 (AND) (map2 (AND) a m) m = map2 (AND) a (m :: byte list)"
  by (induction a m rule: list_induct2') (simp_all add: and.assoc)

end
