(* ===== verification/Go_Time.thy ===== *)
theory Go_Time
  imports Go_Prelude
begin

text \<open>
  The part of Go's \<^verbatim>\<open>time\<close> package the proxy uses: the civil calendar, \<^verbatim>\<open>time.Parse(time.RFC3339, s)\<close>
  and the layouts \<^verbatim>\<open>2006-01\<close> and \<^verbatim>\<open>RFC3339\<close> of \<^verbatim>\<open>Format\<close>. An instant is its number of nanoseconds
  since the epoch; the offset of the local time zone, which the operating system supplies,
  is an argument (in seconds east of UTC).
\<close>

section \<open>The calendar\<close>

definition is_leap :: "int \<Rightarrow> bool" where
  "is_leap y \<longleftrightarrow> y mod 4 = 0 \<and> (y mod 100 \<noteq> 0 \<or> y mod 400 = 0)"

definition days_in :: "int \<Rightarrow> int \<Rightarrow> int" where
  "days_in m y =
     (if m = 2 then if is_leap y then 29 else 28
      else if m \<in> {4, 6, 9, 11} then 30 else 31)"

text \<open>Days from 0000-01-01 to the first day of year \<open>y\<close>, and of month \<open>m\<close> within it.\<close>

definition days_before_year :: "int \<Rightarrow> int" where
  "days_before_year y = 365 * y + (y + 3) div 4 - (y + 99) div 100 + (y + 399) div 400"

definition days_before_month :: "int \<Rightarrow> int \<Rightarrow> int" where
  "days_before_month m y = sum_list (map (\<lambda>k. days_in (int k) y) [1..<nat m])"

definition unix_days :: "int \<Rightarrow> int \<Rightarrow> int \<Rightarrow> int" where
  "unix_days y m d = days_before_year y + days_before_month m y + (d - 1) - 719528"

text \<open>The civil date of a day number, with years counted from March.\<close>

definition civil_of_days :: "int \<Rightarrow> int \<times> int \<times> int" where
  "civil_of_days z0 =
     (let z = z0 + 719468; era = z div 146097; doe = z mod 146097;
          yoe = (doe - doe div 1460 + doe div 36524 - doe div 146096) div 365;
          doy = doe - (365 * yoe + yoe div 4 - yoe div 100);
          mp = (5 * doy + 2) div 153;
          d = doy - (153 * mp + 2) div 5 + 1;
          m = (if mp < 10 then mp + 3 else mp - 9);
          y = yoe + era * 400 + (if m \<le> 2 then 1 else 0)
      in (y, m, d))"

section \<open>Formatting\<close>

definition pad2 :: "int \<Rightarrow> string" where
  "pad2 n = [digit_char (nat (n div 10 mod 10)), digit_char (nat (n mod 10))]"

definition pad4 :: "int \<Rightarrow> string" where
  "pad4 n = [digit_char (nat (n div 1000 mod 10)), digit_char (nat (n div 100 mod 10)),
             digit_char (nat (n div 10 mod 10)), digit_char (nat (n mod 10))]"

definition local_seconds :: "int \<Rightarrow> time \<Rightarrow> int" where
  "local_seconds off t = t div second + off"

text \<open>\<^verbatim>\<open>t.Format("2006-01")\<close> and \<^verbatim>\<open>t.Format(time.RFC3339)\<close>, for years 0 to 9999.\<close>

definition format_month :: "int \<Rightarrow> time \<Rightarrow> string" where
  "format_month off t =
     (let (y, m, d) = civil_of_days (local_seconds off t div 86400) in pad4 y @ ''-'' @ pad2 m)"

definition format_zone :: "int \<Rightarrow> string" where
  "format_zone off =
     (if off = 0 then ''Z''
      else (if off < 0 then ''-'' else ''+'') @ pad2 (\<bar>off\<bar> div 3600) @ '':'' @ pad2 (\<bar>off\<bar> div 60 mod 60))"

definition format_rfc3339 :: "int \<Rightarrow> time \<Rightarrow> string" where
  "format_rfc3339 off t =
     (let s = local_seconds off t; (y, m, d) = civil_of_days (s div 86400); r = s mod 86400
      in pad4 y @ ''-'' @ pad2 m @ ''-'' @ pad2 d @ ''T'' @
         pad2 (r div 3600) @ '':'' @ pad2 (r div 60 mod 60) @ '':'' @ pad2 (r mod 60) @ format_zone off)"

section \<open>Parsing\<close>

text \<open>\<^verbatim>\<open>getnum\<close>: two digits, or one when \<open>fixed\<close> is not asked for; the year is four digits.\<close>

fun getnum :: "bool \<Rightarrow> string \<Rightarrow> (int \<times> string) option" where
  "getnum fixed (a # b # s) =
     (if \<not> is_digit a then None
      else if is_digit b then Some (int (digit_val a) * 10 + int (digit_val b), s)
      else if fixed then None else Some (int (digit_val a), b # s))"
| "getnum fixed [a] =
     (if is_digit a \<and> \<not> fixed then Some (int (digit_val a), []) else None)"
| "getnum fixed [] = None"

fun getyear :: "string \<Rightarrow> (int \<times> string) option" where
  "getyear (a # b # c # d # s) =
     (if is_digit a \<and> is_digit b \<and> is_digit c \<and> is_digit d
      then Some (int (digit_val a * 1000 + digit_val b * 100 + digit_val c * 10 + digit_val d), s)
      else None)"
| "getyear _ = None"

fun expect :: "char \<Rightarrow> string \<Rightarrow> string option" where
  "expect c [] = None"
| "expect c (x # s) = (if x = c then Some s else None)"

text \<open>An optional fraction of a second after the seconds: its first nine digits count.\<close>

definition frac_nanos :: "string \<Rightarrow> int" where
  "frac_nanos ds =
     (let ds = take 9 ds
      in fold (\<lambda>c n. n * 10 + int (digit_val c)) ds 0 * 10 ^ (9 - length ds))"

fun fraction :: "string \<Rightarrow> int \<times> string" where
  "fraction (p # s) =
     (if (p = CHR ''.'' \<or> p = CHR '','') \<and> s \<noteq> [] \<and> is_digit (hd s)
      then (frac_nanos (takeWhile is_digit s), dropWhile is_digit s)
      else (0, p # s))"
| "fraction [] = (0, [])"

text \<open>The zone \<^verbatim>\<open>Z07:00\<close>: offset in seconds and the rest.\<close>

definition parse_zone :: "string \<Rightarrow> (int \<times> string) option" where
  "parse_zone s =
     (if s = [] then None
      else if hd s = CHR ''Z'' then Some (0, tl s)
      else if hd s \<noteq> CHR ''+'' \<and> hd s \<noteq> CHR ''-'' then None
      else Option.bind (getnum True (tl s)) (\<lambda>(h, s1).
           Option.bind (expect CHR '':'' s1) (\<lambda>s2.
           Option.bind (getnum True s2) (\<lambda>(m, s3).
             if h > 24 \<or> m > 60 then None
             else Some ((if hd s = CHR ''-'' then -1 else 1) * (h * 60 + m) * 60, s3)))))"

definition parse_date :: "string \<Rightarrow> (int \<times> int \<times> int \<times> string) option" where
  "parse_date s =
     Option.bind (getyear s) (\<lambda>(y, s).
     Option.bind (expect CHR ''-'' s) (\<lambda>s.
     Option.bind (getnum True s) (\<lambda>(m, s).
     if m < 1 \<or> 12 < m then None else
     Option.bind (expect CHR ''-'' s) (\<lambda>s.
     Option.bind (getnum True s) (\<lambda>(d, s). Some (y, m, d, s))))))"

definition parse_rfc3339 :: "string \<Rightarrow> time option" where
  "parse_rfc3339 s =
     Option.bind (parse_date s) (\<lambda>(y, m, d, s).
     Option.bind (expect CHR ''T'' s) (\<lambda>s.
     Option.bind (getnum False s) (\<lambda>(hh, s).
     Option.bind (expect CHR '':'' s) (\<lambda>s.
     Option.bind (getnum True s) (\<lambda>(mi, s).
     Option.bind (expect CHR '':'' s) (\<lambda>s.
     Option.bind (getnum True s) (\<lambda>(ss, s).
     if 24 \<le> hh \<or> 60 \<le> mi \<or> 60 \<le> ss then None else
     (let (ns, s) = fraction s in
     Option.bind (parse_zone s) (\<lambda>(off, s).
     if s \<noteq> [] \<or> d < 1 \<or> days_in m y < d then None
     else Some ((unix_days y m d * 86400 + hh * 3600 + mi * 60 + ss - off) * second + ns))))))))))"

end
