(* ===== verification/User_Store.thy ===== *)
theory User_Store
  imports Rate_Limiter Go_Net Go_Time
begin

unbundle bit_operations_syntax

text \<open>
  \<^verbatim>\<open>internal/auth/auth.go\<close>: the user store with its credential cache, IP white lists, expiry dates
  and rate limits. Code outside the repository is the record \<open>deps\<close>: the Unicode tables of
  \<^verbatim>\<open>strings.ToLower\<close>, SHA-256 and bcrypt. Every method holds a lock around each access, so a call
  is modelled as one step on the store; times read by \<^verbatim>\<open>time.Now()\<close> are arguments.
\<close>

named_theorems store_simps \<open>fields the store operations leave alone\<close>

section \<open>Data\<close>

record deps =
  unicode_lower :: "string \<Rightarrow> string"
  sha256 :: "string \<Rightarrow> byte list"
  bcrypt_compare :: "string \<Rightarrow> string \<Rightarrow> bool"

abbreviation lower :: "deps \<Rightarrow> string \<Rightarrow> string" where
  "lower d \<equiv> ToLower (unicode_lower d)"

record User =
  Username :: string
  Role :: string
  PasswordHash :: string
  RateLimitRPM :: int
  Enabled :: bool
  Plan :: string
  BandwidthLimitGB :: int
  BandwidthSpeedMbps :: int
  MaxConnections :: int
  ExpiresAt :: string

record UsersConfig =
  Users :: "User list"
  IPWhitelist :: "string list"
  SuperAdminIPs :: "string list"

record credCacheEntry =
  ce_user :: User
  ce_validUntil :: time

record UserStore =
  us_users :: "string \<rightharpoonup> User"
  us_ipWhitelist :: "IPNet list"
  us_superAdminIPs :: "IPNet list"
  us_superAdminUser :: "User option"
  us_rateLimiter :: RateLimiter
  us_credCache :: "string \<rightharpoonup> credCacheEntry"

definition credCacheTTL :: duration where
  "credCacheTTL = 5 * minute"

text \<open>What reading and decoding the users file gives.\<close>

datatype users_file = Unreadable | Malformed | Decoded UsersConfig

datatype load_error = ReadFailed | ParseFailed | BadWhitelist string | BadSuperAdminIP string

section \<open>Operations\<close>

definition parseCIDR :: "string \<Rightarrow> IPNet option" where
  "parseCIDR cidr =
     (let cidr = (if \<not> contains cidr ''/'' then
                    if contains cidr '':'' then cidr @ ''/128'' else cidr @ ''/32''
                  else cidr)
      in ParseCIDR cidr)"

definition parseIP :: "string \<Rightarrow> byte list option" where
  "parseIP ipStr =
     (let host = (if contains ipStr '':'' then
                    (case SplitHostPort ipStr of Some (host, _) \<Rightarrow> host | None \<Rightarrow> ipStr)
                  else ipStr)
      in ParseIP host)"

text \<open>The first loop of \<^verbatim>\<open>LoadFromFile\<close>: enabled users, and a bucket for those with a limit.\<close>

fun load_users :: "deps \<Rightarrow> User list \<Rightarrow> (string \<rightharpoonup> User) \<Rightarrow> RateLimiter \<Rightarrow> time \<Rightarrow> (string \<rightharpoonup> User) \<times> RateLimiter"
where
  "load_users d [] m rl now = (m, rl)"
| "load_users d (user # us) m rl now =
     (if Enabled user then
        load_users d us (m(lower d (Username user) \<mapsto> user))
          (if RateLimitRPM user > 0 then SetLimit rl (Username user) (RateLimitRPM user) now else rl) now
      else load_users d us m rl now)"

text \<open>The loops over CIDR lists: the networks appended so far, and the entry that failed.\<close>

fun load_nets :: "string list \<Rightarrow> IPNet list \<Rightarrow> string option \<times> IPNet list" where
  "load_nets [] nets = (None, nets)"
| "load_nets (cidr # cs) nets =
     (case parseCIDR cidr of
        None \<Rightarrow> (Some cidr, nets)
      | Some n \<Rightarrow> load_nets cs (nets @ [n]))"

text \<open>The super admin is the first one met; \<open>order\<close> is the order in which Go ranges over the map.\<close>

definition find_super_admin :: "deps \<Rightarrow> (string \<rightharpoonup> User) \<Rightarrow> string list \<Rightarrow> User option" where
  "find_super_admin d users order =
     List.find (\<lambda>u. lower d (Role u) = ''super_admin'') (List.map_filter users order)"

definition InvalidateAllCredentials :: "UserStore \<Rightarrow> UserStore" where
  "InvalidateAllCredentials s = s\<lparr>us_credCache := Map.empty\<rparr>"

definition LoadFromFile :: "deps \<Rightarrow> UserStore \<Rightarrow> users_file \<Rightarrow> string list \<Rightarrow> time \<Rightarrow> load_error option \<times> UserStore"
where
  "LoadFromFile d s file order now =
     (case file of
        Unreadable \<Rightarrow> (Some ReadFailed, s)
      | Malformed \<Rightarrow> (Some ParseFailed, s)
      | Decoded cfg \<Rightarrow>
          let (users, rl) = load_users d (Users cfg) Map.empty (us_rateLimiter s) now;
              s = s\<lparr>us_users := users, us_rateLimiter := rl,
                    us_superAdminUser := find_super_admin d users order\<rparr>;
              (bad, nets) = load_nets (IPWhitelist cfg) [];
              s = s\<lparr>us_ipWhitelist := nets\<rparr>
          in case bad of
               Some cidr \<Rightarrow> (Some (BadWhitelist cidr), s)
             | None \<Rightarrow>
                 let (bad, nets) = load_nets (SuperAdminIPs cfg) [];
                     s = s\<lparr>us_superAdminIPs := nets\<rparr>
                 in case bad of
                      Some cidr \<Rightarrow> (Some (BadSuperAdminIP cidr), s)
                    | None \<Rightarrow> (None, InvalidateAllCredentials s))"

definition empty_store :: UserStore where
  "empty_store = \<lparr>us_users = Map.empty, us_ipWhitelist = [], us_superAdminIPs = [],
     us_superAdminUser = None, us_rateLimiter = NewRateLimiter, us_credCache = Map.empty\<rparr>"

definition NewUserStore :: "deps \<Rightarrow> users_file \<Rightarrow> string list \<Rightarrow> time \<Rightarrow> load_error + UserStore" where
  "NewUserStore d file order now =
     (case LoadFromFile d empty_store file order now of
        (Some e, _) \<Rightarrow> Inl e
      | (None, store) \<Rightarrow> Inr store)"

definition cacheKey :: "deps \<Rightarrow> string \<Rightarrow> string \<Rightarrow> string" where
  "cacheKey d username password = lower d username @ '':'' @ hex_encode (sha256 d password)"

text \<open>\<open>now\<close> is the time of the cache lookup, \<open>now'\<close> that of the insertion.\<close>

definition ValidateCredentials ::
  "deps \<Rightarrow> UserStore \<Rightarrow> string \<Rightarrow> string \<Rightarrow> time \<Rightarrow> time \<Rightarrow> User option \<times> UserStore" where
  "ValidateCredentials d s username password now now' =
     (let key = cacheKey d username password;
          uncached =
            (case us_users s (lower d username) of
               None \<Rightarrow> (None, s)
             | Some user \<Rightarrow>
                 if \<not> bcrypt_compare d (PasswordHash user) password then (None, s)
                 else (Some user,
                       s\<lparr>us_credCache := (us_credCache s)(key \<mapsto>
                           \<lparr>ce_user = user, ce_validUntil = now' + credCacheTTL\<rparr>)\<rparr>))
      in case us_credCache s key of
           Some entry \<Rightarrow> if now < ce_validUntil entry then (Some (ce_user entry), s) else uncached
         | None \<Rightarrow> uncached)"

definition InvalidateUser :: "deps \<Rightarrow> UserStore \<Rightarrow> string \<Rightarrow> UserStore" where
  "InvalidateUser d s username =
     s\<lparr>us_credCache := (\<lambda>key. if has_prefix key (lower d username @ '':'') then None
                              else us_credCache s key)\<rparr>"

definition CheckIPAllowed :: "UserStore \<Rightarrow> string \<Rightarrow> bool" where
  "CheckIPAllowed s ipStr =
     (if us_ipWhitelist s = [] then True
      else let host = (if contains ipStr '':'' then
                         (case SplitHostPort ipStr of Some (host, _) \<Rightarrow> host | None \<Rightarrow> ipStr)
                       else ipStr)
           in case ParseIP host of
                None \<Rightarrow> False
              | Some ip \<Rightarrow> list_ex (\<lambda>n. net_contains n ip) (us_ipWhitelist s))"

definition CheckRateLimit :: "deps \<Rightarrow> UserStore \<Rightarrow> string \<Rightarrow> time \<Rightarrow> bool \<times> UserStore" where
  "CheckRateLimit d s username now =
     (case us_users s (lower d username) of
        None \<Rightarrow> (False, s)
      | Some user \<Rightarrow>
          if RateLimitRPM user \<le> 0 then (True, s)
          else let (ok, rl) = Allow (us_rateLimiter s) username now
               in (ok, s\<lparr>us_rateLimiter := rl\<rparr>))"

definition IsSuperAdminIP :: "UserStore \<Rightarrow> string \<Rightarrow> User option" where
  "IsSuperAdminIP s ipStr =
     (case us_superAdminUser s of
        None \<Rightarrow> None
      | Some admin \<Rightarrow>
          if us_superAdminIPs s = [] then None
          else case parseIP ipStr of
                 None \<Rightarrow> None
               | Some ip \<Rightarrow>
                   if list_ex (\<lambda>n. net_contains n ip) (us_superAdminIPs s) then Some admin else None)"

definition GetUserCount :: "UserStore \<Rightarrow> nat" where
  "GetUserCount s = card (dom (us_users s))"

definition GetUser :: "deps \<Rightarrow> UserStore \<Rightarrow> string \<Rightarrow> User option" where
  "GetUser d s username = us_users s (lower d username)"

text \<open>An expiry date that does not parse counts as no expiry date.\<close>

definition CheckExpiry :: "deps \<Rightarrow> UserStore \<Rightarrow> string \<Rightarrow> time \<Rightarrow> bool" where
  "CheckExpiry d s username now =
     (case us_users s (lower d username) of
        None \<Rightarrow> False
      | Some user \<Rightarrow>
          if ExpiresAt user = [] then True
          else case parse_rfc3339 (ExpiresAt user) of
                 None \<Rightarrow> True
               | Some expiryTime \<Rightarrow> now < expiryTime)"

text \<open>\<^verbatim>\<open>HashPassword\<close> forwards to bcrypt, whose result for a password is the parameter \<open>gen\<close>.\<close>

definition HashPassword :: "(string \<Rightarrow> string option) \<Rightarrow> string \<Rightarrow> string option" where
  "HashPassword gen password = (case gen password of None \<Rightarrow> None | Some hash \<Rightarrow> Some hash)"

section \<open>The credential cache\<close>

text \<open>SHA-256 digests have 32 bytes.\<close>

definition sha_ok :: "deps \<Rightarrow> bool" where
  "sha_ok d \<longleftrightarrow> (\<forall>p. length (sha256 d p) = 32)"

text \<open>
  Every cache entry was made by a password check that succeeded, for a user who is still in
  the store.
\<close>

definition cache_ok :: "deps \<Rightarrow> UserStore \<Rightarrow> bool" where
  "cache_ok d s \<longleftrightarrow>
     (\<forall>key entry. us_credCache s key = Some entry \<longrightarrow>
        (\<exists>name pw. key = cacheKey d name pw \<and>
           us_users s (lower d name) = Some (ce_user entry) \<and>
           bcrypt_compare d (PasswordHash (ce_user entry)) pw))"

definition store_inv :: "deps \<Rightarrow> UserStore \<Rightarrow> bool" where
  "store_inv d s \<longleftrightarrow> sha_ok d \<and> cache_ok d s"

text \<open>A user whose stored hash accepts a password with the same SHA-256 digest.\<close>

definition legit :: "deps \<Rightarrow> UserStore \<Rightarrow> string \<Rightarrow> string \<Rightarrow> User \<Rightarrow> bool" where
  "legit d s username password u \<longleftrightarrow>
     us_users s (lower d username) = Some u \<and>
     (\<exists>q. sha256 d q = sha256 d password \<and> bcrypt_compare d (PasswordHash u) q)"

text \<open>Two keys are equal only for the same lower-cased name and the same digest, although a user
  name may itself contain colons.\<close>

lemma cacheKey_eq:
  assumes "sha_ok d" "cacheKey d n p = cacheKey d n' p'"
  shows "lower d n = lower d n' \<and> sha256 d p = sha256 d p'"
proof -
  have "length ('':'' @ hex_encode (sha256 d p)) = length ('':'' @ hex_encode (sha256 d p'))"
    using assms(1) by (simp add: sha_ok_def)
  then show ?thesis using assms(2) hex_encode_inj
    unfolding cacheKey_def by (auto dest: append_eq_append_conv [THEN iffD1, rotated])
qed

lemma ValidateCredentials_cases:
  obtains (hit) entry where "us_credCache s (cacheKey d n p) = Some entry" "now < ce_validUntil entry"
      "ValidateCredentials d s n p now now' = (Some (ce_user entry), s)"
  | (unknown) "us_users s (lower d n) = None" "ValidateCredentials d s n p now now' = (None, s)"
  | (wrong) user where "us_users s (lower d n) = Some user"
      "\<not> bcrypt_compare d (PasswordHash user) p" "ValidateCredentials d s n p now now' = (None, s)"
  | (fresh) user where "us_users s (lower d n) = Some user" "bcrypt_compare d (PasswordHash user) p"
      "ValidateCredentials d s n p now now' = (Some user,
         s\<lparr>us_credCache := (us_credCache s)(cacheKey d n p \<mapsto>
             \<lparr>ce_user = user, ce_validUntil = now' + credCacheTTL\<rparr>)\<rparr>)"
  by (cases "us_credCache s (cacheKey d n p)"; cases "us_users s (lower d n)")
    (fastforce simp: ValidateCredentials_def Let_def split: if_splits)+

lemma ValidateCredentials_frame [store_simps]:
  "us_users (snd (ValidateCredentials d s n p now now')) = us_users s"
  "us_ipWhitelist (snd (ValidateCredentials d s n p now now')) = us_ipWhitelist s"
  "us_superAdminIPs (snd (ValidateCredentials d s n p now now')) = us_superAdminIPs s"
  "us_superAdminUser (snd (ValidateCredentials d s n p now now')) = us_superAdminUser s"
  "us_rateLimiter (snd (ValidateCredentials d s n p now now')) = us_rateLimiter s"
  by (cases rule: ValidateCredentials_cases [of s d n p now now'], simp_all)+

lemma CheckRateLimit_frame [store_simps]:
  "us_users (snd (CheckRateLimit d s n now)) = us_users s"
  "us_ipWhitelist (snd (CheckRateLimit d s n now)) = us_ipWhitelist s"
  "us_superAdminIPs (snd (CheckRateLimit d s n now)) = us_superAdminIPs s"
  "us_superAdminUser (snd (CheckRateLimit d s n now)) = us_superAdminUser s"
  "us_credCache (snd (CheckRateLimit d s n now)) = us_credCache s"
  by (simp_all add: CheckRateLimit_def case_prod_beta split: option.splits)

lemma cache_ok_hit:
  assumes "store_inv d s" "us_credCache s (cacheKey d n p) = Some entry"
  shows "legit d s n p (ce_user entry)"
proof -
  from assms obtain name pw where k: "cacheKey d n p = cacheKey d name pw"
    and u: "us_users s (lower d name) = Some (ce_user entry)"
    and b: "bcrypt_compare d (PasswordHash (ce_user entry)) pw"
    unfolding store_inv_def cache_ok_def by blast
  have "lower d n = lower d name" "sha256 d p = sha256 d pw"
    using cacheKey_eq [OF _ k] assms(1) by (auto simp: store_inv_def)
  then show ?thesis using u b by (auto simp: legit_def)
qed

lemma store_inv_ValidateCredentials:
  assumes "store_inv d s"
  shows "store_inv d (snd (ValidateCredentials d s n p now now'))"
proof (cases rule: ValidateCredentials_cases [of s d n p now now'])
  case (fresh user)
  then show ?thesis using assms by (auto simp: store_inv_def cache_ok_def)
qed (use assms in simp_all)

lemma ValidateCredentials_sound:
  assumes "store_inv d s" "fst (ValidateCredentials d s n p now now') = Some u"
  shows "legit d s n p u"
proof (cases rule: ValidateCredentials_cases [of s d n p now now'])
  case (hit entry)
  then show ?thesis using assms cache_ok_hit by auto
next
  case (fresh user)
  then show ?thesis using assms by (auto simp: legit_def)
qed (use assms in auto)

lemma ValidateCredentials_complete:
  assumes "store_inv d s" "us_users s (lower d n) = Some u" "bcrypt_compare d (PasswordHash u) p"
  shows "fst (ValidateCredentials d s n p now now') = Some u"
proof (cases rule: ValidateCredentials_cases [of s d n p now now'])
  case (hit entry)
  then have "legit d s n p (ce_user entry)" using assms cache_ok_hit by blast
  then show ?thesis using hit assms by (auto simp: legit_def)
qed (use assms in auto)

lemma legit_cong: "us_users s' = us_users s \<Longrightarrow> legit d s' = legit d s"
  by (intro ext) (simp add: legit_def)

section \<open>The contract the servers rely on\<close>

locale credential_checker =
  fixes validate :: "'s \<Rightarrow> string \<Rightarrow> string \<Rightarrow> time \<Rightarrow> time \<Rightarrow> 'u option \<times> 's"
    and inv :: "'s \<Rightarrow> bool"
    and ok :: "'s \<Rightarrow> string \<Rightarrow> string \<Rightarrow> 'u \<Rightarrow> bool"
  assumes inv_validate: "inv s \<Longrightarrow> inv (snd (validate s n p t t'))"
    and validate_sound: "inv s \<Longrightarrow> fst (validate s n p t t') = Some u \<Longrightarrow> ok s n p u"
    and ok_validate: "ok (snd (validate s n p t t')) = ok s"
begin

lemma run_sound:
  "inv s \<Longrightarrow>
   inv (fold (\<lambda>(n, p, t, t') s. snd (validate s n p t t')) reqs s) \<and>
   ok (fold (\<lambda>(n, p, t, t') s. snd (validate s n p t t')) reqs s) = ok s"
  by (induction reqs arbitrary: s) (auto simp: inv_validate ok_validate)

lemma accepted_after_run:
  assumes "inv s"
    and "fst (validate (fold (\<lambda>(n, p, t, t') s. snd (validate s n p t t')) reqs s) n p t t') = Some u"
  shows "ok s n p u"
  using validate_sound [OF _ assms(2)] run_sound [OF assms(1)] by simp

end

interpretation cred: credential_checker "ValidateCredentials d" "store_inv d" "legit d" for d
proof unfold_locales
  fix s n p t t' u
  show "store_inv d s \<Longrightarrow> store_inv d (snd (ValidateCredentials d s n p t t'))"
    by (rule store_inv_ValidateCredentials)
  show "store_inv d s \<Longrightarrow> fst (ValidateCredentials d s n p t t') = Some u \<Longrightarrow> legit d s n p u"
    by (rule ValidateCredentials_sound)
  show "legit d (snd (ValidateCredentials d s n p t t')) = legit d s"
    by (rule legit_cong) (rule ValidateCredentials_frame)
qed

section \<open>Invariant of the other operations\<close>

lemma store_inv_InvalidateUser: "store_inv d s \<Longrightarrow> store_inv d (InvalidateUser d s n)"
  by (auto simp: store_inv_def cache_ok_def InvalidateUser_def)

lemma store_inv_InvalidateAll: "sha_ok d \<Longrightarrow> store_inv d (InvalidateAllCredentials s)"
  by (simp add: store_inv_def cache_ok_def InvalidateAllCredentials_def)

lemma store_inv_CheckRateLimit: "store_inv d s \<Longrightarrow> store_inv d (snd (CheckRateLimit d s n now))"
  by (simp add: store_inv_def cache_ok_def CheckRateLimit_frame)

lemma LoadFromFile_success:
  assumes "LoadFromFile d s uf order now = (None, s')"
  obtains cfg where "uf = Decoded cfg"
    "us_users s' = fst (load_users d (Users cfg) Map.empty (us_rateLimiter s) now)"
    "us_rateLimiter s' = snd (load_users d (Users cfg) Map.empty (us_rateLimiter s) now)"
    "us_superAdminUser s' = find_super_admin d (us_users s') order"
    "load_nets (IPWhitelist cfg) [] = (None, us_ipWhitelist s')"
    "load_nets (SuperAdminIPs cfg) [] = (None, us_superAdminIPs s')"
    "us_credCache s' = Map.empty"
  using assms
  by (cases uf)
    (auto simp: LoadFromFile_def Let_def InvalidateAllCredentials_def case_prod_beta prod_eq_iff
      split: option.splits)

lemma store_inv_LoadFromFile:
  "sha_ok d \<Longrightarrow> LoadFromFile d s file order now = (None, s') \<Longrightarrow> store_inv d s'"
  by (elim LoadFromFile_success) (simp add: store_inv_def cache_ok_def)

lemma NewUserStore_LoadFromFile:
  "NewUserStore d file order now = Inr s \<Longrightarrow> LoadFromFile d empty_store file order now = (None, s)"
  by (auto simp: NewUserStore_def split: prod.splits option.splits)

section \<open>Loading users\<close>

lemma load_users_source:
  assumes "fst (load_users d us m rl now) k = Some u"
  shows "m k = Some u \<or> u \<in> set us \<and> Enabled u \<and> k = lower d (Username u)"
  using assms
proof (induction d us m rl now rule: load_users.induct)
  case (2 d user us m rl now)
  show ?case
  proof (cases "Enabled user")
    case True
    then have "(m(lower d (Username user) \<mapsto> user)) k = Some u \<or>
        u \<in> set us \<and> Enabled u \<and> k = lower d (Username u)"
      by (rule "2.IH"(1)) (use "2.prems" True in \<open>simp only: load_users.simps if_True\<close>)
    then show ?thesis using True by (auto split: if_splits)
  next
    case False
    with 2 show ?thesis by auto
  qed
qed simp

lemma load_users_buckets:
  "rl_buckets (snd (load_users d us m rl now)) name \<noteq> None \<Longrightarrow>
   rl_buckets rl name \<noteq> None \<or>
   (\<exists>u \<in> set us. Enabled u \<and> RateLimitRPM u > 0 \<and> Username u = name)"
proof (induction d us m rl now rule: load_users.induct)
  case (2 d user us m rl now)
  show ?case
  proof (cases "Enabled user")
    case True
    let ?rl = "if RateLimitRPM user > 0 then SetLimit rl (Username user) (RateLimitRPM user) now else rl"
    have "rl_buckets ?rl name \<noteq> None \<or>
        (\<exists>u \<in> set us. Enabled u \<and> RateLimitRPM u > 0 \<and> Username u = name)"
      by (rule "2.IH"(1) [OF True])
        (use "2.prems" True in \<open>simp only: load_users.simps if_True not_False_eq_True\<close>)
    moreover have "rl_buckets ?rl name \<noteq> None \<Longrightarrow>
        rl_buckets rl name \<noteq> None \<or> RateLimitRPM user > 0 \<and> Username user = name"
      by (auto simp: SetLimit_def Let_def split: if_splits)
    ultimately show ?thesis using True by auto
  next
    case False
    with 2 show ?thesis by auto
  qed
qed simp

lemma load_users_limiter_ok:
  "limiter_ok rl \<Longrightarrow> limiter_ok (snd (load_users d us m rl now))"
  by (induction d us m rl now rule: load_users.induct) (simp_all add: SetLimit_ok)

lemma NewUserStore_users:
  assumes "NewUserStore d (Decoded cfg) order now = Inr s"
  shows "us_users s = fst (load_users d (Users cfg) Map.empty NewRateLimiter now)"
    and "us_rateLimiter s = snd (load_users d (Users cfg) Map.empty NewRateLimiter now)"
  using LoadFromFile_success [OF NewUserStore_LoadFromFile [OF assms]]
  by (auto simp: empty_store_def)

text \<open>A name that no user of the file has in this spelling has no bucket, and without one there is no limit.\<close>

lemma loaded_no_bucket:
  assumes "NewUserStore d (Decoded cfg) order now = Inr s" "name \<notin> Username ` set (Users cfg)"
  shows "rl_buckets (us_rateLimiter s) name = None"
  using load_users_buckets [of d "Users cfg" Map.empty NewRateLimiter now name] assms(2)
  unfolding NewUserStore_users(2) [OF assms(1)]
  by (cases "rl_buckets (snd (load_users d (Users cfg) Map.empty NewRateLimiter now)) name") (auto simp: NewRateLimiter_def)

lemma CheckRateLimit_no_bucket:
  "rl_buckets (us_rateLimiter s) name = None \<Longrightarrow> us_users s (lower d name) = Some u \<Longrightarrow> CheckRateLimit d s name t = (True, s)"
  by (simp add: CheckRateLimit_def Allow_def)

section \<open>Networks in dotted notation\<close>

lemma dtoi_nat_dec: "n < 256 \<Longrightarrow> dtoi (nat_dec n) = Some n"
proof -
  assume n: "n < 256"
  have e: "n div 10 * 10 + n mod 10 = n" "n div 100 * 10 + n div 10 mod 10 = n div 10"
    using div_mult_mod_eq [of "n div 10" 10] by (simp_all add: div_mult2_eq [symmetric])
  show ?thesis
    using nat_dec_cases [OF n] n e
    by (elim disjE conjE) (auto simp: dtoi_def Let_def simp del: div_mult_mod_eq)
qed

definition ipv4_net :: "byte list \<Rightarrow> nat \<Rightarrow> IPNet" where
  "ipv4_net b n = \<lparr>net_ip = map2 (AND) b (cidr_mask n 4), net_mask = cidr_mask n 4\<rparr>"

lemma parseCIDR_ipv4:
  assumes "length b = 4" "n \<le> 32"
  shows "parseCIDR (ipv4_string b @ ''/'' @ nat_dec n) = Some (ipv4_net b n)"
proof -
  let ?c = "ipv4_string b @ ''/'' @ nat_dec n"
  have "contains ?c ''/''" by (simp add: contains_char)
  moreover have "index_byte ?c CHR ''/'' = Some (length (ipv4_string b))"
    using index_byte_append [of "CHR ''/''" "ipv4_string b" "nat_dec n"] by (simp add: ipv4_string_no_sep)
  ultimately show ?thesis
    using assms
    by (simp add: parseCIDR_def ParseCIDR_def ParseIP_ipv4_string dtoi_nat_dec ipv4_net_def Let_def)
qed

lemma net_contains_ipv4:
  assumes "length b = 4" "length c = 4" "n \<le> 32"
  shows "net_contains (ipv4_net b n) (v4InV6Prefix @ c) \<longleftrightarrow> (\<forall>k < n. addr_bit b k = addr_bit c k)"
proof -
  have "length (map2 (AND) b (cidr_mask n 4)) = 4" using assms by simp
  then have "net_contains (ipv4_net b n) (v4InV6Prefix @ c) \<longleftrightarrow>
      map2 (AND) (map2 (AND) b (cidr_mask n 4)) (cidr_mask n 4) = map2 (AND) c (cidr_mask n 4)"
    using assms by (simp add: net_contains_def network_number_and_mask_def ipv4_net_def To4_def [of "map2 _ _ _"])
  also have "\<dots> \<longleftrightarrow> map2 (AND) b (cidr_mask n 4) = map2 (AND) c (cidr_mask n 4)"
    by (simp only: mask_idem)
  also have "\<dots> \<longleftrightarrow> (\<forall>k < n. addr_bit b k = addr_bit c k)"
    using assms masked_eq_iff [of b 4 c n] by auto
  finally show ?thesis .
qed

lemma load_nets_ipv4:
  "\<forall>(b, n) \<in> set specs. length b = 4 \<and> n \<le> 32 \<Longrightarrow>
   load_nets (map (\<lambda>(b, n). ipv4_string b @ ''/'' @ nat_dec n) specs) nets
     = (None, nets @ map (\<lambda>(b, n). ipv4_net b n) specs)"
  by (induction specs arbitrary: nets) (auto simp: parseCIDR_ipv4 [simplified])

lemma client_host:
  assumes "length c = 4"
  shows "ParseIP (let s = ipv4_string c @ '':'' @ nat_dec port in
           if contains s '':'' then (case SplitHostPort s of Some (host, _) \<Rightarrow> host | None \<Rightarrow> s) else s)
         = Some (v4InV6Prefix @ c)"
  using SplitHostPort_plain [of "ipv4_string c" "nat_dec port"] assms
  by (simp add: ipv4_string_no_sep nat_dec_no_sep contains_char ParseIP_ipv4_string Let_def)

section \<open>Properties\<close>

text \<open>The password check without a cache.\<close>

definition validate_reference :: "deps \<Rightarrow> UserStore \<Rightarrow> string \<Rightarrow> string \<Rightarrow> User option" where
  "validate_reference d s username password =
     (case us_users s (lower d username) of
        None \<Rightarrow> None
      | Some u \<Rightarrow> if bcrypt_compare d (PasswordHash u) password then Some u else None)"

text \<open>
  Every cache entry goes back to one of the passwords \<open>P\<close> that were tried, which the hash of the user accepted.
\<close>

definition cached_from :: "deps \<Rightarrow> string set \<Rightarrow> UserStore \<Rightarrow> bool" where
  "cached_from d P s \<longleftrightarrow>
     (\<forall>key entry. us_credCache s key = Some entry \<longrightarrow>
        (\<exists>name pw. pw \<in> P \<and> key = cacheKey d name pw \<and> us_users s (lower d name) = Some (ce_user entry) \<and>
           bcrypt_compare d (PasswordHash (ce_user entry)) pw))"

lemma cached_from_Validate:
  assumes "cached_from d P s" "p \<in> P"
  shows "cached_from d P (snd (ValidateCredentials d s n p t t'))"
proof (cases rule: ValidateCredentials_cases [of s d n p t t'])
  case (fresh user)
  then show ?thesis using assms unfolding cached_from_def by auto
qed (use assms in simp_all)

lemma validate_run:
  assumes "cached_from d P s" "\<And>n p t t'. (n, p, t, t') \<in> set reqs \<Longrightarrow> p \<in> P"
  defines "s' \<equiv> fold (\<lambda>(n, p, t, t') s. snd (ValidateCredentials d s n p t t')) reqs s"
  shows "cached_from d P s' \<and> us_users s' = us_users s"
  using assms(1,2) unfolding s'_def
proof (induction reqs arbitrary: s)
  case (Cons r reqs)
  obtain n p t t' where r: "r = (n, p, t, t')" by (cases r)
  have "p \<in> P" by (rule Cons.prems(2) [of n p t t']) (simp add: r)
  then have "cached_from d P (snd (ValidateCredentials d s n p t t'))" by (rule cached_from_Validate [OF Cons.prems(1)])
  moreover have "p' \<in> P" if "(n', p', u, u') \<in> set reqs" for n' p' u u'
    by (rule Cons.prems(2) [of n' p' u u']) (simp add: that)
  ultimately show ?case using Cons.IH [of "snd (ValidateCredentials d s n p t t')"] by (simp add: r store_simps)
qed simp

text \<open>C7: the credential cache is invisible. After the users were loaded and any sequence of credential
  checks was served, at whatever times, \<^verbatim>\<open>ValidateCredentials\<close> gives exactly the answer of the check that
  always runs bcrypt, provided SHA-256 (whose digests have 32 bytes) maps none of the other passwords tried
  before to the digest of this one.\<close>

theorem credential_cache_transparent:
  assumes "sha_ok d" and "NewUserStore d (Decoded cfg) order now = Inr s"
    and "\<And>n p t t'. (n, p, t, t') \<in> set reqs \<Longrightarrow> sha256 d p = sha256 d password \<Longrightarrow> p = password"
  shows "fst (ValidateCredentials d (fold (\<lambda>(n, p, t, t') s. snd (ValidateCredentials d s n p t t')) reqs s)
            username password t t')
         = validate_reference d s username password"
proof -
  define s' where "s' = fold (\<lambda>(n, p, t, t') s. snd (ValidateCredentials d s n p t t')) reqs s"
  let ?P = "(\<lambda>(n, p, t, t'). p) ` set reqs"
  have "us_credCache s = Map.empty" by (rule LoadFromFile_success [OF NewUserStore_LoadFromFile [OF assms(2)]])
  then have "cached_from d ?P s" by (simp add: cached_from_def)
  then have s': "cached_from d ?P s'" "us_users s' = us_users s"
    using validate_run [of d ?P s reqs] by (force simp: s'_def)+
  show ?thesis unfolding s'_def [symmetric]
  proof (cases rule: ValidateCredentials_cases [of s' d username password t t'])
    case (hit entry)
    from s'(1) hit(1) obtain name pw where e: "pw \<in> ?P" "cacheKey d username password = cacheKey d name pw"
      "us_users s' (lower d name) = Some (ce_user entry)" "bcrypt_compare d (PasswordHash (ce_user entry)) pw"
      unfolding cached_from_def by blast
    have "lower d username = lower d name" "sha256 d pw = sha256 d password" using cacheKey_eq [OF assms(1) e(2)] by simp_all
    moreover from this have "pw = password" using e(1) assms(3) by auto
    ultimately show "fst (ValidateCredentials d s' username password t t') = validate_reference d s username password"
      using hit(3) e(3,4) s'(2) by (simp add: validate_reference_def)
  qed (simp_all add: validate_reference_def s'(2) [symmetric])
qed

text \<open>A store with one user and a toy digest (the first 32 bytes), for the witnesses.\<close>

definition pad32 :: "string \<Rightarrow> byte list" where
  "pad32 p = take 32 (bytes_of_string p @ replicate 32 0)"

definition demo_deps :: deps where
  "demo_deps = \<lparr>unicode_lower = id, sha256 = pad32,
     bcrypt_compare = (\<lambda>h p. pad32 p = pad32 h)\<rparr>"

definition demo_user :: User where
  "demo_user = \<lparr>Username = ''Bob'', Role = ''user'', PasswordHash = ''pw'', RateLimitRPM = 60,
     Enabled = True, Plan = ''starter'', BandwidthLimitGB = 5, BandwidthSpeedMbps = 10,
     MaxConnections = 2, ExpiresAt = ''2030-01-01T00:00:00Z''\<rparr>"

definition demo_store :: UserStore where
  "demo_store = empty_store\<lparr>us_users := [''bob'' \<mapsto> demo_user],
     us_rateLimiter := SetLimit NewRateLimiter ''Bob'' 60 0\<rparr>"

lemma demo_deps_simps [simp]:
  "unicode_lower demo_deps = id" "sha256 demo_deps = pad32"
  "bcrypt_compare demo_deps h p \<longleftrightarrow> pad32 p = pad32 h"
  by (simp_all add: demo_deps_def)

lemma demo_user_simps [simp]:
  "Username demo_user = ''Bob''" "Role demo_user = ''user''" "PasswordHash demo_user = ''pw''"
  "RateLimitRPM demo_user = 60" "Enabled demo_user" "BandwidthLimitGB demo_user = 5"
  "BandwidthSpeedMbps demo_user = 10" "MaxConnections demo_user = 2"
  "ExpiresAt demo_user = ''2030-01-01T00:00:00Z''"
  by (simp_all add: demo_user_def)

lemma demo_sha_ok: "sha_ok demo_deps"
  by (auto simp: sha_ok_def pad32_def)

lemma demo_store_inv: "store_inv demo_deps demo_store"
  by (simp add: store_inv_def demo_sha_ok cache_ok_def demo_store_def empty_store_def)

lemma lower_BOB [simp]: "ToLower id ''BOB'' = ''bob''" "ToLower id ''Bob'' = ''bob''"
  "ToLower id ''bob'' = ''bob''" "ToLower id ''user'' = ''user''"
  by (simp_all add: ToLower_def is_ascii_def ascii_lower_def char_of_def bit_Suc_0_iff)

definition demo_cfg :: UsersConfig where
  "demo_cfg = \<lparr>Users = [demo_user], IPWhitelist = [], SuperAdminIPs = []\<rparr>"

lemma demo_NewUserStore: "NewUserStore demo_deps (Decoded demo_cfg) [''bob''] 0 = Inr demo_store"
  by (simp add: NewUserStore_def LoadFromFile_def demo_cfg_def empty_store_def
      demo_store_def find_super_admin_def InvalidateAllCredentials_def Let_def map_filter_def)

text \<open>The second check is answered from the cache, which the first one filled.\<close>

theorem credential_cache_transparent_witness:
  "let s = snd (ValidateCredentials demo_deps demo_store ''bob'' ''pw'' 0 1) in
   us_credCache s (cacheKey demo_deps ''BOB'' ''pw'') = Some \<lparr>ce_user = demo_user, ce_validUntil = 1 + credCacheTTL\<rparr> \<and>
   ValidateCredentials demo_deps s ''BOB'' ''pw'' 2 3 = (Some demo_user, s)"
proof -
  let ?s = "snd (ValidateCredentials demo_deps demo_store ''bob'' ''pw'' 0 1)"
  have key: "cacheKey demo_deps ''BOB'' ''pw'' = cacheKey demo_deps ''bob'' ''pw''" by (simp add: cacheKey_def)
  have c: "us_credCache ?s (cacheKey demo_deps ''BOB'' ''pw'') = Some \<lparr>ce_user = demo_user, ce_validUntil = 1 + credCacheTTL\<rparr>"
    unfolding key by (simp add: ValidateCredentials_def demo_store_def empty_store_def Let_def)
  then have "snd (ValidateCredentials demo_deps ?s ''BOB'' ''pw'' 2 3) = ?s"
    by (simp add: ValidateCredentials_def [of _ ?s] Let_def credCacheTTL_def minute_def second_def)
  moreover have "fst (ValidateCredentials demo_deps ?s ''BOB'' ''pw'' 2 3) = validate_reference demo_deps demo_store ''BOB'' ''pw''"
    using credential_cache_transparent [OF demo_sha_ok demo_NewUserStore, of "[(''bob'', ''pw'', 0, 1)]" "''pw''" "''BOB''" 2 3] by simp
  moreover have "validate_reference demo_deps demo_store ''BOB'' ''pw'' = Some demo_user"
    by (simp add: validate_reference_def demo_store_def)
  ultimately show ?thesis using c by (simp add: Let_def prod_eq_iff)
qed

text \<open>C8: after the store is loaded from a users file, whatever sequence of credential checks has
  been served, a check succeeds only for a user that is listed and enabled in that file under
  the same name up to case, and whose password hash accepted a password with the same digest.\<close>

theorem only_listed_enabled_users_authenticate:
  assumes "sha_ok d" and "NewUserStore d (Decoded cfg) order now = Inr s"
    and "fst (ValidateCredentials d
           (fold (\<lambda>(n, p, t, t') s. snd (ValidateCredentials d s n p t t')) reqs s)
           username password t t') = Some u"
  shows "u \<in> set (Users cfg) \<and> Enabled u \<and> lower d (Username u) = lower d username \<and>
    (\<exists>q. sha256 d q = sha256 d password \<and> bcrypt_compare d (PasswordHash u) q)"
proof -
  have "store_inv d s"
    using store_inv_LoadFromFile [OF assms(1) NewUserStore_LoadFromFile [OF assms(2)]] .
  then have l: "legit d s username password u"
    using assms(3) by (rule cred.accepted_after_run)
  then have "fst (load_users d (Users cfg) Map.empty NewRateLimiter now) (lower d username) = Some u"
    by (simp add: legit_def NewUserStore_users [OF assms(2)])
  then show ?thesis using load_users_source l by (fastforce simp: legit_def)
qed

theorem only_listed_enabled_users_authenticate_witness:
  "fst (ValidateCredentials demo_deps
      (fold (\<lambda>(n, p, t, t') s. snd (ValidateCredentials demo_deps s n p t t'))
        [(''bob'', ''no'', 0, 0)] demo_store) ''bob'' ''pw'' 1 2) = Some demo_user \<and>
   Enabled demo_user"
proof -
  have a: "fst (ValidateCredentials demo_deps
      (fold (\<lambda>(n, p, t, t') s. snd (ValidateCredentials demo_deps s n p t t'))
        [(''bob'', ''no'', 0, 0)] demo_store) ''bob'' ''pw'' 1 2) = Some demo_user"
    by (simp add: ValidateCredentials_def demo_store_def empty_store_def Let_def pad32_def
        bytes_of_string_def)
  show ?thesis
    using a only_listed_enabled_users_authenticate [OF demo_sha_ok demo_NewUserStore a] by simp
qed

text \<open>C9: a client with an IPv4 address is let in by a non-empty white list exactly when, for some
  entry \<^verbatim>\<open>a.b.c.d/n\<close> of it, the first \<open>n\<close> bits of its address are those of the entry.\<close>

theorem whitelist_matches_prefix:
  assumes "specs \<noteq> []" and "\<forall>(b, n) \<in> set specs. length b = 4 \<and> n \<le> 32"
    and "load_nets (map (\<lambda>(b, n). ipv4_string b @ ''/'' @ nat_dec n) specs) []
           = (None, us_ipWhitelist s)"
    and "length c = 4"
  shows "CheckIPAllowed s (ipv4_string c @ '':'' @ nat_dec port)
           \<longleftrightarrow> (\<exists>(b, n) \<in> set specs. \<forall>k < n. addr_bit b k = addr_bit c k)"
proof -
  have w: "us_ipWhitelist s = map (\<lambda>(b, n). ipv4_net b n) specs"
    using assms(3) load_nets_ipv4 [OF assms(2), of "[]"] by simp
  have "CheckIPAllowed s (ipv4_string c @ '':'' @ nat_dec port)
      \<longleftrightarrow> (\<exists>(b, n) \<in> set specs. net_contains (ipv4_net b n) (v4InV6Prefix @ c))"
    using assms(1) client_host [OF assms(4), of port]
    by (simp add: CheckIPAllowed_def w list_ex_iff Let_def case_prod_beta)
  also have "\<dots> \<longleftrightarrow> (\<exists>(b, n) \<in> set specs. \<forall>k < n. addr_bit b k = addr_bit c k)"
    using assms(2,4) by (intro bex_cong) (auto simp: net_contains_ipv4)
  finally show ?thesis .
qed

theorem whitelist_matches_prefix_witness:
  "let s = empty_store\<lparr>us_ipWhitelist := [ipv4_net [10, 1, 0, 0] 16]\<rparr> in
   CheckIPAllowed s (ipv4_string [10, 1, 7, 9] @ '':'' @ nat_dec 4711) \<and>
   \<not> CheckIPAllowed s (ipv4_string [10, 2, 7, 9] @ '':'' @ nat_dec 4711)"
proof -
  let ?s = "empty_store\<lparr>us_ipWhitelist := [ipv4_net [10, 1, 0, 0] 16]\<rparr>"
  have l: "load_nets (map (\<lambda>(b, n). ipv4_string b @ ''/'' @ nat_dec n) [([10, 1, 0, 0], 16)]) []
      = (None, us_ipWhitelist ?s)"
    using load_nets_ipv4 [of "[([10, 1, 0, 0], 16)]" "[]"] by simp
  have bits: "\<forall>k < 16. addr_bit [10, 1, 0, 0] k = addr_bit [10, 1, 7, 9] k"
  proof (intro allI impI)
    fix k :: nat assume "k < 16"
    then have "k div 8 = 0 \<or> k div 8 = 1" by linarith
    then show "addr_bit [10, 1, 0, 0] k = addr_bit [10, 1, 7, 9] k" by (auto simp: addr_bit_def)
  qed
  have nobits: "\<not> (\<forall>k < 16. addr_bit [10, 1, 0, 0] k = addr_bit [10, 2, 7, 9] k)"
  proof -
    have "addr_bit [10, 1, 0, 0] 15 \<noteq> addr_bit [10, 2, 7, 9] 15" by (simp add: addr_bit_def)
    moreover have "(15 :: nat) < 16" by simp
    ultimately show ?thesis by blast
  qed
  show ?thesis
    using whitelist_matches_prefix [OF _ _ l, of "[10, 1, 7, 9]" 4711]
      whitelist_matches_prefix [OF _ _ l, of "[10, 2, 7, 9]" 4711] bits nobits by simp
qed

text \<open>C10: \<^verbatim>\<open>IsSuperAdminIP\<close> answers only with an enabled user of the loaded file whose role is super
  admin up to case, and only for an address inside one of the listed super admin networks.\<close>

theorem super_admin_is_listed:
  assumes "NewUserStore d (Decoded cfg) order now = Inr s" and "IsSuperAdminIP s ipStr = Some u"
  shows "u \<in> set (Users cfg) \<and> Enabled u \<and> lower d (Role u) = ''super_admin'' \<and>
    (\<exists>ip nets net. parseIP ipStr = Some ip \<and> load_nets (SuperAdminIPs cfg) [] = (None, nets) \<and>
       net \<in> set nets \<and> net_contains net ip)"
proof -
  have adm: "us_superAdminUser s = find_super_admin d (us_users s) order"
    and nets: "load_nets (SuperAdminIPs cfg) [] = (None, us_superAdminIPs s)"
    by (rule LoadFromFile_success [OF NewUserStore_LoadFromFile [OF assms(1)]], simp)+
  have "us_superAdminUser s = Some u"
    using assms(2) by (auto simp: IsSuperAdminIP_def split: option.splits if_splits)
  then have "List.find (\<lambda>u. lower d (Role u) = ''super_admin'') (List.map_filter (us_users s) order) = Some u"
    using adm by (simp add: find_super_admin_def)
  then have role: "lower d (Role u) = ''super_admin''" and "u \<in> set (List.map_filter (us_users s) order)"
    by (auto simp: find_Some_iff)
  then obtain k where "us_users s k = Some u" by (auto simp: map_filter_def)
  then have "fst (load_users d (Users cfg) Map.empty NewRateLimiter now) k = Some u"
    by (simp only: NewUserStore_users [OF assms(1)])
  from load_users_source [OF this] have "u \<in> set (Users cfg) \<and> Enabled u" by simp
  moreover have "\<exists>ip net. parseIP ipStr = Some ip \<and> net \<in> set (us_superAdminIPs s) \<and> net_contains net ip"
    using assms(2) by (auto simp: IsSuperAdminIP_def list_ex_iff split: option.splits if_splits)
  ultimately show ?thesis using role nets by blast
qed

definition demo_admin :: User where
  "demo_admin = demo_user\<lparr>Username := ''root'', Role := ''super_admin''\<rparr>"

definition demo_admin_cfg :: UsersConfig where
  "demo_admin_cfg = \<lparr>Users = [demo_admin], IPWhitelist = [],
     SuperAdminIPs = [ipv4_string [10, 0, 0, 1] @ ''/'' @ nat_dec 32]\<rparr>"

definition demo_admin_store :: UserStore where
  "demo_admin_store = empty_store\<lparr>us_users := [''root'' \<mapsto> demo_admin],
     us_superAdminIPs := [ipv4_net [10, 0, 0, 1] 32], us_superAdminUser := Some demo_admin,
     us_rateLimiter := SetLimit NewRateLimiter ''root'' 60 0\<rparr>"

lemma lower_root [simp]: "ToLower id ''root'' = ''root''"
  "ToLower id ''super_admin'' = ''super_admin''"
  by (simp_all add: ToLower_def is_ascii_def ascii_lower_def)

lemma demo_admin_NewUserStore:
  "NewUserStore demo_deps (Decoded demo_admin_cfg) [''root''] 0 = Inr demo_admin_store"
  using load_nets_ipv4 [of "[([10, 0, 0, 1], 32)]" "[]"]
  by (simp add: NewUserStore_def LoadFromFile_def demo_admin_cfg_def empty_store_def demo_admin_def
      demo_admin_store_def find_super_admin_def InvalidateAllCredentials_def Let_def map_filter_def)

lemma demo_admin_IsSuperAdminIP:
  "IsSuperAdminIP demo_admin_store (ipv4_string [10, 0, 0, 1] @ '':'' @ nat_dec 99) = Some demo_admin"
  using client_host [of "[10, 0, 0, 1]" 99] net_contains_ipv4 [of "[10, 0, 0, 1]" "[10, 0, 0, 1]" 32]
  by (simp add: IsSuperAdminIP_def demo_admin_store_def empty_store_def parseIP_def Let_def)

theorem super_admin_is_listed_witness:
  "lower demo_deps (Role demo_admin) = ''super_admin'' \<and> demo_admin \<in> set (Users demo_admin_cfg)"
  using super_admin_is_listed [OF demo_admin_NewUserStore demo_admin_IsSuperAdminIP] by simp

text \<open>C12: a reload that fails on the first white list entry reports the error, but leaves the new
  users in place, the old credential cache alive and the white list empty, so that every
  address is admitted.\<close>

theorem failed_reload_opens_whitelist:
  assumes "IPWhitelist cfg = bad # rest" and "parseCIDR bad = None"
  shows "fst (LoadFromFile d s (Decoded cfg) order now) = Some (BadWhitelist bad) \<and>
    (\<forall>ipStr. CheckIPAllowed (snd (LoadFromFile d s (Decoded cfg) order now)) ipStr) \<and>
    us_credCache (snd (LoadFromFile d s (Decoded cfg) order now)) = us_credCache s \<and>
    us_users (snd (LoadFromFile d s (Decoded cfg) order now))
      = fst (load_users d (Users cfg) Map.empty (us_rateLimiter s) now)"
  using assms by (simp add: LoadFromFile_def CheckIPAllowed_def case_prod_beta Let_def)

theorem failed_reload_opens_whitelist_witness:
  "CheckIPAllowed (snd (LoadFromFile demo_deps demo_store
     (Decoded (demo_cfg\<lparr>IPWhitelist := [''banana'']\<rparr>)) [''bob''] 0)) ''203.0.113.9:1234''"
proof -
  have "IPWhitelist (demo_cfg\<lparr>IPWhitelist := [''banana'']\<rparr>) = ''banana'' # []" by simp
  moreover have "parseCIDR ''banana'' = None"
    by (simp add: parseCIDR_def ParseCIDR_def parse_addr_def has_prefix_def)
  ultimately show ?thesis using failed_reload_opens_whitelist by blast
qed

end
