(* ===== verification/Go_Text.thy ===== *)
theory Go_Text
  imports Go_Prelude
begin

text \<open>
  The functions of \<^verbatim>\<open>strings\<close>, \<^verbatim>\<open>encoding/base64\<close> and \<^verbatim>\<open>net/url\<close> that the proxy uses on header values,
  queries and configuration: \<^verbatim>\<open>Split\<close> at one byte, \<^verbatim>\<open>TrimSpace\<close>, \<^verbatim>\<open>Join\<close>, the standard base64
  alphabet with padding, and query strings.
\<close>

section \<open>Splitting, joining and trimming\<close>

fun split_on :: "char \<Rightarrow> string \<Rightarrow> string list" where
  "split_on c [] = [[]]"
| "split_on c (x # s) =
     (if x = c then [] # split_on c s
      else case split_on c s of [] \<Rightarrow> [[x]] | p # ps \<Rightarrow> (x # p) # ps)"

fun join :: "string \<Rightarrow> string list \<Rightarrow> string" where
  "join sep [] = []"
| "join sep [s] = s"
| "join sep (s # ss) = s @ sep @ join sep ss"

text \<open>A string literal given by the bytes of its UTF-8 encoding.\<close>

definition utf8 :: "nat list \<Rightarrow> string" where
  "utf8 bs = map char_of bs"

text \<open>The UTF-8 encodings of the code points \<^verbatim>\<open>unicode.IsSpace\<close> accepts.\<close>

definition space_seqs :: "string list" where
  "space_seqs = map (map char_of)
     ([[9], [10], [11], [12], [13], [32 :: nat], [194, 133], [194, 160], [225, 154, 128]] @
      map (\<lambda>i. [226, 128, 128 + i]) [0..<11] @
      [[226, 128, 168], [226, 128, 169], [226, 128, 175], [226, 129, 159], [227, 128, 128]])"

text \<open>Drop leading occurrences of the given non-empty sequences.\<close>

function drop_seqs :: "string list \<Rightarrow> string \<Rightarrow> string" where
  "drop_seqs ps s =
     (case List.find (\<lambda>p. p \<noteq> [] \<and> has_prefix s p) ps of
        None \<Rightarrow> s
      | Some p \<Rightarrow> drop_seqs ps (drop (length p) s))"
  by pat_completeness auto
termination
proof (relation "measure (\<lambda>(ps, s). length s)")
  fix ps and s p :: string
  assume "List.find (\<lambda>p. p \<noteq> [] \<and> has_prefix s p) ps = Some p"
  then have "p \<noteq> []" "has_prefix s p" by (auto simp: find_Some_iff)
  then have "length p \<le> length s" "0 < length p" by (auto simp: has_prefix_iff)
  then have "length s - length p < length s" by linarith
  then show "((ps, drop (length p) s), ps, s) \<in> measure (\<lambda>(ps, s). length s)" by simp
qed simp

declare drop_seqs.simps [simp del]

definition trim_space :: "string \<Rightarrow> string" where
  "trim_space s = rev (drop_seqs (map rev space_seqs) (rev (drop_seqs space_seqs s)))"

lemma split_on_nonempty [simp]: "split_on c s \<noteq> []"
  by (induction s) (auto split: list.splits)

lemma split_on_no_sep: "c \<notin> set s \<Longrightarrow> split_on c s = [s]"
  by (induction s) auto

lemma split_on_append: "c \<notin> set u \<Longrightarrow> split_on c (u @ c # v) = u # split_on c v"
  by (induction u) (auto split: list.splits)

lemma join_split_on: "join [c] (split_on c s) = s"
proof (induction s)
  case (Cons x s)
  obtain p ps where sp: "split_on c s = p # ps" by (meson neq_Nil_conv split_on_nonempty)
  then show ?case using Cons by (cases ps) auto
qed simp

lemma drop_seqs_none: "(\<And>p. p \<in> set ps \<Longrightarrow> p \<noteq> [] \<Longrightarrow> \<not> has_prefix s p) \<Longrightarrow> drop_seqs ps s = s"
  by (subst drop_seqs.simps) (auto split: option.splits simp: find_Some_iff) 

lemma drop_seqs_suffix: "\<exists>u. s = u @ drop_seqs ps s"
proof (induction ps s rule: drop_seqs.induct)
  case (1 ps s)
  show ?case
  proof (cases "List.find (\<lambda>p. p \<noteq> [] \<and> has_prefix s p) ps")
    case None
    then show ?thesis by (subst drop_seqs.simps) simp
  next
    case (Some p)
    then have "has_prefix s p" by (auto simp: find_Some_iff)
    then obtain t where t: "s = p @ t" by (auto simp: has_prefix_iff)
    then obtain u where "t = u @ drop_seqs ps t" using "1.IH" [OF Some] by auto
    then have "s = (p @ u) @ drop_seqs ps t" using t by (metis append.assoc)
    moreover have "drop_seqs ps s = drop_seqs ps t" using Some t by (subst drop_seqs.simps) simp
    ultimately show ?thesis by metis
  qed
qed

text \<open>Printable ASCII text is trimmed to itself.\<close>

definition is_graph :: "char \<Rightarrow> bool" where
  "is_graph c \<longleftrightarrow> 32 < (of_char c :: nat) \<and> (of_char c :: nat) < 128"

lemma space_seqs_ends:
  assumes "p \<in> set space_seqs"
  shows "p \<noteq> [] \<and> \<not> is_graph (hd p) \<and> \<not> is_graph (last p)"
proof -
  have "list_all (\<lambda>p. p \<noteq> [] \<and> \<not> is_graph (hd p) \<and> \<not> is_graph (last p)) space_seqs" by code_simp
  then show ?thesis using assms by (simp add: list_all_iff)
qed

lemma trim_space_graph:
  assumes "s = [] \<or> is_graph (hd s) \<and> is_graph (last s)"
  shows "trim_space s = s"
proof -
  have 1: "drop_seqs space_seqs s = s"
  proof (rule drop_seqs_none)
    fix p assume "p \<in> set space_seqs" "p \<noteq> []"
    then have "\<not> is_graph (hd p)" using space_seqs_ends by blast
    then show "\<not> has_prefix s p" using assms \<open>p \<noteq> []\<close> by (cases p) (auto simp: has_prefix_iff)
  qed
  have 2: "drop_seqs (map rev space_seqs) (rev s) = rev s"
  proof (rule drop_seqs_none)
    fix q assume "q \<in> set (map rev space_seqs)" "q \<noteq> []"
    then obtain p where p: "p \<in> set space_seqs" "q = rev p" by auto
    then have "\<not> is_graph (hd q)" using space_seqs_ends \<open>q \<noteq> []\<close> by (metis hd_rev)
    moreover have "s \<noteq> [] \<Longrightarrow> is_graph (hd (rev s))" using assms by (simp add: hd_rev)
    ultimately show "\<not> has_prefix (rev s) q" using \<open>q \<noteq> []\<close> by (cases q) (auto simp: has_prefix_iff)
  qed
  show ?thesis by (simp add: trim_space_def 1 2)
qed

section \<open>Base64\<close>

text \<open>The standard alphabet; \<open>None\<close> for a byte outside it.\<close>

definition b64_char :: "nat \<Rightarrow> char" where
  "b64_char n = (if n < 26 then char_of (65 + n) else if n < 52 then char_of (71 + n)
     else if n < 62 then char_of (n - 4) else if n = 62 then CHR ''+'' else CHR ''/'')"

definition b64_val :: "char \<Rightarrow> nat option" where
  "b64_val c = (let n = of_char c in
     if 65 \<le> n \<and> n \<le> 90 then Some (n - 65) else if 97 \<le> n \<and> n \<le> 122 then Some (n - 71)
     else if 48 \<le> n \<and> n \<le> 57 then Some (n + 4) else if n = 43 then Some 62
     else if n = 47 then Some 63 else None)"

fun b64_encode :: "nat list \<Rightarrow> string" where
  "b64_encode [] = []"
| "b64_encode [a] = [b64_char (a div 4), b64_char (a mod 4 * 16), CHR ''='', CHR ''='']"
| "b64_encode [a, b] =
     [b64_char (a div 4), b64_char (a mod 4 * 16 + b div 16), b64_char (b mod 16 * 4), CHR ''='']"
| "b64_encode (a # b # c # r) =
     b64_char (a div 4) # b64_char (a mod 4 * 16 + b div 16) #
     b64_char (b mod 16 * 4 + c div 64) # b64_char (c mod 64) # b64_encode r"

text \<open>
  Quanta of four characters. Padding may only end the input; the bits a shorter last quantum
  leaves over are ignored, as the non-strict decoder does.
\<close>

fun b64_quanta :: "string \<Rightarrow> nat list option" where
  "b64_quanta [] = Some []"
| "b64_quanta (a # b # c # d # r) =
     (case (b64_val a, b64_val b) of
        (Some x, Some y) \<Rightarrow>
          if c = CHR ''='' then
            if d = CHR ''='' \<and> r = [] then Some [x * 4 + y div 16] else None
          else (case b64_val c of
                  None \<Rightarrow> None
                | Some z \<Rightarrow>
                    if d = CHR ''='' then
                      if r = [] then Some [x * 4 + y div 16, y mod 16 * 16 + z div 4] else None
                    else (case (b64_val d, b64_quanta r) of
                            (Some w, Some bs) \<Rightarrow>
                              Some ((x * 4 + y div 16) # (y mod 16 * 16 + z div 4) # (z mod 4 * 64 + w) # bs)
                          | _ \<Rightarrow> None))
      | _ \<Rightarrow> None)"
| "b64_quanta _ = None"

text \<open>\<^verbatim>\<open>base64.StdEncoding.DecodeString\<close>: carriage returns and line feeds are skipped.\<close>

definition b64_decode :: "string \<Rightarrow> string option" where
  "b64_decode s =
     map_option (map char_of) (b64_quanta (filter (\<lambda>c. c \<noteq> char_of (13 :: nat) \<and> c \<noteq> char_of (10 :: nat)) s))"

lemma of_char_b64_char: "n < 64 \<Longrightarrow> of_char (b64_char n) =
    (if n < 26 then 65 + n else if n < 52 then 71 + n else if n < 62 then n - 4
     else if n = 62 then 43 else 47)"
  by (auto simp: b64_char_def)

lemma b64_char_neq: "n < 64 \<Longrightarrow> k \<in> {61, 13, 10} \<Longrightarrow> b64_char n \<noteq> char_of (k :: nat)"
proof
  assume "n < 64" "k \<in> {61, 13, 10}" "b64_char n = char_of k"
  then have "of_char (b64_char n) = k" by auto
  then show False using \<open>n < 64\<close> \<open>k \<in> {61, 13, 10}\<close>
    by (auto simp: of_char_b64_char split: if_splits)
qed

lemma b64_char_props:
  assumes "n < 64"
  shows "b64_val (b64_char n) = Some n" "b64_char n \<noteq> CHR ''=''"
    "b64_char n \<noteq> char_of (13 :: nat)" "b64_char n \<noteq> char_of (10 :: nat)"
proof -
  show "b64_val (b64_char n) = Some n" using assms
    by (simp add: b64_val_def of_char_b64_char Let_def) arith
  have "CHR ''='' = char_of (61 :: nat)" by (simp add: char_of_def bit_Suc_0_iff)
  then show "b64_char n \<noteq> CHR ''=''" using b64_char_neq [OF assms, of 61] by simp
qed (use b64_char_neq [OF assms] in auto)

lemma b64_quanta_encode:
  "(\<forall>b \<in> set bs. b < 256) \<Longrightarrow> b64_quanta (b64_encode bs) = Some bs"
proof (induction bs rule: b64_encode.induct)
  case (4 a b c r)
  have lt: "a div 4 < 64" "a mod 4 * 16 + b div 16 < 64" "b mod 16 * 4 + c div 64 < 64" "c mod 64 < 64"
    using 4(2) by auto
  have "(a div 4) * 4 + (a mod 4 * 16 + b div 16) div 16 = a"
    "(a mod 4 * 16 + b div 16) mod 16 * 16 + (b mod 16 * 4 + c div 64) div 4 = b"
    "(b mod 16 * 4 + c div 64) mod 4 * 64 + c mod 64 = c"
    using 4(2) by auto
  then show ?case using 4 by (simp add: b64_char_props lt)
next
  case (2 a)
  then have lt: "a div 4 < 64" "a mod 4 * 16 < 64" by auto
  have "(a div 4) * 4 + (a mod 4 * 16) div 16 = a" by simp
  then show ?case by (simp add: b64_char_props lt)
next
  case (3 a b)
  then have lt: "a div 4 < 64" "a mod 4 * 16 + b div 16 < 64" "b mod 16 * 4 < 64" by auto
  have "(a div 4) * 4 + (a mod 4 * 16 + b div 16) div 16 = a"
    "(a mod 4 * 16 + b div 16) mod 16 * 16 + (b mod 16 * 4) div 4 = b" using 3 by auto
  then show ?case by (simp add: b64_char_props lt)
qed simp

lemma b64_encode_no_newline:
  "(\<forall>b \<in> set bs. b < 256) \<Longrightarrow>
     \<forall>c \<in> set (b64_encode bs). c \<noteq> char_of (13 :: nat) \<and> c \<noteq> char_of (10 :: nat)"
proof (induction bs rule: b64_encode.induct)
  case (4 a b c r)
  have lt: "a div 4 < 64" "a mod 4 * 16 + b div 16 < 64" "b mod 16 * 4 + c div 64 < 64" "c mod 64 < 64"
    using 4(2) by auto
  show ?case using 4 b64_char_props(3,4) lt by auto
next
  case (2 a)
  then have lt: "a div 4 < 64" "a mod 4 * 16 < 64" by auto
  then show ?case using b64_char_props(3,4) by (auto simp: char_of_def bit_Suc_0_iff)
next
  case (3 a b)
  then have lt: "a div 4 < 64" "a mod 4 * 16 + b div 16 < 64" "b mod 16 * 4 < 64" by auto
  then show ?case using b64_char_props(3,4) by (auto simp: char_of_def bit_Suc_0_iff)
qed simp

definition b64_encode_string :: "string \<Rightarrow> string" where
  "b64_encode_string s = b64_encode (map of_char s)"

lemma b64_roundtrip: "b64_decode (b64_encode_string s) = Some s"
proof -
  have lt: "\<forall>b \<in> set (map of_char s). b < (256 :: nat)" by auto
  have "filter (\<lambda>c. c \<noteq> char_of (13 :: nat) \<and> c \<noteq> char_of (10 :: nat)) (b64_encode (map of_char s))
      = b64_encode (map of_char s)"
    using b64_encode_no_newline [OF lt] by (simp add: filter_id_conv)
  then show ?thesis
    using b64_quanta_encode [OF lt] by (simp add: b64_decode_def b64_encode_string_def comp_def)
qed

section \<open>Query strings\<close>

text \<open>\<^verbatim>\<open>url.QueryUnescape\<close>.\<close>

fun query_unescape :: "string \<Rightarrow> string option" where
  "query_unescape [] = Some []"
| "query_unescape (c # s) =
     (if c = CHR ''%'' then
        (case s of
           a # b # r \<Rightarrow>
             (case (hex_val a, hex_val b, query_unescape r) of
                (Some x, Some y, Some t) \<Rightarrow> Some (char_of (x * 16 + y) # t)
              | _ \<Rightarrow> None)
         | _ \<Rightarrow> None)
      else map_option (\<lambda>t. (if c = CHR ''+'' then CHR '' '' else c) # t) (query_unescape s))"

text \<open>
  \<^verbatim>\<open>URL.Query\<close>: the pairs in order; pieces that are empty, have a semicolon or do not unescape
  are skipped.
\<close>

definition query_pair :: "string \<Rightarrow> (string \<times> string) option" where
  "query_pair p =
     (if p = [] \<or> CHR '';'' \<in> set p then None
      else let (k, v) = (case index_byte p (CHR ''='') of
                           None \<Rightarrow> (p, [])
                         | Some i \<Rightarrow> (take i p, drop (Suc i) p))
           in case (query_unescape k, query_unescape v) of
                (Some k', Some v') \<Rightarrow> Some (k', v')
              | _ \<Rightarrow> None)"

definition parse_query :: "string \<Rightarrow> (string \<times> string) list" where
  "parse_query q = List.map_filter query_pair (split_on (CHR ''&'') q)"

text \<open>\<^verbatim>\<open>Values.Get\<close>: the first value, or the empty string.\<close>

definition query_get :: "string \<Rightarrow> string \<Rightarrow> string" where
  "query_get q key = (case List.find (\<lambda>kv. fst kv = key) (parse_query q) of
     None \<Rightarrow> [] | Some kv \<Rightarrow> snd kv)"

end
