(* ===== verification/Go_Http.thy ===== *)
theory Go_Http
  imports Go_Text
begin

text \<open>
  The parts of \<^verbatim>\<open>net/http\<close> the handlers use: header maps with canonical keys, the fields of a
  request they read, and a response writer as the record of what was set and written.
\<close>

section \<open>Headers\<close>

type_synonym header = "string \<rightharpoonup> string list"

definition is_token_char :: "char \<Rightarrow> bool" where
  "is_token_char c \<longleftrightarrow> (let n = (of_char c :: nat) in
     48 \<le> n \<and> n \<le> 57 \<or> 65 \<le> n \<and> n \<le> 90 \<or> 97 \<le> n \<and> n \<le> 122 \<or> c \<in> set ''!#$%&*+-.^_`|~'' \<or> n = 39)"

definition ascii_upper :: "char \<Rightarrow> char" where
  "ascii_upper c =
     (if 97 \<le> (of_char c :: nat) \<and> (of_char c :: nat) \<le> 122 then char_of (of_char c - 32 :: nat) else c)"

fun canonical_from :: "bool \<Rightarrow> string \<Rightarrow> string" where
  "canonical_from up [] = []"
| "canonical_from up (c # s) =
     (if up then ascii_upper c else ascii_lower c) # canonical_from (c = CHR ''-'') s"

text \<open>\<^verbatim>\<open>CanonicalMIMEHeaderKey\<close>: a key with a byte that no header name may have stays as it is.\<close>

definition canonical_key :: "string \<Rightarrow> string" where
  "canonical_key k = (if list_all is_token_char k then canonical_from True k else k)"

definition header_get :: "header \<Rightarrow> string \<Rightarrow> string" where
  "header_get h k = (case h (canonical_key k) of Some (v # _) \<Rightarrow> v | _ \<Rightarrow> [])"

definition header_set :: "header \<Rightarrow> string \<Rightarrow> string \<Rightarrow> header" where
  "header_set h k v = h(canonical_key k \<mapsto> [v])"

definition header_add :: "header \<Rightarrow> string \<Rightarrow> string \<Rightarrow> header" where
  "header_add h k v =
     h(canonical_key k \<mapsto> (case h (canonical_key k) of None \<Rightarrow> [v] | Some vs \<Rightarrow> vs @ [v]))"

definition header_del :: "header \<Rightarrow> string \<Rightarrow> header" where
  "header_del h k = h(canonical_key k := None)"

lemma header_get_set: "header_get (header_set h k v) k = v"
  by (simp add: header_get_def header_set_def)

section \<open>Requests and responses\<close>

record http_request =
  rq_Method :: string
  rq_Host :: string
  rq_RequestURI :: string
  rq_Scheme :: string
  rq_Path :: string
  rq_RawQuery :: string
  rq_RemoteAddr :: string
  rq_Header :: header

text \<open>\<open>rs_status\<close> is empty until a status line is written.\<close>

record response =
  rs_status :: "int option"
  rs_header :: header
  rs_body :: string

definition new_response :: response where
  "new_response = \<lparr>rs_status = None, rs_header = Map.empty, rs_body = []\<rparr>"

definition set_header :: "string \<Rightarrow> string \<Rightarrow> response \<Rightarrow> response" where
  "set_header k v w = w\<lparr>rs_header := header_set (rs_header w) k v\<rparr>"

definition write_header :: "int \<Rightarrow> response \<Rightarrow> response" where
  "write_header code w = (if rs_status w = None then w\<lparr>rs_status := Some code\<rparr> else w)"

definition write_body :: "string \<Rightarrow> response \<Rightarrow> response" where
  "write_body s w = (let w = write_header 200 w in w\<lparr>rs_body := rs_body w @ s\<rparr>)"

definition http_error :: "string \<Rightarrow> int \<Rightarrow> response \<Rightarrow> response" where
  "http_error msg code w =
     write_body (msg @ [char_of (10 :: nat)])
       (write_header code
         (set_header ''X-Content-Type-Options'' ''nosniff''
           (set_header ''Content-Type'' ''text/plain; charset=utf-8''
             (w\<lparr>rs_header := header_del (rs_header w) ''Content-Length''\<rparr>))))"

lemma write_header_status [simp]:
  "rs_status (write_header code w) = Some (case rs_status w of None \<Rightarrow> code | Some c \<Rightarrow> c)"
  by (simp add: write_header_def split: option.splits)

lemma write_body_status [simp]:
  "rs_status (write_body s w) = Some (case rs_status w of None \<Rightarrow> 200 | Some c \<Rightarrow> c)"
  by (simp add: write_body_def Let_def)

lemma write_header_body [simp]: "rs_body (write_header code w) = rs_body w"
  by (simp add: write_header_def)

lemma write_body_body [simp]: "rs_body (write_body s w) = rs_body w @ s"
  by (simp add: write_body_def Let_def)

lemma set_header_fields [simp]:
  "rs_status (set_header k v w) = rs_status w" "rs_body (set_header k v w) = rs_body w"
  by (simp_all add: set_header_def)

lemma new_response_fields [simp]:
  "rs_status new_response = None" "rs_body new_response = []" "rs_header new_response = Map.empty"
  by (simp_all add: new_response_def)

lemma http_error_status [simp]: "rs_status w = None \<Longrightarrow> rs_status (http_error msg code w) = Some code"
  by (simp add: http_error_def)

end
