(* ===== verification/Pac.thy ===== *)
theory Pac
  imports User_Store Go_Http
begin

text \<open>
  \<^verbatim>\<open>internal/pac/pac.go\<close>: the handler that serves proxy auto-configuration files, with its
  fixed-window rate limit per client, its token check and its own use of the user store. The
  handler and the store are passed explicitly; times and random bytes are arguments.
\<close>

section \<open>Data\<close>

record PacConfig =
  pc_Enabled :: bool
  pc_ProxyHost :: string
  pc_HTTPPort :: string
  pc_SOCKS5Port :: string
  pc_Token :: string
  pc_DefaultUser :: string
  pc_RateLimitRPM :: int

record PacHandler =
  ph_config :: PacConfig
  ph_rateTokens :: "string \<rightharpoonup> int"
  ph_rateWindow :: "string \<rightharpoonup> time"

section \<open>Operations\<close>

definition NewHandler :: "PacConfig \<Rightarrow> PacHandler" where
  "NewHandler cfg = \<lparr>ph_config = cfg, ph_rateTokens = Map.empty, ph_rateWindow = Map.empty\<rparr>"

definition checkRateLimit :: "PacHandler \<Rightarrow> string \<Rightarrow> time \<Rightarrow> bool \<times> PacHandler" where
  "checkRateLimit h clientIP now =
     (let fresh = (True, h\<lparr>ph_rateWindow := (ph_rateWindow h)(clientIP \<mapsto> now),
                           ph_rateTokens := (ph_rateTokens h)(clientIP \<mapsto> 1)\<rparr>);
          tokens = (case ph_rateTokens h clientIP of None \<Rightarrow> 0 | Some n \<Rightarrow> n);
          counted = (if tokens < pc_RateLimitRPM (ph_config h)
                     then (True, h\<lparr>ph_rateTokens := (ph_rateTokens h)(clientIP \<mapsto> i64 (tokens + 1))\<rparr>)
                     else (False, h))
      in case ph_rateWindow h clientIP of
           None \<Rightarrow> fresh
         | Some windowStart \<Rightarrow> if time_sub now windowStart > minute then fresh else counted)"

definition getClientIP :: "http_request \<Rightarrow> string" where
  "getClientIP r =
     (let forwarded = header_get (rq_Header r) ''X-Forwarded-For''
      in if forwarded \<noteq> [] then trim_space (hd (split_on (CHR '','') forwarded))
         else let realIP = header_get (rq_Header r) ''X-Real-IP''
              in if realIP \<noteq> [] then realIP
                 else let host = rq_RemoteAddr r
                      in case last_index_byte host (CHR '':'') of
                           Some idx \<Rightarrow> take idx host
                         | None \<Rightarrow> host)"

definition text_lines :: "string list \<Rightarrow> string" where
  "text_lines ls = concat (map (\<lambda>l. l @ [char_of (10 :: nat)]) ls)"

definition local_rules :: "string list" where
  "local_rules =
    [''    if (isPlainHostName(host) ||'',
     ''        shExpMatch(host, \"*.local\") ||'',
     ''        isInNet(host, \"192.168.0.0\", \"255.255.0.0\") ||'',
     ''        isInNet(host, \"10.0.0.0\", \"255.0.0.0\") ||'',
     ''        isInNet(host, \"172.16.0.0\", \"255.240.0.0\") ||'',
     ''        host == \"localhost\" ||'',
     ''        host == \"127.0.0.1\") {'',
     ''        return \"DIRECT\";'',
     ''    }'',
     ''    '']"

definition generatePAC :: "PacHandler \<Rightarrow> string \<Rightarrow> string \<Rightarrow> string" where
  "generatePAC h username password =
     (let c = ph_config h;
          proxyURL = username @ '':'' @ password @ ''@'' @ pc_ProxyHost c @ '':'' @ pc_HTTPPort c;
          socks5URL = username @ '':'' @ password @ ''@'' @ pc_ProxyHost c @ '':'' @ pc_SOCKS5Port c
      in text_lines
           ([''function FindProxyForURL(url, host) {'',
             ''    // Don'' @ [char_of (39 :: nat)] @ ''t proxy local addresses''] @
            local_rules @
            [''    // Route everything else through proxy'',
             ''    // Primary: HTTP/HTTPS proxy, Fallback: SOCKS5'',
             ''    return \"PROXY '' @ proxyURL @ ''; SOCKS5 '' @ socks5URL @ ''; DIRECT\";'',
             ''}'']))"

definition sendPAC :: "string \<Rightarrow> response \<Rightarrow> response" where
  "sendPAC content w =
     write_body content (write_header 200
       (set_header ''Access-Control-Allow-Headers'' ''Content-Type''
         (set_header ''Access-Control-Allow-Methods'' ''GET, OPTIONS''
           (set_header ''Access-Control-Allow-Origin'' ''*''
             (set_header ''Cache-Control'' ''public, max-age=300''
               (set_header ''Content-Type'' ''application/x-ns-proxy-autoconfig'' w))))))"

definition sendPACWithPlaceholder :: "PacHandler \<Rightarrow> string \<Rightarrow> response \<Rightarrow> response" where
  "sendPACWithPlaceholder h username w =
     (let c = ph_config h
      in sendPAC (text_lines
           ([''function FindProxyForURL(url, host) {'',
             ''    // PAC file for user: '' @ username,
             ''    // Note: This PAC requires authentication. Your browser/system will prompt for password.'',
             ''    '',
             ''    // Don'' @ [char_of (39 :: nat)] @ ''t proxy local addresses''] @
            local_rules @
            [''    // Route everything else through proxy (credentials required separately)'',
             ''    return \"PROXY '' @ pc_ProxyHost c @ '':'' @ pc_HTTPPort c @ ''; SOCKS5 '' @
               pc_ProxyHost c @ '':'' @ pc_SOCKS5Port c @ ''; DIRECT\";'',
             ''}''])) w)"

definition sendErrorPAC :: "string \<Rightarrow> response \<Rightarrow> response" where
  "sendErrorPAC message w =
     sendPAC (text_lines
       [''// Error: '' @ message,
        ''function FindProxyForURL(url, host) {'',
        ''    return \"DIRECT\";'',
        ''}'']) w"

text \<open>The part of \<^verbatim>\<open>ServeHTTP\<close> behind the rate limit and the token.\<close>

definition serve_user ::
  "deps \<Rightarrow> PacHandler \<Rightarrow> UserStore \<Rightarrow> http_request \<Rightarrow> response \<Rightarrow> time \<Rightarrow> time \<Rightarrow> response \<times> UserStore" where
  "serve_user d h s r w t1 t2 =
     (let username = query_get (rq_RawQuery r) ''user'';
          username = (if username = [] then pc_DefaultUser (ph_config h) else username)
      in if username = [] then (sendErrorPAC ''No user specified. Use ?user=USERNAME'' w, s)
         else let password = query_get (rq_RawQuery r) ''pass''
              in if password = [] then (sendPACWithPlaceholder h username w, s)
                 else let (user, s) = ValidateCredentials d s username password t1 t2
                      in if user = None then (http_error ''Invalid credentials'' 401 w, s)
                         else (sendPAC (generatePAC h username password) w, s))"

definition pac_ServeHTTP ::
  "deps \<Rightarrow> PacHandler \<Rightarrow> UserStore \<Rightarrow> response \<Rightarrow> http_request \<Rightarrow> (nat \<Rightarrow> time)
     \<Rightarrow> response \<times> PacHandler \<times> UserStore" where
  "pac_ServeHTTP d h s w r clk =
     (let clientIP = getClientIP r;
          (ok, h) = (if pc_RateLimitRPM (ph_config h) > 0 then checkRateLimit h clientIP (clk 0) else (True, h))
      in if \<not> ok then (http_error ''Too Many Requests'' 429 w, h, s)
         else if pc_Token (ph_config h) \<noteq> [] \<and> query_get (rq_RawQuery r) ''token'' \<noteq> pc_Token (ph_config h)
         then (http_error ''Unauthorized'' 401 w, h, s)
         else let (w, s) = serve_user d h s r w (clk 1) (clk 2) in (w, h, s))"

text \<open>\<open>rnd\<close> is what \<^verbatim>\<open>rand.Read\<close> stores in the sixteen bytes, or nothing when it fails.\<close>

definition GenerateToken :: "byte list option \<Rightarrow> string option" where
  "GenerateToken rnd = (case rnd of None \<Rightarrow> None | Some bytes \<Rightarrow> Some (take 7 (hex_encode bytes)))"

section \<open>The window limiter\<close>

text \<open>The record of one client: the limit, its window start and its count.\<close>

type_synonym window = "int \<times> time option \<times> int option"

definition window_view :: "PacHandler \<Rightarrow> string \<Rightarrow> window" where
  "window_view h ip = (pc_RateLimitRPM (ph_config h), ph_rateWindow h ip, ph_rateTokens h ip)"

fun window_decide :: "window \<Rightarrow> time \<Rightarrow> bool \<times> window" where
  "window_decide (rpm, None, c) now = (True, rpm, Some now, Some 1)"
| "window_decide (rpm, Some s, c) now =
     (if now - s > minute then (True, rpm, Some now, Some 1)
      else let n = (case c of None \<Rightarrow> 0 | Some n \<Rightarrow> n)
           in if n < rpm then (True, rpm, Some s, Some (i64 (n + 1))) else (False, rpm, Some s, c))"

lemma window_elapsed: "time_sub now s > minute \<longleftrightarrow> now - s > minute"
  by (auto simp: time_sub_def minute_def second_def)

interpretation pac_rl: keyed_limiter checkRateLimit window_view window_decide
  by unfold_locales
    (auto simp: checkRateLimit_def window_view_def window_elapsed Let_def split: option.splits)

lemma window_no_reset:
  assumes "0 \<le> n" "rpm < 2 ^ 63" "\<forall>t \<in> set ts. t \<le> s + minute"
  shows "granted (fst (run_one window_decide (rpm, Some s, Some n) ts)) \<le> nat (rpm - n)"
  using assms
proof (induction ts arbitrary: n)
  case (Cons t ts)
  show ?case
  proof (cases "n < rpm")
    case True
    then have "granted (fst (run_one window_decide (rpm, Some s, Some (n + 1)) ts)) \<le> nat (rpm - (n + 1))"
      using Cons by simp
    then show ?thesis using True Cons.prems by (simp add: case_prod_beta Let_def)
  next
    case False
    then show ?thesis using Cons.IH [of n] Cons.prems by (simp add: case_prod_beta Let_def)
  qed
qed simp

lemma window_fresh:
  assumes "0 < rpm" "rpm < 2 ^ 63" "\<forall>t \<in> set ts. t \<le> s + minute"
  shows "Suc (granted (fst (run_one window_decide (rpm, Some s, Some 1) ts))) \<le> nat rpm"
  using window_no_reset [of 1 rpm ts s] assms by simp

lemma window_minute:
  assumes "0 \<le> n" "0 < rpm" "rpm < 2 ^ 63" "\<forall>t \<in> set ts. a \<le> t \<and> t \<le> a + minute"
  shows "granted (fst (run_one window_decide (rpm, Some s, Some n) ts)) \<le> nat (rpm - n) + nat rpm"
  using assms
proof (induction ts arbitrary: n)
  case (Cons t ts)
  have late: "\<forall>t' \<in> set ts. t' \<le> t + minute" using Cons.prems(4) by fastforce
  consider "t - s > minute" | "t - s \<le> minute" "n < rpm" | "t - s \<le> minute" "rpm \<le> n" by linarith
  then show ?case
  proof cases
    case 1
    then show ?thesis using window_fresh [OF Cons.prems(2,3) late] by (simp add: case_prod_beta Let_def)
  next
    case 2
    then have "granted (fst (run_one window_decide (rpm, Some s, Some (n + 1)) ts))
        \<le> nat (rpm - (n + 1)) + nat rpm" using Cons by simp
    then show ?thesis using 2 Cons.prems(1,3) by (simp add: case_prod_beta Let_def)
  next
    case 3
    then show ?thesis using Cons.IH [of n] Cons.prems by (simp add: case_prod_beta Let_def)
  qed
qed simp

text \<open>Every client with a window has a non-negative count.\<close>

definition handler_ok :: "PacHandler \<Rightarrow> bool" where
  "handler_ok h \<longleftrightarrow> pc_RateLimitRPM (ph_config h) < 2 ^ 63 \<and>
     (\<forall>ip. ph_rateWindow h ip \<noteq> None \<longrightarrow> (\<exists>n. ph_rateTokens h ip = Some n \<and> 0 \<le> n))"

lemma checkRateLimit_config [simp]: "ph_config (snd (checkRateLimit h ip now)) = ph_config h"
  by (simp add: checkRateLimit_def Let_def split: option.splits)

lemma checkRateLimit_ok: "handler_ok h \<Longrightarrow> handler_ok (snd (checkRateLimit h ip now))"
  unfolding handler_ok_def
  by (auto simp: checkRateLimit_def Let_def split: option.splits)

lemma run_checkRateLimit_ok:
  "handler_ok h \<Longrightarrow> handler_ok (snd (run_keyed checkRateLimit h rs)) \<and>
     ph_config (snd (run_keyed checkRateLimit h rs)) = ph_config h"
proof (induction rs arbitrary: h)
  case (Cons r rs)
  then show ?case
    using Cons.IH [of "snd (checkRateLimit h (fst r) (snd r))"]
    by (cases r) (simp add: case_prod_beta Let_def checkRateLimit_ok)
qed simp

lemma handler_ok_minute:
  assumes "handler_ok h" "pc_RateLimitRPM (ph_config h) = rpm" "0 < rpm"
    "\<forall>t \<in> set ts. a \<le> t \<and> t \<le> a + minute"
  shows "granted (fst (run_one window_decide (window_view h ip) ts)) \<le> 2 * nat rpm"
proof (cases "ph_rateWindow h ip")
  case (Some s)
  then obtain n where n: "ph_rateTokens h ip = Some n" "0 \<le> n"
    using assms(1) by (auto simp: handler_ok_def)
  then have "granted (fst (run_one window_decide (rpm, Some s, Some n) ts)) \<le> nat (rpm - n) + nat rpm"
    using assms by (intro window_minute) (auto simp: handler_ok_def)
  then show ?thesis using Some n assms(2) by (simp add: window_view_def)
next
  case None
  then have v: "window_view h ip = (rpm, None, ph_rateTokens h ip)"
    using assms(2) by (simp add: window_view_def)
  show ?thesis
  proof (cases ts)
    case (Cons t ts')
    then have "\<forall>t' \<in> set ts'. t' \<le> t + minute" using assms(4) by fastforce
    then show ?thesis
      using window_fresh [OF assms(3)] assms(1,2) Cons
      by (fastforce simp: v case_prod_beta Let_def handler_ok_def)
  qed simp
qed

section \<open>Fresh clients\<close>

lemma getClientIP_forwarded:
  assumes "x \<noteq> []" "list_all (\<lambda>c. is_graph c \<and> c \<noteq> CHR '','') x"
  shows "getClientIP (r\<lparr>rq_Header := header_set hs ''X-Forwarded-For'' x\<rparr>) = x"
proof -
  have "split_on (CHR '','') x = [x]" using assms(2) by (intro split_on_no_sep) (auto simp: list_all_iff)
  moreover have "trim_space x = x" using assms by (intro trim_space_graph) (simp add: list_all_iff)
  ultimately show ?thesis using assms(1) by (simp add: getClientIP_def header_get_set)
qed

lemma fresh_clients_granted:
  assumes "distinct (map fst rs)" "\<forall>r \<in> set rs. ph_rateWindow h (fst r) = None"
  shows "\<forall>d \<in> set (fst (run_keyed checkRateLimit h rs)). snd d"
  using assms
proof (induction rs arbitrary: h)
  case (Cons r rs)
  obtain ip now where r: "r = (ip, now)" by fastforce
  define h' where "h' = h\<lparr>ph_rateWindow := (ph_rateWindow h)(ip \<mapsto> now),
    ph_rateTokens := (ph_rateTokens h)(ip \<mapsto> 1)\<rparr>"
  have "checkRateLimit h ip now = (True, h')"
    using Cons.prems(2) by (simp add: r checkRateLimit_def h'_def Let_def)
  moreover have "\<forall>r \<in> set rs. ph_rateWindow h' (fst r) = None"
    using Cons.prems by (force simp: r h'_def)
  ultimately show ?case using Cons.IH [of h'] Cons.prems(1) by (simp add: r case_prod_beta Let_def)
qed simp

section \<open>Properties\<close>

text \<open>C19: the PAC limiter admits a client, in any interleaving with other clients and after any
  history, at most twice \<open>rpm\<close> times within any minute (the fixed window may turn over once).\<close>

theorem pac_window_limit:
  fixes before :: "(string \<times> time) list"
  assumes "pc_RateLimitRPM cfg = rpm" and "0 < rpm" and "rpm < 2 ^ 63"
    and "\<forall>t \<in> set (requests_of ip rs). a \<le> t \<and> t \<le> a + minute"
  defines "h \<equiv> snd (run_keyed checkRateLimit (NewHandler cfg) before)"
  shows "granted (answers_of ip (fst (run_keyed checkRateLimit h rs))) \<le> 2 * nat rpm"
proof -
  have "handler_ok (NewHandler cfg)" using assms(1,3) by (simp add: handler_ok_def NewHandler_def)
  then have "handler_ok h" "ph_config h = cfg"
    using run_checkRateLimit_ok [of "NewHandler cfg" before] by (simp_all add: h_def NewHandler_def)
  then show ?thesis
    using handler_ok_minute [of h rpm "requests_of ip rs" a ip] assms(1-4)
      pac_rl.isolation [of ip h rs] by simp
qed

definition demo_pac :: PacConfig where
  "demo_pac = \<lparr>pc_Enabled = True, pc_ProxyHost = ''proxy'', pc_HTTPPort = ''8080'', pc_SOCKS5Port = ''1080'',
     pc_Token = ''s3cret'', pc_DefaultUser = [], pc_RateLimitRPM = 2\<rparr>"

theorem pac_window_limit_witness:
  "granted (answers_of ''a'' (fst (run_keyed checkRateLimit
      (snd (run_keyed checkRateLimit (NewHandler demo_pac) [(''a'', 0), (''a'', 1)]))
      [(''a'', minute), (''b'', minute), (''a'', minute + 1), (''a'', minute + 2)]))) \<le> 4"
  using pac_window_limit [of demo_pac 2 "''a''"
      "[(''a'', minute), (''b'', minute), (''a'', minute + 1), (''a'', minute + 2)]" minute
      "[(''a'', 0), (''a'', 1)]"]
  by (simp add: demo_pac_def minute_def second_def)

text \<open>The client address is taken from a header the client writes: whatever the limit, any
  number of requests from one connection pass the PAC limiter when each names another address
  in \<^verbatim>\<open>X-Forwarded-For\<close>.\<close>

lemma pac_limit_spoofed:
  assumes "distinct xs" and "\<forall>x \<in> set xs. x \<noteq> [] \<and> list_all (\<lambda>c. is_graph c \<and> c \<noteq> CHR '','') x"
  shows "\<forall>d \<in> set (fst (run_keyed checkRateLimit (NewHandler cfg)
      (map (\<lambda>x. (getClientIP (r\<lparr>rq_Header := header_set (rq_Header r) ''X-Forwarded-For'' x\<rparr>), now)) xs))).
    snd d"
proof -
  have "map (\<lambda>x. (getClientIP (r\<lparr>rq_Header := header_set (rq_Header r) ''X-Forwarded-For'' x\<rparr>), now)) xs
      = map (\<lambda>x. (x, now)) xs"
    using assms(2) by (simp add: getClientIP_forwarded)
  moreover have "distinct (map fst (map (\<lambda>x. (x, now)) xs))" using assms(1) by (simp add: comp_def)
  ultimately show ?thesis by (metis NewHandler_def PacHandler.select_convs(3) fresh_clients_granted)
qed

definition demo_request :: http_request where
  "demo_request = \<lparr>rq_Method = ''GET'', rq_Host = ''example.com'', rq_RequestURI = ''/proxy.pac'', rq_Scheme = [],
     rq_Path = ''/proxy.pac'', rq_RawQuery = ''user=bob&pass=pw&token=s3cret'',
     rq_RemoteAddr = ''10.0.0.7:4000'', rq_Header = Map.empty\<rparr>"

text \<open>C20: the handler answers 429 when the limiter refuses, 401 and without looking at the
  credentials when a configured token is missing or wrong, and a PAC file with embedded
  credentials only for a user whose stored hash accepted the password; correct credentials
  behind the limiter and the token always get it.\<close>

theorem pac_gatekeeping:
  assumes "store_inv d s"
    and "username = (if query_get (rq_RawQuery r) ''user'' = [] then pc_DefaultUser (ph_config h)
                     else query_get (rq_RawQuery r) ''user'')"
    and "password = query_get (rq_RawQuery r) ''pass''"
    and "username \<noteq> []" and "password \<noteq> []"
    and "pac_ServeHTTP d h s new_response r clk = (w, h', s')"
  defines "limited \<equiv> pc_RateLimitRPM (ph_config h) > 0 \<and> \<not> fst (checkRateLimit h (getClientIP r) (clk 0))"
    and "token_ok \<equiv> pc_Token (ph_config h) = [] \<or> query_get (rq_RawQuery r) ''token'' = pc_Token (ph_config h)"
  shows "(limited \<longrightarrow> rs_status w = Some 429 \<and> s' = s) \<and>
    (\<not> limited \<and> \<not> token_ok \<longrightarrow> rs_status w = Some 401 \<and> s' = s) \<and>
    (rs_status w = Some 200 \<longrightarrow> \<not> limited \<and> token_ok \<and> (\<exists>u. legit d s username password u) \<and>
       rs_body w = generatePAC h username password) \<and>
    (\<not> limited \<and> token_ok \<and>
       (\<exists>u. us_users s (lower d username) = Some u \<and> bcrypt_compare d (PasswordHash u) password) \<longrightarrow>
       rs_status w = Some 200 \<and> rs_body w = generatePAC h username password)"
proof -
  define h1 where "h1 = (if pc_RateLimitRPM (ph_config h) > 0 then snd (checkRateLimit h (getClientIP r) (clk 0)) else h)"
  define v where "v = ValidateCredentials d s username password (clk 1) (clk 2)"
  have cfg: "ph_config h1 = ph_config h" by (simp add: h1_def)
  have gen: "generatePAC h1 = generatePAC h" by (simp add: generatePAC_def cfg fun_eq_iff)
  have su: "serve_user d h1 s r new_response (clk 1) (clk 2) =
    (if fst v = None then (http_error ''Invalid credentials'' 401 new_response, snd v)
     else (sendPAC (generatePAC h username password) new_response, snd v))"
    unfolding serve_user_def Let_def cfg assms(2) [symmetric] assms(3) [symmetric] gen v_def [symmetric]
    using assms(4,5) by (simp add: case_prod_beta)
  have lim: "(if pc_RateLimitRPM (ph_config h) > 0 then checkRateLimit h (getClientIP r) (clk 0) else (True, h))
      = (\<not> limited, h1)"
    by (simp add: limited_def h1_def)
  have tok: "(pc_Token (ph_config h) \<noteq> [] \<and> query_get (rq_RawQuery r) ''token'' \<noteq> pc_Token (ph_config h))
      = (\<not> token_ok)"
    by (simp add: token_ok_def)
  have run: "(w, h', s') =
    (if limited then (http_error ''Too Many Requests'' 429 new_response, h1, s)
     else if \<not> token_ok then (http_error ''Unauthorized'' 401 new_response, h1, s)
     else if fst v = None then (http_error ''Invalid credentials'' 401 new_response, h1, snd v)
     else (sendPAC (generatePAC h username password) new_response, h1, snd v))"
    unfolding assms(6) [symmetric] pac_ServeHTTP_def Let_def lim prod.case cfg tok su
    by (simp del: not_None_eq)
  have sound: "fst v = Some u \<Longrightarrow> legit d s username password u" for u
    using assms(1) ValidateCredentials_sound by (auto simp: v_def)
  have complete: "us_users s (lower d username) = Some u \<Longrightarrow> bcrypt_compare d (PasswordHash u) password
      \<Longrightarrow> fst v = Some u" for u
    using assms(1) ValidateCredentials_complete by (auto simp: v_def)
  show ?thesis using run sound complete by (auto simp: sendPAC_def split: if_splits)
qed

lemma demo_query:
  "query_get ''user=bob&pass=pw&token=s3cret'' ''user'' = ''bob''"
  "query_get ''user=bob&pass=pw&token=s3cret'' ''pass'' = ''pw''"
  "query_get ''user=bob&pass=pw&token=s3cret'' ''token'' = ''s3cret''"
  by code_simp+

lemma lower_bob [simp]: "ToLower id ''bob'' = ''bob''"
  by code_simp

theorem pac_gatekeeping_witness:
  "rs_body (fst (pac_ServeHTTP demo_deps (NewHandler demo_pac) demo_store new_response demo_request (\<lambda>_. 0)))
     = generatePAC (NewHandler demo_pac) ''bob'' ''pw''"
proof -
  obtain w h' s' where run: "pac_ServeHTTP demo_deps (NewHandler demo_pac) demo_store new_response
      demo_request (\<lambda>_. 0) = (w, h', s')"
    using prod_cases3 by blast
  have "\<not> (pc_RateLimitRPM (ph_config (NewHandler demo_pac)) > 0 \<and>
      \<not> fst (checkRateLimit (NewHandler demo_pac) (getClientIP demo_request) 0))"
    by (simp add: checkRateLimit_def NewHandler_def Let_def)
  then show ?thesis unfolding run fst_conv
    using pac_gatekeeping [OF demo_store_inv _ _ _ _ run, of "''bob''" "''pw''"]
    by (simp add: demo_request_def demo_query demo_pac_def NewHandler_def demo_store_def)
qed

end
