(* ===== verification/Go_Calendar.thy ===== *)
theory Go_Calendar
  imports Go_Time
begin

text \<open>
  That the calendar of the \<^verbatim>\<open>time\<close> package is modelled right: the date computed from a day number is
  the one the day number was computed from, and a date printed in RFC 3339 format is read back.
\<close>

section \<open>Dates and day numbers\<close>


lemma year_of_era_day:
  fixes c q r doy :: int
  assumes "0 \<le> c" "c < 4" "0 \<le> q" "q < 25" "0 \<le> r" "r < 4" "0 \<le> doy" "doy \<le> 365"
    and "doy = 365 \<Longrightarrow> r = 3 \<and> (q < 24 \<or> c = 3)"
  defines "doe \<equiv> 36524 * c + 1461 * q + 365 * r + doy"
  shows "(doe - doe div 1460 + doe div 36524 - doe div 146096) div 365 = 100 * c + 4 * q + r"
proof -
  define e where "e = (24 * c + q + 365 * r + doy) div 1460"
  have "doe = 24 * c + q + 365 * r + doy + 1460 * (25 * c + q)" by (simp add: doe_def)
  then have 1: "doe div 1460 = e + 25 * c + q" by (simp add: e_def)
  have rest: "1461 * q + 365 * r + doy \<le> (if c = 3 then 36524 else 36523)"
    using assms by (cases "doy = 365") auto
  have nonneg: "0 \<le> 1461 * q + 365 * r + doy" using assms by simp
  have 2: "doe div 36524 - doe div 146096 = c"
  proof (cases "doe = 146096")
    case True
    then show ?thesis using rest nonneg assms(1,2) by (auto simp: doe_def split: if_splits)
  next
    case False
    have "doe \<le> 146096" "0 \<le> doe" using rest nonneg assms(1,2) by (auto simp: doe_def split: if_splits)
    then have "doe div 146096 = 0" using False by simp
    moreover have "1461 * q + 365 * r + doy < 36524"
      using rest False by (auto simp: doe_def split: if_splits)
    then have "doe div 36524 = c" using nonneg unfolding doe_def by (simp add: div_pos_pos_trivial add.assoc)
    ultimately show ?thesis by simp
  qed
  have e: "0 \<le> doy - e" "doy - e < 365"
  proof -
    have "0 \<le> e" "e \<le> 1" using assms(1-8) unfolding e_def by auto
    moreover have "e = 1 \<Longrightarrow> 1460 \<le> 24 * c + q + 365 * r + doy" unfolding e_def by linarith
    moreover have "e = 0 \<Longrightarrow> 24 * c + q + 365 * r + doy < 1460" unfolding e_def using assms(1,3,5,7) by linarith
    moreover have "e = 0 \<or> e = 1" using calculation(1,2) by linarith
    ultimately show "0 \<le> doy - e" "doy - e < 365" using assms by linarith+
  qed
  have "doe - doe div 1460 + doe div 36524 - doe div 146096 = (doy - e) + 365 * (100 * c + 4 * q + r)"
    using 1 2 by (simp add: doe_def)
  then show ?thesis using e by simp
qed

lemma div_up:
  fixes y n :: int
  assumes "0 < n"
  shows "(y + (n - 1)) div n = y div n + (if y mod n = 0 then 0 else 1)"
proof -
  have "y + (n - 1) = (y mod n + (n - 1)) + n * (y div n)" by simp
  then have "(y + (n - 1)) div n = (y mod n + (n - 1)) div n + y div n"
    using assms div_mult_self2 [of n "y mod n + (n - 1)" "y div n"] by simp
  moreover have "(y mod n + (n - 1)) div n = (if y mod n = 0 then 0 else 1)"
  proof (cases "y mod n = 0")
    case False
    have "0 \<le> y mod n" "y mod n < n" using assms by simp_all
    then have "(y mod n - 1) div n = 0" using False by (intro div_pos_pos_trivial) simp_all
    then have "(y mod n - 1 + n) div n = 1" using assms by simp
    then show ?thesis using False by (simp add: algebra_simps)
  qed (use assms in simp)
  ultimately show ?thesis by simp
qed

lemma div_prev:
  fixes y n :: int
  assumes "0 < n"
  shows "(y - 1) div n = (y + (n - 1)) div n - 1"
proof -
  have e: "y + (n - 1) = (y - 1) + n" by simp
  show ?thesis unfolding e using assms div_add_self2 [of n "y - 1"] by simp
qed

lemma days_before_month_next: "1 \<le> m \<Longrightarrow> days_before_month (m + 1) y = days_before_month m y + days_in m y"
proof -
  assume "1 \<le> m"
  then have "nat (m + 1) = Suc (nat m)" "Suc 0 \<le> nat m" by simp_all
  then show ?thesis using \<open>1 \<le> m\<close> by (simp add: days_before_month_def)
qed

lemma days_before_months:
  "days_before_month 1 y = 0" "days_before_month 2 y = 31"
  "days_before_month 3 y = 59 + (if is_leap y then 1 else 0)" "days_before_month 4 y = 90 + (if is_leap y then 1 else 0)"
  "days_before_month 5 y = 120 + (if is_leap y then 1 else 0)" "days_before_month 6 y = 151 + (if is_leap y then 1 else 0)"
  "days_before_month 7 y = 181 + (if is_leap y then 1 else 0)" "days_before_month 8 y = 212 + (if is_leap y then 1 else 0)"
  "days_before_month 9 y = 243 + (if is_leap y then 1 else 0)" "days_before_month 10 y = 273 + (if is_leap y then 1 else 0)"
  "days_before_month 11 y = 304 + (if is_leap y then 1 else 0)" "days_before_month 12 y = 334 + (if is_leap y then 1 else 0)"
proof -
  show 1: "days_before_month 1 y = 0" by (simp add: days_before_month_def)
  note next_month = days_before_month_next [of _ y] days_in_def
  show 2: "days_before_month 2 y = 31" using next_month(1) [of 1] 1 by (simp add: next_month(2))
  show 3: "days_before_month 3 y = 59 + (if is_leap y then 1 else 0)" using next_month(1) [of 2] 2 by (simp add: next_month(2))
  show 4: "days_before_month 4 y = 90 + (if is_leap y then 1 else 0)" using next_month(1) [of 3] 3 by (simp add: next_month(2))
  show 5: "days_before_month 5 y = 120 + (if is_leap y then 1 else 0)" using next_month(1) [of 4] 4 by (simp add: next_month(2))
  show 6: "days_before_month 6 y = 151 + (if is_leap y then 1 else 0)" using next_month(1) [of 5] 5 by (simp add: next_month(2))
  show 7: "days_before_month 7 y = 181 + (if is_leap y then 1 else 0)" using next_month(1) [of 6] 6 by (simp add: next_month(2))
  show 8: "days_before_month 8 y = 212 + (if is_leap y then 1 else 0)" using next_month(1) [of 7] 7 by (simp add: next_month(2))
  show 9: "days_before_month 9 y = 243 + (if is_leap y then 1 else 0)" using next_month(1) [of 8] 8 by (simp add: next_month(2))
  show 10: "days_before_month 10 y = 273 + (if is_leap y then 1 else 0)" using next_month(1) [of 9] 9 by (simp add: next_month(2))
  show 11: "days_before_month 11 y = 304 + (if is_leap y then 1 else 0)" using next_month(1) [of 10] 10 by (simp add: next_month(2))
  show "days_before_month 12 y = 334 + (if is_leap y then 1 else 0)" using next_month(1) [of 11] 11 by (simp add: next_month(2))
qed

text \<open>Days before the March of a year.\<close>

definition march_year :: "int \<Rightarrow> int" where
  "march_year y = 365 * y + y div 4 - y div 100 + y div 400"

lemma days_before_year_march:
  "days_before_year y = march_year y + (if is_leap y then 0 else 1)"
  "march_year (y - 1) = days_before_year y - 366"
proof -
  have up: "(y + 3) div 4 = y div 4 + (if y mod 4 = 0 then 0 else 1)"
    "(y + 99) div 100 = y div 100 + (if y mod 100 = 0 then 0 else 1)"
    "(y + 399) div 400 = y div 400 + (if y mod 400 = 0 then 0 else 1)"
  proof -
    have e: "(3 :: int) = 4 - 1" "(99 :: int) = 100 - 1" "(399 :: int) = 400 - 1" by simp_all
    show "(y + 3) div 4 = y div 4 + (if y mod 4 = 0 then 0 else 1)" unfolding e by (rule div_up) simp
    show "(y + 99) div 100 = y div 100 + (if y mod 100 = 0 then 0 else 1)" unfolding e by (rule div_up) simp
    show "(y + 399) div 400 = y div 400 + (if y mod 400 = 0 then 0 else 1)" unfolding e by (rule div_up) simp
  qed
  have "y mod 400 = 0 \<Longrightarrow> y mod 100 = 0" "y mod 100 = 0 \<Longrightarrow> y mod 4 = 0"
    using dvd_trans [of 100 400 y] dvd_trans [of 4 100 y] by (simp_all add: mod_eq_0_iff_dvd)
  note dvds = this
  have pick: "(R \<Longrightarrow> Q) \<Longrightarrow> (Q \<Longrightarrow> P) \<Longrightarrow>
      (if P then 0 else 1) - (if Q then 0 else 1) + (if R then 0 else 1) = (if P \<and> (\<not> Q \<or> R) then 0 else (1 :: int))" for P Q R
    by auto
  have k: "(if y mod 4 = 0 then 0 else 1) - (if y mod 100 = 0 then 0 else 1) + (if y mod 400 = 0 then 0 else 1)
      = (if is_leap y then 0 else (1 :: int))"
    unfolding is_leap_def by (rule pick [OF dvds])
  have regroup: "x + (a + a') - (b + b') + (c + c') = x + a - b + c + (a' - b' + c')" for x a a' b b' c c' :: int by simp
  show "days_before_year y = march_year y + (if is_leap y then 0 else 1)"
    unfolding days_before_year_def march_year_def up regroup k ..
  have e: "(3 :: int) = 4 - 1" "(99 :: int) = 100 - 1" "(399 :: int) = 400 - 1" by simp_all
  have prev: "(y - 1) div 4 = (y + 3) div 4 - 1" "(y - 1) div 100 = (y + 99) div 100 - 1"
    "(y - 1) div 400 = (y + 399) div 400 - 1"
    unfolding e by (rule div_prev; simp)+
  have regroup': "365 * (x - 1) + (a - 1) - (b - 1) + (c - 1) = 365 * x + a - b + c - 366" for x a b c :: int by simp
  show "march_year (y - 1) = days_before_year y - 366"
    unfolding march_year_def days_before_year_def prev regroup' ..
qed

lemma unix_days_march:
  assumes "1 \<le> m" "m \<le> 12"
  shows "unix_days y m d + 719468 =
    march_year (if m \<le> 2 then y - 1 else y) + (153 * (if m \<le> 2 then m + 9 else m - 3) + 2) div 5 + d - 1"
proof -
  consider "m = 1" | "m = 2" | "m = 3" | "m = 4" | "m = 5" | "m = 6" | "m = 7" | "m = 8" | "m = 9" | "m = 10" | "m = 11" | "m = 12"
    using assms by atomize_elim presburger
  then show ?thesis
    by cases (simp_all add: unix_days_def days_before_months days_before_year_march)
qed

lemma march_year_era:
  fixes era yoe :: int
  shows "march_year (400 * era + yoe) = 146097 * era + march_year yoe"
proof -
  have "(400 * era + yoe) div 4 = 100 * era + yoe div 4" "(400 * era + yoe) div 100 = 4 * era + yoe div 100"
    "(400 * era + yoe) div 400 = era + yoe div 400"
    using div_mult_self2 [of 4 yoe "100 * era"] div_mult_self2 [of 100 yoe "4 * era"] div_mult_self2 [of 400 yoe era]
    by (simp_all add: add.commute)
  then show ?thesis by (simp add: march_year_def)
qed

lemma civil_of_march:
  assumes doy: "0 \<le> doy" "doy \<le> 365" "doy = 365 \<longrightarrow> is_leap (y + 1)"
  defines "z \<equiv> march_year y + doy"
  shows "z div 146097 = y div 400"
    "(z mod 146097 - z mod 146097 div 1460 + z mod 146097 div 36524 - z mod 146097 div 146096) div 365 = y mod 400"
    "z mod 146097 - (365 * (y mod 400) + y mod 400 div 4 - y mod 400 div 100) = doy"
proof -
  define yoe where "yoe = y mod 400"
  define c q r where "c = yoe div 100" and "q = yoe mod 100 div 4" and "r = yoe mod 4"
  have yoe: "0 \<le> yoe" "yoe < 400" by (simp_all add: yoe_def)
  have b: "0 \<le> c" "c < 4" "0 \<le> q" "q < 25" "0 \<le> r" "r < 4" using yoe by (auto simp: c_def q_def r_def)
  have m4: "yoe mod 100 mod 4 = r" by (simp add: r_def mod_mod_cancel)
  have "yoe = 100 * c + yoe mod 100" by (simp add: c_def)
  moreover have "yoe mod 100 = 4 * q + r" using m4 by (metis q_def mult_div_mod_eq)
  ultimately have y: "yoe = 100 * c + 4 * q + r" by simp
  have d4: "yoe div 4 = 25 * c + q" using b by (simp add: y)
  have my: "march_year yoe = 36524 * c + 1461 * q + 365 * r"
    using yoe b by (simp add: march_year_def d4 flip: c_def) (simp add: y)
  have last: "r = 3 \<and> (q < 24 \<or> c = 3)" if "doy = 365"
  proof -
    have "(yoe + 1) mod 4 = (y + 1) mod 4" "(yoe + 1) mod 100 = (y + 1) mod 100" "(yoe + 1) mod 400 = (y + 1) mod 400"
      by (rule mod_add_cong; simp only: yoe_def mod_mod_cancel mod_mod_trivial; simp add: mod_mod_cancel)+
    then have l: "is_leap (yoe + 1)" using doy(3) that by (simp add: is_leap_def)
    have "(yoe + 1) mod 4 = (r + 1) mod 4" by (simp add: r_def mod_simps)
    then have "r = 3" using l b by (simp add: is_leap_def) presburger
    moreover have "c = 3" if "q = 24"
    proof -
      have "yoe + 1 = 100 * (c + 1)" using y that \<open>r = 3\<close> by simp
      then have l': "is_leap (100 * (c + 1))" using l by (simp only:)
      have "c = 0 \<or> c = 1 \<or> c = 2 \<or> c = 3" using b(1,2) by presburger
      then show ?thesis using l' by (elim disjE) (simp_all add: is_leap_def)
    qed
    ultimately show ?thesis using b by force
  qed
  define doe where "doe = 36524 * c + 1461 * q + 365 * r + doy"
  have "0 \<le> doe" "doe < 146097" using b doy last by (cases "doy = 365"; auto simp: doe_def)+
  moreover have "z = doe + 146097 * (y div 400)"
    using march_year_era [of "y div 400" yoe] by (simp add: z_def yoe_def doe_def my [unfolded yoe_def])
  ultimately have z: "z div 146097 = y div 400" "z mod 146097 = doe" by simp_all
  show "z div 146097 = y div 400" by (rule z)
  show "(z mod 146097 - z mod 146097 div 1460 + z mod 146097 div 36524 - z mod 146097 div 146096) div 365 = y mod 400"
    unfolding z doe_def using year_of_era_day [OF b doy(1,2) last] y by (simp add: yoe_def)
  show "z mod 146097 - (365 * (y mod 400) + y mod 400 div 4 - y mod 400 div 100) = doy"
    unfolding z yoe_def [symmetric] c_def [symmetric] d4 doe_def using y by simp
qed

text \<open>The civil date of a day number is the date it was computed from.\<close>

lemma civil_of_unix_days:
  assumes m: "1 \<le> m" "m \<le> 12" and d: "1 \<le> d" "d \<le> days_in m y"
  shows "civil_of_days (unix_days y m d) = (y, m, d)"
proof -
  define y' where "y' = (if m \<le> 2 then y - 1 else y)"
  define mp where "mp = (if m \<le> 2 then m + 9 else m - 3)"
  define doy where "doy = (153 * mp + 2) div 5 + d - 1"
  have z: "unix_days y m d + 719468 = march_year y' + doy"
    using unix_days_march [OF m, of y d] by (simp add: y'_def mp_def doy_def)
  have months: "m = 1 \<or> m = 2 \<or> m = 3 \<or> m = 4 \<or> m = 5 \<or> m = 6 \<or> m = 7 \<or> m = 8 \<or> m = 9 \<or> m = 10 \<or> m = 11 \<or> m = 12"
    using m by presburger
  have doy: "0 \<le> doy" "doy \<le> 365" "doy = 365 \<longrightarrow> is_leap (y' + 1)" "(5 * doy + 2) div 153 = mp"
    using months d by (auto simp: doy_def mp_def y'_def days_in_def split: if_splits)
  note c = civil_of_march [OF doy(1,2,3)]
  have m': "(if mp < 10 then mp + 3 else mp - 9) = m" using m unfolding mp_def by (cases "m \<le> 2") simp_all
  have y: "y' mod 400 + y' div 400 * 400 = y'" by (rule mod_div_mult_eq)
  have y': "y' + (if m \<le> 2 then 1 else 0) = y" unfolding y'_def by simp
  have d': "doy - (153 * mp + 2) div 5 + 1 = d" unfolding doy_def by simp
  show ?thesis
    unfolding civil_of_days_def Let_def z c doy(4) m' y y' d' ..
qed

section \<open>Printing and reading\<close>

lemma digits_pad4:
  fixes y :: int
  assumes "0 \<le> y" "y \<le> 9999"
  shows "int (nat (y div 1000 mod 10) * 1000 + nat (y div 100 mod 10) * 100 + nat (y div 10 mod 10) * 10 + nat (y mod 10)) = y"
proof -
  define a b c where "a = y div 10" and "b = a div 10" and "c = b div 10"
  define p q r s where "p = c mod 10" and "q = b mod 10" and "r = a mod 10" and "s = y mod 10"
  have div: "y div 100 = b" "y div 1000 = c"
    using zdiv_zmult2_eq [of 10 y 10] zdiv_zmult2_eq [of 10 y 100] by (simp_all add: a_def b_def c_def div_mult2_eq')
  have e: "y = 10 * a + s" "a = 10 * b + r" "b = 10 * c + q"
    unfolding a_def b_def c_def q_def r_def s_def by (rule mult_div_mod_eq [symmetric])+
  have digit: "0 \<le> q" "0 \<le> r" "0 \<le> s" unfolding q_def r_def s_def by simp_all
  have "0 \<le> a" "0 \<le> b" "0 \<le> c" unfolding a_def b_def c_def using assms(1) by (simp_all add: pos_imp_zdiv_nonneg_iff)
  moreover have "c \<le> 9" using e digit assms(2) by linarith
  ultimately have "p = c" "0 \<le> p" unfolding p_def by simp_all
  then have "int (nat p * 1000 + nat q * 100 + nat r * 10 + nat s) = y" using e digit by simp
  then show ?thesis unfolding div p_def q_def r_def s_def a_def [symmetric] .
qed

lemma getyear_pad4: "0 \<le> y \<Longrightarrow> y \<le> 9999 \<Longrightarrow> getyear (pad4 y @ s) = Some (y, s)"
proof -
  assume "0 \<le> y" "y \<le> 9999"
  have "nat (z mod 10) < 10" for z :: int by (simp add: nat_less_iff)
  then have "getyear (pad4 y @ s) = Some (int (nat (y div 1000 mod 10) * 1000 + nat (y div 100 mod 10) * 100 +
      nat (y div 10 mod 10) * 10 + nat (y mod 10)), s)"
    by (simp only: pad4_def append.simps getyear.simps is_digit_digit_char digit_val_digit_char simp_thms if_True)
  then show ?thesis unfolding digits_pad4 [OF \<open>0 \<le> y\<close> \<open>y \<le> 9999\<close>] .
qed

lemma getnum_pad2: "0 \<le> n \<Longrightarrow> n \<le> 99 \<Longrightarrow> getnum fixed (pad2 n @ s) = Some (n, s)"
proof -
  assume n: "0 \<le> n" "n \<le> 99"
  have "nat (z mod 10) < 10" for z :: int by (simp add: nat_less_iff)
  then have "getnum fixed (pad2 n @ s) = Some (int (nat (n div 10 mod 10)) * 10 + int (nat (n mod 10)), s)"
    by (simp only: pad2_def append.simps getnum.simps is_digit_digit_char digit_val_digit_char simp_thms if_True if_False)
  moreover have "n div 10 mod 10 = n div 10" using n by simp
  ultimately show ?thesis using n by (simp add: pos_imp_zdiv_nonneg_iff)
qed

lemma parse_date_pad:
  "0 \<le> y \<Longrightarrow> y \<le> 9999 \<Longrightarrow> 1 \<le> m \<Longrightarrow> m \<le> 12 \<Longrightarrow> 0 \<le> d \<Longrightarrow> d \<le> 99 \<Longrightarrow>
   parse_date (pad4 y @ ''-'' @ pad2 m @ ''-'' @ pad2 d @ s) = Some (y, m, d, s)"
  by (simp add: parse_date_def getyear_pad4 getnum_pad2)

lemma digit_val_le: "is_digit c \<Longrightarrow> digit_val c \<le> 9"
  by (auto simp: is_digit_def digit_val_def)

lemma getyear_range: "getyear s = Some (y, r) \<Longrightarrow> 0 \<le> y \<and> y \<le> 9999"
  by (induction s rule: getyear.induct) (auto dest!: digit_val_le split: if_splits)

lemma getnum_range: "getnum fixed s = Some (n, r) \<Longrightarrow> 0 \<le> n \<and> n \<le> 99"
  by (induction fixed s rule: getnum.induct) (auto dest!: digit_val_le split: if_splits)

lemma parse_date_range:
  "parse_date s = Some (y, m, d, r) \<Longrightarrow> 0 \<le> y \<and> y \<le> 9999 \<and> 1 \<le> m \<and> m \<le> 12 \<and> 0 \<le> d \<and> d \<le> 99"
  by (auto simp: parse_date_def bind_eq_Some_conv dest!: getyear_range getnum_range split: if_splits)

text \<open>Midnight UTC of a day, printed and read back.\<close>

lemma rfc3339_midnight:
  assumes "0 \<le> y" "y \<le> 9999" "1 \<le> m" "m \<le> 12" "1 \<le> d" "d \<le> days_in m y"
  shows "parse_rfc3339 (format_rfc3339 0 (unix_days y m d * 86400 * second)) = Some (unix_days y m d * 86400 * second)"
proof -
  have s: "local_seconds 0 (unix_days y m d * 86400 * second) = unix_days y m d * 86400"
    by (simp add: local_seconds_def second_def)
  have f: "format_rfc3339 0 (unix_days y m d * 86400 * second) =
      pad4 y @ ''-'' @ pad2 m @ ''-'' @ pad2 d @ (''T'' @ pad2 0 @ '':'' @ pad2 0 @ '':'' @ pad2 0 @ ''Z'')"
    using civil_of_unix_days [OF assms(3-6)] by (simp add: format_rfc3339_def s format_zone_def)
  have "d \<le> 99" using assms(6) by (auto simp: days_in_def split: if_splits)
  then have "parse_date (format_rfc3339 0 (unix_days y m d * 86400 * second)) =
      Some (y, m, d, ''T'' @ pad2 0 @ '':'' @ pad2 0 @ '':'' @ pad2 0 @ ''Z'')"
    unfolding f using assms by (intro parse_date_pad) simp_all
  then show ?thesis using assms(5,6)
    by (simp add: parse_rfc3339_def getnum_pad2 parse_zone_def)
qed

end
