(* ===== verification/Usage_Tracker.thy ===== *)
theory Usage_Tracker
  imports Go_Float Go_Calendar
begin

text \<open>
  \<^verbatim>\<open>internal/bandwidth/tracker.go\<close> and \<^verbatim>\<open>api.go\<close>: bandwidth usage per user with a monthly reset, the
  count of active connections, and persistence to one JSON file. Every method of \<^verbatim>\<open>Tracker\<close> runs
  under one mutex, so a call is one step. \<open>tr_disk\<close> is what the usage file holds; the
  parameter \<open>wr\<close> of the saving operations says what \<^verbatim>\<open>os.WriteFile\<close> leaves in it. \<open>off\<close> is the
  offset of the local time zone and \<open>now\<close> the time read by the call.
\<close>

named_theorems tracker_simps \<open>fields the tracker operations leave alone\<close>

section \<open>Data\<close>

record UserUsage =
  BytesUp :: int
  BytesDown :: int
  TotalBytes :: int
  LastResetAt :: string
  ActiveConns :: int

record UsageFile =
  uf_Month :: string
  uf_Users :: "(string \<rightharpoonup> UserUsage) option"

text \<open>
  A file that is missing or unreadable, one that is not valid JSON, one of some month in which an entry
  of the map of users is \<^verbatim>\<open>null\<close>, and a decoded one with all its entries.
\<close>

datatype usage_disk = NoFile | BadFile | NullEntry string | GoodFile UsageFile

record Tracker =
  tr_users :: "string \<rightharpoonup> UserUsage"
  tr_month :: string
  tr_stopped :: bool
  tr_disk :: usage_disk

type_synonym writer = "usage_disk \<Rightarrow> UsageFile \<Rightarrow> usage_disk"

section \<open>Operations\<close>

definition new_usage :: "int \<Rightarrow> time \<Rightarrow> UserUsage" where
  "new_usage off now = \<lparr>BytesUp = 0, BytesDown = 0, TotalBytes = 0,
     LastResetAt = format_rfc3339 off now, ActiveConns = 0\<rparr>"

text \<open>\<^verbatim>\<open>getOrCreate\<close> returns the entry and stores a fresh one when there is none.\<close>

definition getOrCreate :: "int \<Rightarrow> Tracker \<Rightarrow> string \<Rightarrow> time \<Rightarrow> UserUsage \<times> Tracker" where
  "getOrCreate off t username now =
     (case tr_users t username of
        Some u \<Rightarrow> (u, t)
      | None \<Rightarrow> let u = new_usage off now
                in (u, t\<lparr>tr_users := (tr_users t)(username \<mapsto> u)\<rparr>))"

text \<open>Writing through the pointer \<^verbatim>\<open>getOrCreate\<close> returned.\<close>

definition put_usage :: "Tracker \<Rightarrow> string \<Rightarrow> UserUsage \<Rightarrow> Tracker" where
  "put_usage t username u = t\<lparr>tr_users := (tr_users t)(username \<mapsto> u)\<rparr>"

definition saveToDiskLocked :: "writer \<Rightarrow> Tracker \<Rightarrow> Tracker" where
  "saveToDiskLocked wr t =
     t\<lparr>tr_disk := wr (tr_disk t) \<lparr>uf_Month = tr_month t, uf_Users = Some (tr_users t)\<rparr>\<rparr>"

definition saveToDisk :: "writer \<Rightarrow> Tracker \<Rightarrow> Tracker" where
  "saveToDisk wr t = saveToDiskLocked wr t"

definition reset_usage :: "int \<Rightarrow> time \<Rightarrow> UserUsage \<Rightarrow> UserUsage" where
  "reset_usage off now u = u\<lparr>BytesUp := 0, BytesDown := 0, TotalBytes := 0,
     LastResetAt := format_rfc3339 off now\<rparr>"

definition checkMonthlyReset :: "writer \<Rightarrow> int \<Rightarrow> Tracker \<Rightarrow> time \<Rightarrow> Tracker" where
  "checkMonthlyReset wr off t now =
     (let currentMonth = format_month off now
      in if currentMonth \<noteq> tr_month t then
           saveToDiskLocked wr
             (t\<lparr>tr_users := (\<lambda>k. map_option (reset_usage off now) (tr_users t k)),
                tr_month := currentMonth\<rparr>)
         else t)"

definition RecordBytes :: "writer \<Rightarrow> int \<Rightarrow> Tracker \<Rightarrow> string \<Rightarrow> int \<Rightarrow> int \<Rightarrow> time \<Rightarrow> Tracker" where
  "RecordBytes wr off t username up down now =
     (let t = checkMonthlyReset wr off t now;
          (u, t) = getOrCreate off t username now
      in put_usage t username
           (u\<lparr>BytesUp := i64 (BytesUp u + up), BytesDown := i64 (BytesDown u + down),
              TotalBytes := i64 (TotalBytes u + i64 (up + down))\<rparr>))"

definition CheckAllowance :: "writer \<Rightarrow> int \<Rightarrow> Tracker \<Rightarrow> string \<Rightarrow> int \<Rightarrow> time \<Rightarrow> bool \<times> Tracker" where
  "CheckAllowance wr off t username limitGB now =
     (if limitGB \<le> 0 then (True, t)
      else let t = checkMonthlyReset wr off t now;
               (u, t) = getOrCreate off t username now;
               limitBytes = i64 (i64 (i64 (limitGB * 1024) * 1024) * 1024)
           in (TotalBytes u < limitBytes, t))"

definition GetUsage :: "int \<Rightarrow> Tracker \<Rightarrow> string \<Rightarrow> time \<Rightarrow> UserUsage \<times> Tracker" where
  "GetUsage off t username now = getOrCreate off t username now"

definition GetAllUsage :: "Tracker \<Rightarrow> (string \<rightharpoonup> UserUsage)" where
  "GetAllUsage t = tr_users t"

definition IncrementConns :: "int \<Rightarrow> Tracker \<Rightarrow> string \<Rightarrow> time \<Rightarrow> Tracker" where
  "IncrementConns off t username now =
     (let (u, t) = getOrCreate off t username now
      in put_usage t username (u\<lparr>ActiveConns := i64 (ActiveConns u + 1)\<rparr>))"

definition DecrementConns :: "int \<Rightarrow> Tracker \<Rightarrow> string \<Rightarrow> time \<Rightarrow> Tracker" where
  "DecrementConns off t username now =
     (let (u, t) = getOrCreate off t username now
      in if ActiveConns u > 0 then put_usage t username (u\<lparr>ActiveConns := ActiveConns u - 1\<rparr>) else t)"

definition GetActiveConns :: "int \<Rightarrow> Tracker \<Rightarrow> string \<Rightarrow> time \<Rightarrow> int \<times> Tracker" where
  "GetActiveConns off t username now =
     (let (u, t) = getOrCreate off t username now in (ActiveConns u, t))"

definition CheckConnLimit :: "int \<Rightarrow> Tracker \<Rightarrow> string \<Rightarrow> int \<Rightarrow> time \<Rightarrow> bool \<times> Tracker" where
  "CheckConnLimit off t username maxConns now =
     (if maxConns \<le> 0 then (True, t)
      else let (u, t) = getOrCreate off t username now in (ActiveConns u < maxConns, t))"

text \<open>\<^verbatim>\<open>Stop\<close> closes the stop channel (closing it twice panics, \<open>None\<close>) and saves.\<close>

definition Stop :: "writer \<Rightarrow> Tracker \<Rightarrow> Tracker option" where
  "Stop wr t =
     (if tr_stopped t then None else Some (saveToDisk wr (t\<lparr>tr_stopped := True\<rparr>)))"

definition GetMonth :: "Tracker \<Rightarrow> string" where
  "GetMonth t = tr_month t"

text \<open>\<open>None\<close> is the panic of writing through the nil pointer that a \<^verbatim>\<open>null\<close> entry decodes to.\<close>

definition loadFromDisk :: "int \<Rightarrow> Tracker \<Rightarrow> time \<Rightarrow> Tracker option" where
  "loadFromDisk off t now =
     (case tr_disk t of
        NoFile \<Rightarrow> Some t
      | BadFile \<Rightarrow> Some t
      | NullEntry month \<Rightarrow> if month = format_month off now then None else Some t
      | GoodFile f \<Rightarrow>
          (case uf_Users f of
             Some users \<Rightarrow>
               if uf_Month f = format_month off now then
                 Some (t\<lparr>tr_users := (\<lambda>k. map_option (\<lambda>u. u\<lparr>ActiveConns := 0\<rparr>) (users k)),
                   tr_month := uf_Month f\<rparr>)
               else Some t
           | None \<Rightarrow> Some t))"

definition NewTracker :: "int \<Rightarrow> usage_disk \<Rightarrow> time \<Rightarrow> Tracker option" where
  "NewTracker off disk now =
     loadFromDisk off \<lparr>tr_users = Map.empty, tr_month = format_month off now,
       tr_stopped = False, tr_disk = disk\<rparr> now"

text \<open>The background goroutine: each tick saves, the closed stop channel ends it.\<close>

datatype loop_event = SaveTick | StopClosed

fun backgroundLoop :: "writer \<Rightarrow> Tracker \<Rightarrow> loop_event list \<Rightarrow> Tracker" where
  "backgroundLoop wr t [] = t"
| "backgroundLoop wr t (SaveTick # es) = backgroundLoop wr (saveToDisk wr t) es"
| "backgroundLoop wr t (StopClosed # es) = t"

section \<open>The usage endpoint\<close>

record UsageEntry =
  ue_BytesUp :: int
  ue_BytesDown :: int
  ue_TotalGB :: rat
  ue_LimitGB :: int
  ue_PercentUsed :: rat
  ue_ActiveConns :: int

record UsageResponse =
  ur_Month :: string
  ur_Users :: "string \<rightharpoonup> UsageEntry"

definition usage_entry :: "UserUsage \<Rightarrow> UsageEntry" where
  "usage_entry u = \<lparr>ue_BytesUp = BytesUp u, ue_BytesDown = BytesDown u,
     ue_TotalGB = fdiv (float64 (TotalBytes u)) (1024 * 1024 * 1024),
     ue_LimitGB = 0, ue_PercentUsed = 0, ue_ActiveConns = ActiveConns u\<rparr>"

text \<open>The headers set, the status written explicitly (only for \<^verbatim>\<open>OPTIONS\<close>) and the body to encode.\<close>

definition UsageHandler ::
  "Tracker \<Rightarrow> string \<Rightarrow> string \<Rightarrow> (string \<times> string) list \<times> nat option \<times> UsageResponse option" where
  "UsageHandler tracker allowedOrigin meth =
     (let hdrs = [(''Access-Control-Allow-Origin'', allowedOrigin),
                  (''Access-Control-Allow-Methods'', ''GET, OPTIONS''),
                  (''Access-Control-Allow-Headers'', ''Content-Type''),
                  (''Content-Type'', ''application/json'')]
      in if meth = ''OPTIONS'' then (hdrs, Some 200, None)
         else (hdrs, None,
               Some \<lparr>ur_Month = GetMonth tracker,
                     ur_Users = (\<lambda>k. map_option usage_entry (GetAllUsage tracker k))\<rparr>))"

section \<open>The entry of a user, created or not\<close>

text \<open>What \<^verbatim>\<open>getOrCreate\<close> would return: a missing entry counts as a fresh one.\<close>

definition usage_of :: "int \<Rightarrow> Tracker \<Rightarrow> string \<Rightarrow> time \<Rightarrow> UserUsage" where
  "usage_of off t u now = (case tr_users t u of Some x \<Rightarrow> x | None \<Rightarrow> new_usage off now)"

definition total_of :: "Tracker \<Rightarrow> string \<Rightarrow> int" where
  "total_of t u = (case tr_users t u of Some x \<Rightarrow> TotalBytes x | None \<Rightarrow> 0)"

definition conns_of :: "Tracker \<Rightarrow> string \<Rightarrow> int" where
  "conns_of t u = (case tr_users t u of Some x \<Rightarrow> ActiveConns x | None \<Rightarrow> 0)"

lemma getOrCreate_fst: "fst (getOrCreate off t u now) = usage_of off t u now"
  by (simp add: getOrCreate_def usage_of_def Let_def split: option.splits)

lemma getOrCreate_users:
  "tr_users (snd (getOrCreate off t u now)) = (tr_users t)(u \<mapsto> usage_of off t u now)"
  by (auto simp: getOrCreate_def usage_of_def Let_def split: option.splits)

lemma getOrCreate_frame [simp]:
  "tr_month (snd (getOrCreate off t u now)) = tr_month t"
  "tr_stopped (snd (getOrCreate off t u now)) = tr_stopped t"
  "tr_disk (snd (getOrCreate off t u now)) = tr_disk t"
  by (simp_all add: getOrCreate_def Let_def split: option.splits)

lemma usage_of_fields [simp]:
  "TotalBytes (usage_of off t u now) = total_of t u"
  "ActiveConns (usage_of off t u now) = conns_of t u"
  by (simp_all add: usage_of_def total_of_def conns_of_def new_usage_def split: option.splits)

lemma put_usage_simps [simp]:
  "tr_users (put_usage t u x) = (tr_users t)(u \<mapsto> x)" "tr_month (put_usage t u x) = tr_month t"
  "tr_stopped (put_usage t u x) = tr_stopped t" "tr_disk (put_usage t u x) = tr_disk t"
  by (simp_all add: put_usage_def)

lemma checkMonthlyReset_same:
  "tr_month t = format_month off now \<Longrightarrow> checkMonthlyReset wr off t now = t"
  by (simp add: checkMonthlyReset_def)

lemma checkMonthlyReset_month [simp]:
  "tr_month (checkMonthlyReset wr off t now) = format_month off now"
  by (simp add: checkMonthlyReset_def Let_def saveToDiskLocked_def)

lemma checkMonthlyReset_total:
  "total_of (checkMonthlyReset wr off t now) u =
     (if tr_month t = format_month off now then total_of t u else 0)"
  by (simp add: checkMonthlyReset_def Let_def saveToDiskLocked_def total_of_def reset_usage_def
      split: option.splits)

lemma checkMonthlyReset_conns [simp]:
  "conns_of (checkMonthlyReset wr off t now) u = conns_of t u"
  by (simp add: checkMonthlyReset_def Let_def saveToDiskLocked_def conns_of_def reset_usage_def
      split: option.splits)

section \<open>Effect of the operations on totals and connection counts\<close>

lemma RecordBytes_total:
  "total_of (RecordBytes wr off t u up down now) v =
     (if v = u then i64 (total_of (checkMonthlyReset wr off t now) u + (up + down))
      else total_of (checkMonthlyReset wr off t now) v)"
proof -
  let ?t = "checkMonthlyReset wr off t now"
  show ?thesis
    by (auto simp: RecordBytes_def Let_def case_prod_beta getOrCreate_fst getOrCreate_users
        total_of_def [of "put_usage _ _ _"] i64_add_right) (simp_all add: total_of_def)
qed

lemma RecordBytes_conns [simp]: "conns_of (RecordBytes wr off t u up down now) v = conns_of t v"
proof -
  have "conns_of (RecordBytes wr off t u up down now) v = conns_of (checkMonthlyReset wr off t now) v"
    by (auto simp: RecordBytes_def Let_def case_prod_beta getOrCreate_fst getOrCreate_users
        conns_of_def [of "put_usage _ _ _"] simp del: checkMonthlyReset_conns)
      (simp add: conns_of_def)
  then show ?thesis by simp
qed

lemma RecordBytes_month [simp]:
  "tr_month (RecordBytes wr off t u up down now) = format_month off now"
  by (simp add: RecordBytes_def Let_def case_prod_beta)

lemma IncrementConns_conns:
  "conns_of (IncrementConns off t u now) v = (if v = u then i64 (conns_of t u + 1) else conns_of t v)"
  by (auto simp: IncrementConns_def case_prod_beta getOrCreate_fst getOrCreate_users
      conns_of_def [of "put_usage _ _ _"]) (simp_all add: conns_of_def)

lemma getOrCreate_conns [simp]: "conns_of (snd (getOrCreate off t u now)) v = conns_of t v"
  by (auto simp: conns_of_def [of "snd _"] getOrCreate_users) (simp_all add: conns_of_def)

lemma getOrCreate_total [simp]: "total_of (snd (getOrCreate off t u now)) v = total_of t v"
  by (auto simp: total_of_def [of "snd _"] getOrCreate_users) (simp_all add: total_of_def)

lemma DecrementConns_conns:
  "conns_of (DecrementConns off t u now) v =
     (if v = u \<and> conns_of t u > 0 then conns_of t u - 1 else conns_of t v)"
  by (auto simp: DecrementConns_def Let_def case_prod_beta getOrCreate_fst getOrCreate_users
      conns_of_def [of "put_usage _ _ _"]) (simp_all add: conns_of_def)

lemma IncrementConns_total: "total_of (IncrementConns off t u now) v = total_of t v"
  by (auto simp: IncrementConns_def case_prod_beta getOrCreate_fst getOrCreate_users
      total_of_def [of "put_usage _ _ _"]) (simp_all add: total_of_def)

lemma DecrementConns_total: "total_of (DecrementConns off t u now) v = total_of t v"
  by (auto simp: DecrementConns_def Let_def case_prod_beta getOrCreate_fst getOrCreate_users
      total_of_def [of "put_usage _ _ _"]) (simp_all add: total_of_def)

lemma IncrementConns_month: "tr_month (IncrementConns off t u now) = tr_month t"
  by (simp add: IncrementConns_def case_prod_beta)

lemma CheckConnLimit_conns [simp]: "conns_of (snd (CheckConnLimit off t u m now)) v = conns_of t v"
  by (simp add: CheckConnLimit_def case_prod_beta)

lemma CheckConnLimit_answer:
  "fst (CheckConnLimit off t u m now) \<longleftrightarrow> m \<le> 0 \<or> conns_of t u < m"
  by (simp add: CheckConnLimit_def case_prod_beta getOrCreate_fst)

lemma CheckAllowance_conns [simp]: "conns_of (snd (CheckAllowance wr off t u l now)) v = conns_of t v"
  by (simp add: CheckAllowance_def Let_def case_prod_beta)

lemma CheckAllowance_answer:
  "fst (CheckAllowance wr off t u l now) \<longleftrightarrow>
     l \<le> 0 \<or> total_of (checkMonthlyReset wr off t now) u < i64 (i64 (i64 (l * 1024) * 1024) * 1024)"
  by (simp add: CheckAllowance_def Let_def case_prod_beta getOrCreate_fst)

lemma CheckAllowance_total:
  "total_of (snd (CheckAllowance wr off t u l now)) v =
     (if l \<le> 0 then total_of t v else total_of (checkMonthlyReset wr off t now) v)"
  by (simp add: CheckAllowance_def Let_def case_prod_beta)

text \<open>Within one month the checks change neither totals nor the month.\<close>

lemma CheckAllowance_keeps:
  assumes "tr_month t = format_month off now"
  shows "total_of (snd (CheckAllowance wr off t u l now)) v = total_of t v"
    and "tr_month (snd (CheckAllowance wr off t u l now)) = tr_month t"
  using assms by (simp_all add: CheckAllowance_total checkMonthlyReset_same)
    (simp add: CheckAllowance_def Let_def case_prod_beta checkMonthlyReset_same)

lemma CheckConnLimit_keeps:
  "total_of (snd (CheckConnLimit off t u m now)) v = total_of t v"
  "tr_month (snd (CheckConnLimit off t u m now)) = tr_month t"
  by (simp_all add: CheckConnLimit_def case_prod_beta)

section \<open>The ledger contract\<close>

text \<open>
  What the servers rely on when they record traffic: recording for one user adds to that
  user's total and leaves the others alone. A month of records then sums up.
\<close>

locale usage_ledger =
  fixes rec :: "'x \<Rightarrow> 's \<Rightarrow> string \<Rightarrow> int \<Rightarrow> int \<Rightarrow> 's"
    and valid :: "'x \<Rightarrow> bool"
    and total :: "'s \<Rightarrow> string \<Rightarrow> int"
    and inv :: "'s \<Rightarrow> bool"
  assumes rec_inv: "inv s \<Longrightarrow> valid x \<Longrightarrow> inv (rec x s u a b)"
    and rec_same: "inv s \<Longrightarrow> valid x \<Longrightarrow> total (rec x s u a b) u = i64 (total s u + (a + b))"
    and rec_other: "inv s \<Longrightarrow> valid x \<Longrightarrow> v \<noteq> u \<Longrightarrow> total (rec x s u a b) v = total s v"
begin

lemma rec_total:
  "inv s \<Longrightarrow> valid x \<Longrightarrow> total (rec x s u a b) v = (if v = u then i64 (total s u + (a + b)) else total s v)"
  by (simp add: rec_same rec_other)

lemma run_inv:
  "inv s \<Longrightarrow> list_all (\<lambda>r. valid (fst r)) rs \<Longrightarrow> inv (fold (\<lambda>(x, u, a, b) s. rec x s u a b) rs s)"
  by (induction rs arbitrary: s) (auto simp: rec_inv)

lemma run_total:
  assumes "inv s" "list_all (\<lambda>r. valid (fst r)) rs" "in_i64 (total s v)"
  shows "total (fold (\<lambda>(x, u, a, b) s. rec x s u a b) rs s) v
    = i64 (total s v + (\<Sum>(x, u, a, b) \<leftarrow> filter (\<lambda>r. fst (snd r) = v) rs. a + b))"
  using assms
proof (induction rs arbitrary: s)
  case Nil
  then show ?case by (simp add: i64_id)
next
  case (Cons r rs)
  obtain x u a b where r: "r = (x, u, a, b)" by (cases r)
  have x: "valid x" "list_all (\<lambda>r. valid (fst r)) rs" using Cons.prems(2) by (simp_all add: r)
  have i: "inv (rec x s u a b)" using Cons.prems(1) x(1) by (rule rec_inv)
  have "in_i64 (total (rec x s u a b) v)" using Cons.prems rec_total [of s x u a b v] x(1) by auto
  from Cons.IH [OF i x(2) this] show ?case
    using Cons.prems(1) x(1) rec_total [of s x u a b v] by (auto simp: r i64_add_left add.assoc)
qed

end

text \<open>
  A calendar month, without reference to its text: the local days from its first to its last. In the years
  0 to 9999 its text is \<^verbatim>\<open>yyyy-mm\<close> on each of them, and no other month's.
\<close>

definition in_month :: "int \<Rightarrow> int \<Rightarrow> int \<Rightarrow> time \<Rightarrow> bool" where
  "in_month off y m t \<longleftrightarrow> 0 \<le> y \<and> y \<le> 9999 \<and> 1 \<le> m \<and> m \<le> 12 \<and>
     unix_days y m 1 \<le> local_seconds off t div 86400 \<and> local_seconds off t div 86400 < unix_days y m 1 + days_in m y"

definition month_text :: "int \<Rightarrow> int \<Rightarrow> string" where
  "month_text y m = pad4 y @ ''-'' @ pad2 m"

lemma format_in_month: "in_month off y m t \<Longrightarrow> format_month off t = month_text y m"
proof -
  assume t: "in_month off y m t"
  define d where "d = local_seconds off t div 86400 - unix_days y m 1 + 1"
  have "local_seconds off t div 86400 = unix_days y m d" by (simp add: d_def unix_days_def)
  moreover have "1 \<le> d" "d \<le> days_in m y" using t by (simp_all add: d_def in_month_def)
  ultimately show ?thesis using t by (simp add: format_month_def civil_of_unix_days in_month_def month_text_def)
qed

interpretation month_ledger: usage_ledger "\<lambda>now t u a b. RecordBytes wr off t u a b now" "in_month off y m" total_of
  "\<lambda>t. tr_month t = month_text y m" for wr off y m
  by unfold_locales (simp_all add: RecordBytes_total checkMonthlyReset_same format_in_month)

lemma NewTracker_conns: "NewTracker off disk now = Some t \<Longrightarrow> conns_of t u = 0"
  by (auto simp: NewTracker_def loadFromDisk_def conns_of_def split: usage_disk.splits option.splits if_splits)

lemma NewTracker_disk: "NewTracker off disk now = Some t \<Longrightarrow> tr_disk t = disk \<and> \<not> tr_stopped t"
  by (auto simp: NewTracker_def loadFromDisk_def split: usage_disk.splits option.splits if_splits)

section \<open>The connection count contract\<close>

text \<open>
  What the servers rely on when they count a connection: the increment and the decrement of
  one user undo each other around any work that keeps the counts, and touch no other user.
\<close>

locale conn_counter =
  fixes inc dec :: "'s \<Rightarrow> string \<Rightarrow> time \<Rightarrow> 's"
    and count :: "'s \<Rightarrow> string \<Rightarrow> int"
  assumes inc_count: "count (inc s u t) v = (if v = u then i64 (count s u + 1) else count s v)"
    and dec_count: "count (dec s u t) v = (if v = u \<and> count s u > 0 then count s u - 1 else count s v)"
begin

lemma bracket:
  assumes "\<And>v. count s' v = count (inc s u t) v" and "0 \<le> count s u" and "count s u < 2 ^ 63 - 1"
  shows "count (dec s' u t') v = count s v"
  using assms by (simp add: dec_count inc_count)

end

interpretation conns: conn_counter "IncrementConns off" "DecrementConns off" conns_of for off
  by unfold_locales (simp_all add: IncrementConns_conns DecrementConns_conns)

section \<open>The invariant of the entries\<close>

definition usage_ok :: "UserUsage \<Rightarrow> bool" where
  "usage_ok u \<longleftrightarrow> TotalBytes u = i64 (BytesUp u + BytesDown u) \<and> 0 \<le> ActiveConns u"

definition tracker_ok :: "Tracker \<Rightarrow> bool" where
  "tracker_ok t \<longleftrightarrow> (\<forall>u \<in> ran (tr_users t). usage_ok u)"

lemma tracker_ok_update:
  "tracker_ok t \<Longrightarrow> usage_ok x \<Longrightarrow> tr_users t' = (tr_users t)(u \<mapsto> x) \<Longrightarrow> tracker_ok t'"
  by (auto simp: tracker_ok_def ran_def split: if_splits)

lemma usage_ok_new [simp]: "usage_ok (new_usage off now)"
  by (simp add: usage_ok_def new_usage_def)

lemma usage_of_ok: "tracker_ok t \<Longrightarrow> usage_ok (usage_of off t u now)"
  by (auto simp: usage_of_def tracker_ok_def ran_def split: option.splits)

lemma getOrCreate_ok: "tracker_ok t \<Longrightarrow> tracker_ok (snd (getOrCreate off t u now))"
  by (rule tracker_ok_update [OF _ usage_of_ok getOrCreate_users])

lemma checkMonthlyReset_ok: "tracker_ok t \<Longrightarrow> tracker_ok (checkMonthlyReset wr off t now)"
  by (auto simp: checkMonthlyReset_def Let_def saveToDiskLocked_def tracker_ok_def ran_def
      usage_ok_def reset_usage_def split: option.splits)

lemma RecordBytes_ok:
  assumes "tracker_ok t"
  shows "tracker_ok (RecordBytes wr off t u up down now)"
proof -
  let ?t = "checkMonthlyReset wr off t now" and ?x = "usage_of off (checkMonthlyReset wr off t now) u now"
  have "usage_ok ?x" using assms by (intro usage_of_ok checkMonthlyReset_ok)
  then have x: "TotalBytes ?x = i64 (BytesUp ?x + BytesDown ?x)" "0 \<le> ActiveConns ?x"
    by (simp_all only: usage_ok_def)
  have "i64 (TotalBytes ?x + i64 (up + down)) = i64 (i64 (BytesUp ?x + up) + i64 (BytesDown ?x + down))"
    unfolding x(1) by (simp only: i64_add_left i64_add_right) (simp add: algebra_simps)
  then have "usage_ok (?x\<lparr>BytesUp := i64 (BytesUp ?x + up), BytesDown := i64 (BytesDown ?x + down),
      TotalBytes := i64 (TotalBytes ?x + i64 (up + down))\<rparr>)"
    using x(2) by (simp add: usage_ok_def)
  with checkMonthlyReset_ok [OF assms] show ?thesis
    by (rule tracker_ok_update)
      (simp add: RecordBytes_def Let_def case_prod_beta getOrCreate_fst getOrCreate_users)
qed

lemma IncrementConns_ok:
  assumes "tracker_ok t" "conns_of t u < 2 ^ 63 - 1"
  shows "tracker_ok (IncrementConns off t u now)"
proof -
  let ?x = "usage_of off t u now"
  have "usage_ok ?x" using assms(1) by (rule usage_of_ok)
  moreover have "ActiveConns ?x < 2 ^ 63 - 1" using assms(2) by (simp only: usage_of_fields)
  ultimately have "usage_ok (?x\<lparr>ActiveConns := i64 (ActiveConns ?x + 1)\<rparr>)"
    by (simp add: usage_ok_def del: usage_of_fields)
  with assms(1) show ?thesis
    by (rule tracker_ok_update)
      (simp add: IncrementConns_def case_prod_beta getOrCreate_fst getOrCreate_users)
qed

lemma DecrementConns_ok:
  assumes "tracker_ok t"
  shows "tracker_ok (DecrementConns off t u now)"
proof (cases "conns_of t u > 0")
  case True
  let ?x = "usage_of off t u now"
  have "usage_ok ?x" using assms by (rule usage_of_ok)
  then have "usage_ok (?x\<lparr>ActiveConns := ActiveConns ?x - 1\<rparr>)"
    using True by (simp add: usage_ok_def)
  with assms show ?thesis
    by (rule tracker_ok_update)
      (use True in \<open>simp add: DecrementConns_def case_prod_beta getOrCreate_fst getOrCreate_users\<close>)
next
  case False
  then show ?thesis using getOrCreate_ok [OF assms]
    by (simp add: DecrementConns_def case_prod_beta getOrCreate_fst)
qed

lemma CheckAllowance_ok: "tracker_ok t \<Longrightarrow> tracker_ok (snd (CheckAllowance wr off t u l now))"
  by (simp add: CheckAllowance_def Let_def case_prod_beta getOrCreate_ok checkMonthlyReset_ok)

lemma CheckConnLimit_ok: "tracker_ok t \<Longrightarrow> tracker_ok (snd (CheckConnLimit off t u m now))"
  by (simp add: CheckConnLimit_def case_prod_beta getOrCreate_ok)

section \<open>Properties\<close>

text \<open>
  The counters with which a tracker meets a new month: kept when the tracker is in it already, and cleared
  by the first operation otherwise.
\<close>

definition carried :: "Tracker \<Rightarrow> int \<Rightarrow> int \<Rightarrow> string \<Rightarrow> int" where
  "carried t y m u = (if tr_month t = month_text y m then total_of t u else 0)"

lemma enter_month:
  assumes "in_month off y m now"
  shows "tr_month (checkMonthlyReset wr off t now) = month_text y m"
    "total_of (checkMonthlyReset wr off t now) u = carried t y m u"
  using format_in_month [OF assms] by (simp_all add: checkMonthlyReset_total carried_def)

lemma RecordBytes_reset: "RecordBytes wr off (checkMonthlyReset wr off t now) u a b now = RecordBytes wr off t u a b now"
  by (simp add: RecordBytes_def checkMonthlyReset_same [of "checkMonthlyReset wr off t now"])

lemma CheckAllowance_reset:
  "fst (CheckAllowance wr off (checkMonthlyReset wr off t now) u l now) = fst (CheckAllowance wr off t u l now)"
  by (simp add: CheckAllowance_answer checkMonthlyReset_same [of "checkMonthlyReset wr off t now"])

lemma records_total:
  fixes wr :: writer
  assumes "list_all (\<lambda>r. in_month off y m (fst r)) rs" "rs \<noteq> []" "in_i64 (carried t y m u)"
  defines "t' \<equiv> fold (\<lambda>(now, v, up, down) t. RecordBytes wr off t v up down now) rs t"
  shows "tr_month t' = month_text y m"
    "total_of t' u = i64 (carried t y m u + (\<Sum>(now, v, up, down) \<leftarrow> filter (\<lambda>r. fst (snd r) = u) rs. up + down))"
proof -
  obtain now v a b rest where rs: "rs = (now, v, a, b) # rest" using assms(2) by (cases rs) auto
  let ?s = "checkMonthlyReset wr off t now"
  have "in_month off y m now" using assms(1) by (simp add: rs)
  note s = enter_month [OF this, of wr t]
  have t': "t' = fold (\<lambda>(now, v, up, down) t. RecordBytes wr off t v up down now) rs ?s"
    by (simp add: t'_def rs RecordBytes_reset)
  show "tr_month t' = month_text y m" unfolding t' using month_ledger.run_inv [OF s(1) assms(1)] .
  show "total_of t' u = i64 (carried t y m u + (\<Sum>(now, v, up, down) \<leftarrow> filter (\<lambda>r. fst (snd r) = u) rs. up + down))"
    unfolding t' using month_ledger.run_total [OF s(1) assms(1), of u wr] assms(3) by (simp only: s(2))
qed

text \<open>C15: the bandwidth cap is exact over a calendar month (of the years 0 to 9999, in local time). Take a
  tracker in any state, any sequence of transfers recorded at any times of the month, and a check at any
  time of it, with totals that fit in 63 bits. The check refuses a user exactly when the bytes recorded for
  that user in the month, in both directions, have reached the limit in GiB, counting what the tracker
  had before if that was in the same month and nothing otherwise.\<close>

theorem monthly_cap_exact:
  fixes rs :: "(time \<times> string \<times> int \<times> int) list"
  assumes "list_all (\<lambda>r. in_month off y m (fst r)) rs" and "in_month off y m now" and "0 < limitGB" and "limitGB < 2 ^ 33"
    and "0 \<le> carried t y m u" and "0 \<le> used" and "carried t y m u + used < 2 ^ 63"
    and "used = (\<Sum>(time, v, up, down) \<leftarrow> filter (\<lambda>r. fst (snd r) = u) rs. up + down)"
  shows "fst (CheckAllowance wr off (fold (\<lambda>(time, v, up, down) t. RecordBytes wr off t v up down time) rs t) u limitGB now)
         \<longleftrightarrow> carried t y m u + used < limitGB * 1024 ^ 3"
proof -
  let ?t = "fold (\<lambda>(time, v, up, down) t. RecordBytes wr off t v up down time) rs t"
  have c: "in_i64 (carried t y m u)" using assms(5-7) by (simp add: in_i64_def)
  have tot: "total_of (checkMonthlyReset wr off ?t now) u = carried t y m u + used"
  proof (cases "rs = []")
    case True
    then show ?thesis using enter_month(2) [OF assms(2)] assms(8) by simp
  next
    case False
    note r = records_total [OF assms(1) False c]
    have "carried ?t y m u = total_of ?t u" using r(1) by (simp add: carried_def)
    then show ?thesis using enter_month(2) [OF assms(2), of wr ?t u] r(2) [of wr] assms(5-7)
      unfolding assms(8) [symmetric] by simp
  qed
  have "i64 (i64 (i64 (limitGB * 1024) * 1024) * 1024) = limitGB * 1024 ^ 3" using assms(3,4) by simp
  then show ?thesis using assms(3) unfolding CheckAllowance_answer tot by simp
qed

definition demo_tracker :: Tracker where
  "demo_tracker = \<lparr>tr_users = Map.empty, tr_month = format_month 0 0, tr_stopped = False, tr_disk = NoFile\<rparr>"

text \<open>January 1970: a transfer on the first day, another one on the 31st, and a check in its last second.\<close>

theorem monthly_cap_exact_witness:
  "\<not> fst (CheckAllowance (\<lambda>_. GoodFile) 0
      (fold (\<lambda>(time, v, up, down) t. RecordBytes (\<lambda>_. GoodFile) 0 t v up down time)
        [(0, ''bob'', 2 ^ 29, 5), (7, ''eve'', 7, 7), (30 * 86400 * second, ''bob'', 2 ^ 29, 0)] demo_tracker) ''bob'' 1 (2678399 * second))"
proof -
  have "in_month 0 1970 1 0" "in_month 0 1970 1 7" "in_month 0 1970 1 (30 * 86400 * second)" "in_month 0 1970 1 (2678399 * second)"
    by code_simp+
  then show ?thesis
    using monthly_cap_exact [of 0 1970 1 "[(0, ''bob'', 2 ^ 29, 5), (7, ''eve'', 7, 7), (30 * 86400 * second, ''bob'', 2 ^ 29, 0)]"
        "2678399 * second" 1 demo_tracker "''bob''" "2 ^ 30 + 5" "\<lambda>_. GoodFile"]
    by (simp add: demo_tracker_def total_of_def carried_def)
qed

text \<open>C16: the first \<^verbatim>\<open>CheckAllowance\<close> with a limit in a new calendar month clears the byte counters of every
  user, in memory and in the usage file, which is written under the new month; it keeps all counts of
  open connections and admits the user. A check without a limit does nothing, not even the reset.\<close>

theorem monthly_reset:
  fixes wr :: writer and u :: string and limitGB :: int
  assumes "in_month off y m now" and "tr_month t \<noteq> month_text y m"
  defines "r \<equiv> CheckAllowance wr off t u limitGB now"
    and "cleared \<equiv> \<lambda>x. \<lparr>BytesUp = 0, BytesDown = 0, TotalBytes = 0, LastResetAt = format_rfc3339 off now, ActiveConns = ActiveConns x\<rparr>"
  shows "(0 < limitGB \<and> limitGB < 2 ^ 33 \<longrightarrow>
      fst r \<and> tr_month (snd r) = month_text y m \<and>
      (\<forall>v x. tr_users t v = Some x \<longrightarrow> tr_users (snd r) v = Some (cleared x)) \<and>
      (\<forall>v. conns_of (snd r) v = conns_of t v) \<and>
      tr_disk (snd r) = wr (tr_disk t) \<lparr>uf_Month = month_text y m, uf_Users = Some (\<lambda>k. map_option cleared (tr_users t k))\<rparr>) \<and>
    (limitGB \<le> 0 \<longrightarrow> r = (True, t))"
proof -
  have f: "format_month off now = month_text y m" using assms(1) by (rule format_in_month)
  have cl: "reset_usage off now = cleared" by (simp add: fun_eq_iff reset_usage_def cleared_def)
  define t1 where "t1 = checkMonthlyReset wr off t now"
  have t1: "tr_users t1 = (\<lambda>k. map_option cleared (tr_users t k))" "tr_month t1 = month_text y m"
    "tr_disk t1 = wr (tr_disk t) \<lparr>uf_Month = month_text y m, uf_Users = Some (\<lambda>k. map_option cleared (tr_users t k))\<rparr>"
    using assms(2) by (simp_all add: t1_def checkMonthlyReset_def f cl Let_def saveToDiskLocked_def)
  have snd: "snd r = snd (getOrCreate off t1 u now)" if "0 < limitGB"
    using that by (simp add: r_def CheckAllowance_def Let_def case_prod_beta t1_def)
  have "tr_users (snd r) v = Some (cleared x)" if "0 < limitGB" "tr_users t v = Some x" for v x
    using that by (cases "v = u") (simp_all add: snd getOrCreate_users usage_of_def t1)
  moreover have "fst r" if "0 < limitGB" "limitGB < 2 ^ 33"
  proof -
    have "i64 (i64 (i64 (limitGB * 1024) * 1024) * 1024) = limitGB * 1024 ^ 3" using that by simp
    moreover have "total_of (checkMonthlyReset wr off t now) u = 0" using assms(2) by (simp add: checkMonthlyReset_total f)
    ultimately show ?thesis unfolding r_def CheckAllowance_answer using that(1) by simp
  qed
  moreover have "conns_of (snd r) v = conns_of t v" for v by (simp add: r_def)
  ultimately show ?thesis using snd t1 by (auto simp: r_def CheckAllowance_def)
qed

theorem monthly_reset_witness:
  "\<exists>t. CheckAllowance (\<lambda>_. GoodFile) 0 (demo_tracker\<lparr>tr_month := ''1969-12'',
       tr_users := [''bob'' \<mapsto> (new_usage 0 0)\<lparr>TotalBytes := 2 ^ 40, BytesUp := 2 ^ 40, ActiveConns := 3\<rparr>]\<rparr>) ''bob'' 1 0 = (True, t) \<and>
     map_option BytesUp (tr_users t ''bob'') = Some 0 \<and> conns_of t ''bob'' = 3"
proof -
  let ?t = "demo_tracker\<lparr>tr_month := ''1969-12'',
    tr_users := [''bob'' \<mapsto> (new_usage 0 0)\<lparr>TotalBytes := 2 ^ 40, BytesUp := 2 ^ 40, ActiveConns := 3\<rparr>]\<rparr>"
  have "in_month 0 1970 1 0" "month_text 1970 1 = ''1970-01''" by code_simp+
  then show ?thesis
    using monthly_reset [of 0 1970 1 0 ?t 1 "\<lambda>_. GoodFile" "''bob''"]
    by (cases "CheckAllowance (\<lambda>_. GoodFile) 0 ?t ''bob'' 1 0") (simp add: conns_of_def)
qed

text \<open>C17: usage survives a restart: a tracker started on the file that \<^verbatim>\<open>Stop\<close> wrote in the same
  month has the same byte counters for every user, and no active connections.\<close>

theorem restart_restores_usage:
  assumes "Stop wr t = Some t'" and "\<And>old f. wr old f = GoodFile f"
    and "tr_month t = format_month off now"
  shows "\<exists>t2. NewTracker off (tr_disk t') now = Some t2 \<and>
    tr_users t2 = (\<lambda>k. map_option (\<lambda>u. u\<lparr>ActiveConns := 0\<rparr>) (tr_users t k)) \<and>
    (\<forall>u. total_of t2 u = total_of t u \<and> conns_of t2 u = 0)"
proof -
  have "tr_disk t' = GoodFile \<lparr>uf_Month = tr_month t, uf_Users = Some (tr_users t)\<rparr>"
    using assms(1,2) by (auto simp: Stop_def saveToDisk_def saveToDiskLocked_def split: if_splits)
  then show ?thesis
    using assms(3) by (simp add: NewTracker_def loadFromDisk_def total_of_def conns_of_def split: option.splits)
qed

theorem restart_restores_usage_witness:
  "\<exists>t' t2. Stop (\<lambda>_. GoodFile) (RecordBytes (\<lambda>_. GoodFile) 0 demo_tracker ''bob'' 3 4 0) = Some t' \<and>
     NewTracker 0 (tr_disk t') 0 = Some t2 \<and> total_of t2 ''bob'' = 7"
proof -
  let ?t = "RecordBytes (\<lambda>_. GoodFile) 0 demo_tracker ''bob'' 3 4 0"
  have "\<not> tr_stopped ?t"
    by (simp add: RecordBytes_def Let_def case_prod_beta checkMonthlyReset_def demo_tracker_def)
  then obtain t' where t': "Stop (\<lambda>_. GoodFile) ?t = Some t'" by (simp add: Stop_def)
  have "total_of ?t ''bob'' = 7"
    by (simp add: RecordBytes_total checkMonthlyReset_total)
      (simp add: demo_tracker_def total_of_def)
  then show ?thesis using restart_restores_usage [OF t', of 0 0] t' by auto
qed

text \<open>C18: in every entry the total is the wrapped sum of both directions and the number of active
  connections is not negative, through every operation of the tracker (the count of open
  connections staying below the largest \<^verbatim>\<open>int\<close>).\<close>

theorem tracker_invariant:
  assumes "tracker_ok t"
  shows "tracker_ok (RecordBytes wr off t u up down now) \<and>
    tracker_ok (snd (CheckAllowance wr off t u limitGB now)) \<and>
    tracker_ok (snd (CheckConnLimit off t u maxConns now)) \<and>
    tracker_ok (snd (GetUsage off t u now)) \<and> tracker_ok (snd (GetActiveConns off t u now)) \<and>
    tracker_ok (DecrementConns off t u now) \<and>
    (conns_of t u < 2 ^ 63 - 1 \<longrightarrow> tracker_ok (IncrementConns off t u now))"
  using assms
  by (simp add: RecordBytes_ok CheckAllowance_ok CheckConnLimit_ok DecrementConns_ok IncrementConns_ok
      getOrCreate_ok GetUsage_def GetActiveConns_def case_prod_beta)

theorem tracker_invariant_witness:
  "tracker_ok (IncrementConns 0 demo_tracker ''bob'' 0)"
  using tracker_invariant [of demo_tracker "\<lambda>_. GoodFile" 0 "''bob''" 0 0 0 0 0]
  by (simp add: demo_tracker_def tracker_ok_def conns_of_def)

end
