(* ===== verification/Access_Policy.thy ===== *)
theory Access_Policy
  imports User_Store Usage_Tracker
begin

text \<open>
  The access policy that \<^verbatim>\<open>httpproxy/server.go\<close> and \<^verbatim>\<open>socks5/server.go\<close> each write out in their
  handlers, stated once: who may use the proxy, given the address of the client, the name and
  the user the credentials belong to, the user store, the tracker and the clock readings.
\<close>

section \<open>The policy\<close>

text \<open>Rate limit, expiry date, bandwidth cap and connection limit, on the state before the checks.\<close>

definition policy_ok ::
  "deps \<Rightarrow> writer \<Rightarrow> int \<Rightarrow> (nat \<Rightarrow> time) \<Rightarrow> UserStore \<Rightarrow> Tracker option \<Rightarrow> string \<Rightarrow> User \<Rightarrow> bool" where
  "policy_ok d wr off clk store bw username user \<longleftrightarrow>
     fst (CheckRateLimit d store username (clk 3)) \<and>
     CheckExpiry d store username (clk 4) \<and>
     (\<forall>t. bw = Some t \<longrightarrow>
        fst (CheckAllowance wr off t username (BandwidthLimitGB user) (clk 5)) \<and>
        (MaxConnections user \<le> 0 \<or> conns_of t username < MaxConnections user))"

text \<open>A super admin calling from a super admin network, whom the quotas do not bind.\<close>

definition exempt :: "UserStore \<Rightarrow> string \<Rightarrow> User \<Rightarrow> bool" where
  "exempt store ip user \<longleftrightarrow> Role user = ''super_admin'' \<and> IsSuperAdminIP store ip \<noteq> None"

section \<open>What the checks depend on\<close>

lemma CheckExpiry_cong: "us_users s' = us_users s \<Longrightarrow> CheckExpiry d s' = CheckExpiry d s"
  by (simp add: CheckExpiry_def fun_eq_iff)

lemma IsSuperAdminIP_Validate [simp]:
  "IsSuperAdminIP (snd (ValidateCredentials d st n p t t')) ip = IsSuperAdminIP st ip"
  by (simp only: IsSuperAdminIP_def store_simps)

lemma exempt_Validate [simp]:
  "exempt (snd (ValidateCredentials d st n p t t')) ip user = exempt st ip user"
  by (simp add: exempt_def)

lemma CheckRateLimit_Validate:
  "fst (CheckRateLimit d (snd (ValidateCredentials d st n p t t')) u now) = fst (CheckRateLimit d st u now)"
  by (simp add: CheckRateLimit_def store_simps case_prod_beta split: option.splits)

lemma CheckExpiry_Validate [simp]:
  "CheckExpiry d (snd (ValidateCredentials d' st n p t t')) = CheckExpiry d st"
  by (rule CheckExpiry_cong) (rule ValidateCredentials_frame)

lemma CheckExpiry_RateLimit [simp]: "CheckExpiry d (snd (CheckRateLimit d' st u now)) = CheckExpiry d st"
  by (rule CheckExpiry_cong) (rule CheckRateLimit_frame)

lemma policy_ok_Validate [simp]:
  "policy_ok d wr off clk (snd (ValidateCredentials d st n p t t')) bw u user
     \<longleftrightarrow> policy_ok d wr off clk st bw u user"
  by (simp add: policy_ok_def CheckRateLimit_Validate)

text \<open>For a store whose cache is sound the user found by the credentials is the one under the name.\<close>

lemma validated_user:
  assumes "store_inv d st" "fst (ValidateCredentials d st n p t t') = Some user"
  shows "GetUser d st n = Some user" "legit d st n p user"
  using ValidateCredentials_sound [OF assms] by (simp_all add: GetUser_def legit_def)

lemma GetUser_Validate [simp]: "GetUser d (snd (ValidateCredentials d' st n p t t')) u = GetUser d st u"
  by (simp add: GetUser_def store_simps)

section \<open>The admission contract\<close>

text \<open>
  The policy as a reference program on the two shared objects, and the interface a server's own
  checks implement: \<open>quota\<close> answers for a state \<open>'s\<close> of the server whose \<open>view\<close> is the user store and
  the tracker, and does to them exactly what the reference does.
\<close>

definition policy_run :: "deps \<Rightarrow> writer \<Rightarrow> int \<Rightarrow> (nat \<Rightarrow> time) \<Rightarrow> UserStore \<times> Tracker option \<Rightarrow> string \<Rightarrow> User \<Rightarrow>
    bool \<times> UserStore \<times> Tracker option" where
  "policy_run d wr off clk v username user =
     (let (ok, store) = CheckRateLimit d (fst v) username (clk 3)
      in if \<not> ok \<or> \<not> CheckExpiry d store username (clk 4) then (False, store, snd v)
         else case snd v of
           None \<Rightarrow> (True, store, None)
         | Some t \<Rightarrow>
             let (ok, t) = CheckAllowance wr off t username (BandwidthLimitGB user) (clk 5)
             in if \<not> ok then (False, store, Some t)
                else let (ok, t) = CheckConnLimit off t username (MaxConnections user) (clk 6) in (ok, store, Some t))"

lemma policy_run_decides:
  "fst (policy_run d wr off clk v u user) \<longleftrightarrow> policy_ok d wr off clk (fst v) (snd v) u user"
  by (simp add: policy_run_def policy_ok_def Let_def case_prod_beta CheckConnLimit_answer split: option.splits) auto

locale admission =
  fixes d :: deps and wr :: writer and off :: int and clk :: "nat \<Rightarrow> time"
    and quota :: "'s \<Rightarrow> string \<Rightarrow> User \<Rightarrow> bool \<times> 's"
    and view :: "'s \<Rightarrow> UserStore \<times> Tracker option"
  assumes refines: "map_prod id view (quota s u user) = policy_run d wr off clk (view s) u user"
begin

lemma decides: "fst (quota s u user) \<longleftrightarrow> policy_ok d wr off clk (fst (view s)) (snd (view s)) u user"
  using arg_cong [OF refines [of s u user], of fst] by (simp add: policy_run_decides)

lemma view_after: "view (snd (quota s u user)) = snd (policy_run d wr off clk (view s) u user)"
  using arg_cong [OF refines [of s u user], of snd] by simp

lemma keeps_users: "us_users (fst (view (snd (quota s u user)))) = us_users (fst (view s))"
  by (simp add: view_after policy_run_def Let_def case_prod_beta CheckRateLimit_frame split: option.splits)

lemma keeps_conns:
  "snd (view s) = Some t \<Longrightarrow>
   \<exists>t'. snd (view (snd (quota s u user))) = Some t' \<and> (\<forall>w. conns_of t' w = conns_of t w)"
  by (simp add: view_after policy_run_def Let_def case_prod_beta)

end

end
