(* ===== verification/Throttle.thy ===== *)
theory Throttle
  imports Go_Float
begin

text \<open>
  \<^verbatim>\<open>internal/bandwidth/throttle.go\<close>: the connection wrapper that limits a user's speed with a
  token bucket counted in bytes. The wrapped \<^verbatim>\<open>net.Conn\<close> is a parameter (the functions \<open>rd\<close>
  and \<open>wrt\<close> below). The proxies read and write one wrapped connection from two goroutines: the
  critical sections of their calls are the steps of the relation \<open>io_step\<close>.
\<close>

section \<open>Data and operations\<close>

record ThrottledConn =
  tc_tokens :: rat
  tc_maxTokens :: rat
  tc_refillRate :: rat
  tc_lastRefill :: time

text \<open>\<open>None\<close> when the connection is returned unwrapped.\<close>

definition NewThrottledConn :: "int \<Rightarrow> time \<Rightarrow> ThrottledConn option" where
  "NewThrottledConn speedMbps now =
     (if speedMbps \<le> 0 then None
      else let bytesPerSec = fdiv (fmul (fmul (float64 speedMbps) 1024) 1024) 8;
               maxTokens = bytesPerSec
           in Some \<lparr>tc_tokens = maxTokens, tc_maxTokens = maxTokens, tc_refillRate = bytesPerSec,
                    tc_lastRefill = now\<rparr>)"

definition consumeTokens :: "ThrottledConn \<Rightarrow> int \<Rightarrow> ThrottledConn" where
  "consumeTokens tc n = tc\<lparr>tc_tokens := fsub (tc_tokens tc) (float64 n)\<rparr>"

definition refill :: "ThrottledConn \<Rightarrow> time \<Rightarrow> ThrottledConn" where
  "refill tc now =
     (let elapsed = seconds (time_sub now (tc_lastRefill tc));
          tokens = fadd (tc_tokens tc) (fmul elapsed (tc_refillRate tc));
          tokens = (if tokens > tc_maxTokens tc then tc_maxTokens tc else tokens)
      in tc\<lparr>tc_tokens := tokens, tc_lastRefill := now\<rparr>)"

text \<open>The conversion of a float to a duration; out of range it gives the smallest 64-bit integer.\<close>

definition duration_of :: "rat \<Rightarrow> duration" where
  "duration_of x = (let n = trunc_rat x in if in_i64 n then n else - (2 ^ 63))"

text \<open>One turn of the loop of \<^verbatim>\<open>waitForTokens\<close>: \<open>None\<close> when it returns, or the time to sleep.\<close>

definition wait_turn :: "ThrottledConn \<Rightarrow> int \<Rightarrow> time \<Rightarrow> duration option \<times> ThrottledConn" where
  "wait_turn tc needed now =
     (let tc = refill tc now
      in if tc_tokens tc \<ge> 1 then (None, tc)
         else let deficit = fsub (float64 needed) (tc_tokens tc);
                  deficit = (if deficit < 1 then 1 else deficit);
                  w = duration_of (fmul (fdiv deficit (tc_refillRate tc)) (float64 second));
                  w = (if w < millisecond then millisecond else w);
                  w = (if w > 100 * millisecond then 100 * millisecond else w)
              in (Some w, tc))"

text \<open>
  The mutex is released while a turn sleeps and while the wrapped call runs, and the other goroutine
  of the relay may then enter its critical sections: a refill some time after the last one, or the
  consumption of what it moved.
\<close>

datatype critical_section = Refilled duration | Consumed int

fun critical :: "critical_section \<Rightarrow> ThrottledConn \<Rightarrow> ThrottledConn" where
  "critical (Refilled d) tc = refill tc (tc_lastRefill tc + d)"
| "critical (Consumed n) tc = consumeTokens tc n"

text \<open>
  The loop, with fuel. \<open>others i\<close> are the critical sections of the other goroutine after the \<open>i\<close>-th turn.
  \<^verbatim>\<open>time.Sleep\<close> sleeps at least as long as asked, and the clock does not run backwards: the next turn comes
  \<open>delay i\<close> after the sleep and the last refill. The result has the time of the return.
\<close>

fun waitForTokens ::
  "nat \<Rightarrow> (nat \<Rightarrow> critical_section list) \<Rightarrow> (nat \<Rightarrow> duration) \<Rightarrow> ThrottledConn \<Rightarrow> int \<Rightarrow> time \<Rightarrow> (ThrottledConn \<times> time) option"
where
  "waitForTokens 0 others delay tc needed now = None"
| "waitForTokens (Suc fuel) others delay tc needed now =
     (case wait_turn tc needed now of
        (None, tc) \<Rightarrow> Some (tc, now)
      | (Some w, tc) \<Rightarrow>
          let tc = fold critical (others 0) tc
          in waitForTokens fuel (\<lambda>i. others (Suc i)) (\<lambda>i. delay (Suc i)) tc needed
               (max (now + w) (tc_lastRefill tc) + delay 0))"

text \<open>\<open>during\<close> are the critical sections of the other goroutine while the wrapped call runs.\<close>

definition throttled_Read ::
  "nat \<Rightarrow> (nat \<Rightarrow> critical_section list) \<Rightarrow> critical_section list \<Rightarrow> (nat \<Rightarrow> duration) \<Rightarrow> (int \<Rightarrow> int \<times> 'e) \<Rightarrow>
     ThrottledConn \<Rightarrow> int \<Rightarrow> time \<Rightarrow> ((int \<times> 'e) \<times> ThrottledConn) option" where
  "throttled_Read fuel others during delay rd tc len now =
     (case waitForTokens fuel others delay tc len now of
        None \<Rightarrow> None
      | Some (tc, now) \<Rightarrow>
          let (n, err) = rd len;
              tc = fold critical during tc
          in Some ((n, err), if n > 0 then consumeTokens tc n else tc))"

definition throttled_Write ::
  "nat \<Rightarrow> (nat \<Rightarrow> critical_section list) \<Rightarrow> critical_section list \<Rightarrow> (nat \<Rightarrow> duration) \<Rightarrow> (int \<Rightarrow> int \<times> 'e) \<Rightarrow>
     ThrottledConn \<Rightarrow> int \<Rightarrow> time \<Rightarrow> ((int \<times> 'e) \<times> ThrottledConn) option" where
  "throttled_Write fuel others during delay wrt tc len now =
     (case waitForTokens fuel others delay tc len now of
        None \<Rightarrow> None
      | Some (tc, now) \<Rightarrow>
          let (n, err) = wrt len;
              tc = fold critical during tc
          in Some ((n, err), if n > 0 then consumeTokens tc n else tc))"

section \<open>Two goroutines on one connection\<close>

text \<open>
  A side is idle, waiting in \<^verbatim>\<open>waitForTokens\<close> for a buffer of some length, or past the wait and
  inside the wrapped call. \<open>io_total\<close> counts the bytes moved and \<open>io_steps\<close> the critical
  sections executed; both are only observed.
\<close>

datatype side = Reader | Writer
datatype phase = Idle | Waiting int | Granted int

record io_state =
  io_tc :: ThrottledConn
  io_phase :: "side \<Rightarrow> phase"
  io_total :: int
  io_steps :: nat

inductive io_step :: "io_state \<Rightarrow> io_state \<Rightarrow> bool" where
  Call: "io_phase s x = Idle \<Longrightarrow> 0 \<le> len \<Longrightarrow>
    io_step s (s\<lparr>io_phase := (io_phase s)(x := Waiting len)\<rparr>)"
| Turn: "io_phase s x = Waiting len \<Longrightarrow> tc_lastRefill (io_tc s) \<le> now \<Longrightarrow>
    wait_turn (io_tc s) len now = (r, tc') \<Longrightarrow>
    io_step s (s\<lparr>io_tc := tc', io_steps := Suc (io_steps s),
      io_phase := (io_phase s)(x := (if r = None then Granted len else Waiting len))\<rparr>)"
| Moved: "io_phase s x = Granted len \<Longrightarrow> 0 < n \<Longrightarrow> n \<le> len \<Longrightarrow>
    io_step s (s\<lparr>io_tc := consumeTokens (io_tc s) n, io_steps := Suc (io_steps s),
      io_phase := (io_phase s)(x := Idle), io_total := io_total s + n\<rparr>)"
| Nothing: "io_phase s x = Granted len \<Longrightarrow> io_step s (s\<lparr>io_phase := (io_phase s)(x := Idle)\<rparr>)"

definition io_start :: "ThrottledConn \<Rightarrow> io_state" where
  "io_start tc = \<lparr>io_tc = tc, io_phase = (\<lambda>_. Idle), io_total = 0, io_steps = 0\<rparr>"

text \<open>Runs whose buffers have at most \<open>B\<close> bytes.\<close>

inductive io_run :: "int \<Rightarrow> ThrottledConn \<Rightarrow> io_state \<Rightarrow> bool" for B tc where
  Start: "io_run B tc (io_start tc)"
| Step: "io_run B tc s \<Longrightarrow> io_step s s' \<Longrightarrow>
    (\<forall>x len. io_phase s' x = Waiting len \<longrightarrow> len \<le> B) \<Longrightarrow> io_run B tc s'"

section \<open>The bucket of a connection\<close>

definition throttle_ok :: "ThrottledConn \<Rightarrow> bool" where
  "throttle_ok tc \<longleftrightarrow> 2 ^ 17 \<le> tc_refillRate tc \<and> tc_maxTokens tc = tc_refillRate tc \<and>
     fl64 (tc_maxTokens tc) = tc_maxTokens tc \<and> fl64 (tc_tokens tc) = tc_tokens tc \<and>
     tc_tokens tc \<le> tc_maxTokens tc"

lemma refill_frame [simp]:
  "tc_maxTokens (refill tc now) = tc_maxTokens tc" "tc_refillRate (refill tc now) = tc_refillRate tc"
  "tc_lastRefill (refill tc now) = now"
  by (simp_all add: refill_def Let_def)

lemma refill_tokens:
  "tc_tokens (refill tc now) =
     min (fl64 (tc_tokens tc + fl64 (seconds (time_sub now (tc_lastRefill tc)) * tc_refillRate tc)))
       (tc_maxTokens tc)"
  by (simp add: refill_def Let_def fop_defs min_def)

lemma refill_ok: "throttle_ok tc \<Longrightarrow> throttle_ok (refill tc now)"
  by (auto simp: throttle_ok_def refill_tokens min_def)

lemma wait_turn_snd [simp]: "snd (wait_turn tc needed now) = refill tc now"
  by (simp add: wait_turn_def Let_def)

lemma wait_turn_returns: "fst (wait_turn tc needed now) = None \<longleftrightarrow> 1 \<le> tc_tokens (refill tc now)"
  by (simp add: wait_turn_def Let_def)

lemma wait_turn_sleep:
  "fst (wait_turn tc needed now) = Some w \<Longrightarrow> millisecond \<le> w \<and> w \<le> 100 * millisecond"
  by (auto simp: wait_turn_def Let_def millisecond_def split: if_splits)

lemma consume_frame [simp]:
  "tc_maxTokens (consumeTokens tc n) = tc_maxTokens tc"
  "tc_refillRate (consumeTokens tc n) = tc_refillRate tc"
  "tc_lastRefill (consumeTokens tc n) = tc_lastRefill tc"
  by (simp_all add: consumeTokens_def)

lemma consume_tokens:
  "0 \<le> n \<Longrightarrow> n \<le> 2 ^ 53 \<Longrightarrow> tc_tokens (consumeTokens tc n) = fl64 (tc_tokens tc - of_int n)"
  by (simp add: consumeTokens_def fsub_def)

lemma consume_ok: "throttle_ok tc \<Longrightarrow> 0 \<le> n \<Longrightarrow> n \<le> 2 ^ 53 \<Longrightarrow> throttle_ok (consumeTokens tc n)"
  by (auto simp: throttle_ok_def consume_tokens intro: f64.rnd_le_fixed)

lemma consume_lower:
  assumes "of_int m \<le> tc_tokens tc" "0 \<le> n" "n \<le> 2 ^ 53" "\<bar>m - n\<bar> \<le> 2 ^ 53"
  shows "of_int (m - n) \<le> tc_tokens (consumeTokens tc n)"
  unfolding consume_tokens [OF assms(2,3)]
proof (rule f64.rnd_ge_fixed)
  show "of_int (m - n) \<le> tc_tokens tc - of_int n" using assms(1) by simp
  show "fl64 (of_int (m - n)) = of_int (m - n)" using assms(4) by (rule fl64_of_int)
qed

text \<open>Refilling never lowers the count, and a millisecond is worth at least 99 bytes.\<close>

lemma refill_grows:
  assumes "throttle_ok tc" "tc_lastRefill tc \<le> now"
  shows "tc_tokens tc \<le> tc_tokens (refill tc now)"
proof -
  have "0 \<le> seconds (time_sub now (tc_lastRefill tc)) * tc_refillRate tc"
    using assms seconds_nonneg by (auto simp: throttle_ok_def)
  then have "tc_tokens tc \<le> fl64 (tc_tokens tc + fl64 (seconds (time_sub now (tc_lastRefill tc)) * tc_refillRate tc))"
    using assms by (intro f64.rnd_ge_fixed) (simp_all add: throttle_ok_def)
  then show ?thesis using assms by (simp add: refill_tokens throttle_ok_def)
qed

text \<open>
  A lower bound on the count, kept through the critical sections: \<open>p\<close> is the bound, at most one second
  of the slowest connection and at least minus four gigabytes. A nanosecond is worth 131 millionths of a
  byte or more, of which at least 120 survive the rounding; consuming rounds off less than a thousandth.
\<close>

lemma elapsed_credit:
  assumes "throttle_ok tc" "tc_lastRefill tc \<le> now"
  defines "d \<equiv> time_sub now (tc_lastRefill tc)"
  shows "125 / 10 ^ 6 * of_int d \<le> fl64 (seconds d * tc_refillRate tc)"
proof -
  have d: "0 \<le> d" "d < 2 ^ 63" using assms(2) by (auto simp: d_def time_sub_def)
  have "(1 - 3 * (1 / 2 ^ 53)) * (of_int d / 10 ^ 9) \<le> seconds d"
    using seconds_bounds(2) [of d] d by (simp only: left_diff_distrib mult_1)
  moreover have "(999 / 1000 :: rat) * (of_int d / 10 ^ 9) \<le> (1 - 3 * (1 / 2 ^ 53)) * (of_int d / 10 ^ 9)"
    using d(1) by (intro mult_right_mono) simp_all
  ultimately have s: "999 / 1000 * (of_int d / 10 ^ 9) \<le> seconds d" by linarith
  have "0 \<le> seconds d" using seconds_nonneg [OF assms(2)] by (simp add: d_def)
  then have "999 / 1000 * (of_int d / 10 ^ 9) * 2 ^ 17 \<le> seconds d * tc_refillRate tc"
    using s assms(1) by (intro mult_mono) (simp_all add: throttle_ok_def)
  then have m: "130 / 10 ^ 6 * of_int d \<le> seconds d * tc_refillRate tc" (is "?x \<le> _") using d(1) by (simp add: field_simps)
  have "\<bar>?x\<bar> / 2 ^ 53 \<le> 5 / 10 ^ 6 * of_int d" using d(1) by (simp add: field_simps)
  then have "125 / 10 ^ 6 * of_int d \<le> fl64 ?x" using fl64_error [of ?x] by linarith
  also have "\<dots> \<le> fl64 (seconds d * tc_refillRate tc)" using m by (rule fl64_mono)
  finally show ?thesis .
qed

lemma refill_bound:
  assumes "throttle_ok tc" "tc_lastRefill tc \<le> now" "p \<le> tc_tokens tc" "- (2 ^ 32) \<le> p" "p \<le> 2 ^ 17"
  shows "min (2 ^ 17) (p + 120 / 10 ^ 6 * of_int (now - tc_lastRefill tc)) \<le> tc_tokens (refill tc now)"
proof -
  define d where "d = time_sub now (tc_lastRefill tc)"
  define c where "c = fl64 (seconds d * tc_refillRate tc)"
  have c: "125 / 10 ^ 6 * of_int d \<le> c" using elapsed_credit [OF assms(1,2)] by (simp add: c_def d_def)
  have max: "2 ^ 17 \<le> tc_maxTokens tc" using assms(1) by (simp add: throttle_ok_def)
  have d: "0 \<le> d" "d = now - tc_lastRefill tc \<or> d = 2 ^ 63 - 1" using assms(2) by (auto simp: d_def time_sub_def)
  have sum: "p + 125 / 10 ^ 6 * of_int d \<le> tc_tokens tc + c" using assms(3) c by linarith
  have eq: "tc_tokens (refill tc now) = min (fl64 (tc_tokens tc + c)) (tc_maxTokens tc)" by (simp add: refill_tokens c_def d_def)
  have "min (2 ^ 17) (p + 120 / 10 ^ 6 * of_int (now - tc_lastRefill tc)) \<le> fl64 (tc_tokens tc + c)"
  proof (cases "2 ^ 17 \<le> p + 125 / 10 ^ 6 * of_int d")
    case True
    then have "2 ^ 17 \<le> fl64 (tc_tokens tc + c)" using sum by (intro f64.rnd_ge_fixed) simp_all
    then show ?thesis by simp
  next
    case False
    then have "of_int d < (2 ^ 63 - 1 :: rat)" using assms(4) by (simp add: field_simps)
    then have "of_int d < (of_int (2 ^ 63 - 1) :: rat)" by simp
    then have "d < 2 ^ 63 - 1" by (simp only: of_int_less_iff)
    then have dn: "d = now - tc_lastRefill tc" using d(2) by simp
    show ?thesis
    proof (cases "d = 0")
      case True
      then have "p \<le> tc_tokens (refill tc now)" using refill_grows [OF assms(1,2)] assms(3) by simp
      then show ?thesis using True dn eq by (simp add: min_le_iff_disj)
    next
      case pos: False
      then have one: "(1 :: rat) \<le> of_int d" using d(1) by simp
      let ?x = "p + 125 / 10 ^ 6 * of_int d"
      have "\<bar>?x\<bar> \<le> 2 ^ 32" using False assms(4) d(1) by (simp add: abs_le_iff)
      then have "\<bar>?x\<bar> / 2 ^ 53 \<le> 2 ^ 32 / 2 ^ 53" by (rule divide_right_mono) simp
      also have "\<dots> \<le> 5 / 10 ^ 6 * of_int d" using one by simp
      finally have "p + 120 / 10 ^ 6 * of_int d \<le> fl64 ?x" using fl64_error [of ?x] by linarith
      also have "\<dots> \<le> fl64 (tc_tokens tc + c)" using sum by (rule fl64_mono)
      finally show ?thesis using dn by simp
    qed
  qed
  then show ?thesis using max by (simp add: eq)
qed

lemma consume_bound:
  assumes "p \<le> tc_tokens tc" "- (2 ^ 32) \<le> p" "p \<le> 2 ^ 17" "0 < n" "n \<le> 2 ^ 31"
  shows "p - 1001 / 1000 * of_int n \<le> tc_tokens (consumeTokens tc n)"
proof -
  have n: "(1 :: rat) \<le> of_int n" "of_int n \<le> (2 ^ 31 :: rat)"
    using assms(4,5) of_int_le_iff [of n "2 ^ 31"] by simp_all
  have "\<bar>p - of_int n\<bar> \<le> 2 ^ 33" using assms(2,3) n by (simp add: abs_le_iff)
  then have "\<bar>p - of_int n\<bar> / 2 ^ 53 \<le> 2 ^ 33 / 2 ^ 53" by (rule divide_right_mono) simp
  also have "\<dots> \<le> 1 / 1000 * of_int n" using n(1) by simp
  finally have "p - 1001 / 1000 * of_int n \<le> fl64 (p - of_int n)" using fl64_error [of "p - of_int n"] by linarith
  also have "\<dots> \<le> fl64 (tc_tokens tc - of_int n)" using assms(1) by (intro fl64_mono) simp
  finally show ?thesis using consume_tokens [of n tc] assms(4,5) by simp
qed

section \<open>The wait ends\<close>

text \<open>What the other goroutine moves in its critical sections, and that these are possible ones.\<close>

fun moved :: "critical_section list \<Rightarrow> int" where
  "moved [] = 0"
| "moved (Refilled d # cs) = moved cs"
| "moved (Consumed n # cs) = n + moved cs"

fun critical_ok :: "critical_section \<Rightarrow> bool" where
  "critical_ok (Refilled d) = (0 \<le> d)"
| "critical_ok (Consumed n) = (0 < n)"

lemma moved_nonneg: "list_all critical_ok cs \<Longrightarrow> 0 \<le> moved cs"
  by (induction cs rule: moved.induct) auto

text \<open>
  The bound through a list of critical sections: it rises with the time that the refills cover, up to one
  second of bandwidth, and falls with the bytes consumed.
\<close>

lemma sections_bound:
  assumes "list_all critical_ok cs" "throttle_ok tc" "p \<le> tc_tokens tc" "p \<le> 2 ^ 17"
    and "- (2 ^ 32) \<le> p - 1001 / 1000 * of_int (moved cs)" "moved cs \<le> 2 ^ 31"
  defines "tc' \<equiv> fold critical cs tc"
  shows "throttle_ok tc' \<and> tc_lastRefill tc \<le> tc_lastRefill tc' \<and>
    min (2 ^ 17) (p + 120 / 10 ^ 6 * of_int (tc_lastRefill tc' - tc_lastRefill tc)) - 1001 / 1000 * of_int (moved cs) \<le> tc_tokens tc'"
  using assms(1-6) unfolding tc'_def
proof (induction cs arbitrary: tc p rule: moved.induct)
  case (2 d cs)
  define tc1 where "tc1 = refill tc (tc_lastRefill tc + d)"
  define q where "q = min (2 ^ 17) (p + 120 / 10 ^ 6 * of_int d)"
  define tc2 where "tc2 = fold critical cs tc1"
  have d: "0 \<le> d" and cs: "list_all critical_ok cs" using 2(2) by simp_all
  have m: "0 \<le> (of_int (moved cs) :: rat)" using moved_nonneg [OF cs] by simp
  have p: "- (2 ^ 32) \<le> p" using 2(6) m by simp
  have last: "tc_lastRefill tc1 = tc_lastRefill tc + d" by (simp add: tc1_def)
  have "q \<le> tc_tokens tc1" using refill_bound [OF 2(3) _ 2(4) p 2(5), of "tc_lastRefill tc + d"] d by (simp add: tc1_def q_def)
  moreover have "p \<le> q" "q \<le> 2 ^ 17" using 2(5) d by (simp_all add: q_def)
  moreover have "throttle_ok tc1" using 2(3) by (simp add: tc1_def refill_ok)
  ultimately have IH: "throttle_ok tc2 \<and> tc_lastRefill tc1 \<le> tc_lastRefill tc2 \<and>
      min (2 ^ 17) (q + 120 / 10 ^ 6 * of_int (tc_lastRefill tc2 - tc_lastRefill tc1)) - 1001 / 1000 * of_int (moved cs) \<le> tc_tokens tc2"
    using 2(1) [OF cs, of tc1 q] 2(6,7) by (simp add: tc2_def)
  define e where "e = tc_lastRefill tc2 - tc_lastRefill tc1"
  have "0 \<le> (of_int e :: rat)" using IH by (simp add: e_def)
  then have "min (2 ^ 17) (p + 120 / 10 ^ 6 * of_int (e + d)) \<le> min (2 ^ 17) (q + 120 / 10 ^ 6 * of_int e)"
    by (simp add: q_def min_def field_simps)
  with IH have "min (2 ^ 17) (p + 120 / 10 ^ 6 * of_int (e + d)) - 1001 / 1000 * of_int (moved cs) \<le> tc_tokens tc2"
    unfolding e_def [symmetric] by linarith
  moreover have "tc_lastRefill tc2 - tc_lastRefill tc = e + d" by (simp add: e_def last)
  moreover have "fold critical (Refilled d # cs) tc = tc2" by (simp add: tc1_def tc2_def)
  ultimately show ?case using IH d last by (simp only: moved.simps) simp
next
  case (3 n cs)
  define tc1 where "tc1 = consumeTokens tc n"
  define q where "q = p - 1001 / 1000 * of_int n"
  define tc2 where "tc2 = fold critical cs tc1"
  have n: "0 < n" "0 \<le> (of_int n :: rat)" and cs: "list_all critical_ok cs" using 3(2) by simp_all
  have m: "0 \<le> (of_int (moved cs) :: rat)" "0 \<le> moved cs" using moved_nonneg [OF cs] by simp_all
  have small: "n \<le> 2 ^ 31" "moved cs \<le> 2 ^ 31" using 3(7) m(2) n(1) by simp_all
  have low: "- (2 ^ 32) \<le> q - 1001 / 1000 * of_int (moved cs)" using 3(6) by (simp add: q_def distrib_left)
  then have p: "- (2 ^ 32) \<le> p" using m(1) n by (simp add: q_def)
  have bound: "q \<le> tc_tokens tc1" using consume_bound [OF 3(4) p 3(5) n(1) small(1)] by (simp add: q_def tc1_def)
  have "q \<le> 2 ^ 17" using 3(5) n(2) by (simp add: q_def)
  moreover have "throttle_ok tc1" using consume_ok [OF 3(3), of n] n(1) small(1) by (simp add: tc1_def)
  ultimately have IH: "throttle_ok tc2 \<and> tc_lastRefill tc1 \<le> tc_lastRefill tc2 \<and>
      min (2 ^ 17) (q + 120 / 10 ^ 6 * of_int (tc_lastRefill tc2 - tc_lastRefill tc1)) - 1001 / 1000 * of_int (moved cs) \<le> tc_tokens tc2"
    using 3(1) [OF cs _ bound _ low small(2)] by (simp add: tc2_def)
  have "min (2 ^ 17) (p + x) - 1001 / 1000 * of_int n \<le> min (2 ^ 17) (q + x)" for x :: rat
    using n(2) by (simp add: min_def q_def)
  moreover have last: "tc_lastRefill tc1 = tc_lastRefill tc" by (simp add: tc1_def)
  ultimately have "min (2 ^ 17) (p + 120 / 10 ^ 6 * of_int (tc_lastRefill tc2 - tc_lastRefill tc)) - 1001 / 1000 * of_int n
      \<le> min (2 ^ 17) (q + 120 / 10 ^ 6 * of_int (tc_lastRefill tc2 - tc_lastRefill tc1))" by simp
  with IH have "min (2 ^ 17) (p + 120 / 10 ^ 6 * of_int (tc_lastRefill tc2 - tc_lastRefill tc)) -
      (1001 / 1000 * of_int n + 1001 / 1000 * of_int (moved cs)) \<le> tc_tokens tc2" by linarith
  moreover have "fold critical (Consumed n # cs) tc = tc2" by (simp add: tc1_def tc2_def)
  ultimately show ?case using IH last by (simp only: moved.simps of_int_add distrib_left)
qed simp

text \<open>In whole bytes the bound is exact, and refills never lower it.\<close>

lemma sections_bytes:
  assumes "list_all critical_ok cs" "throttle_ok tc" "of_int m \<le> tc_tokens tc" "m \<le> 2 ^ 32" "moved cs \<le> 2 ^ 31"
    and "- (2 ^ 33) \<le> m - moved cs"
  shows "throttle_ok (fold critical cs tc) \<and> of_int (m - moved cs) \<le> tc_tokens (fold critical cs tc)"
  using assms
proof (induction cs arbitrary: tc m rule: moved.induct)
  case (2 d cs)
  then have "of_int m \<le> tc_tokens (refill tc (tc_lastRefill tc + d))"
    using refill_grows [of tc "tc_lastRefill tc + d"] by simp
  then show ?case using 2 by (simp add: refill_ok)
next
  case (3 n cs)
  have m: "0 < n" "0 \<le> moved cs" using 3(2) moved_nonneg by auto
  then have "of_int (m - n) \<le> tc_tokens (consumeTokens tc n)" using 3(4-7) by (intro consume_lower) simp_all
  moreover have "throttle_ok (consumeTokens tc n)" using 3(3,6) m by (intro consume_ok) simp_all
  ultimately show ?case using 3(1) [of "consumeTokens tc n" "m - n"] 3(2,5-7) m by (simp add: diff_diff_eq)
qed simp

text \<open>
  A turn that sleeps is worth 120 bytes, less what the other goroutine consumed meanwhile: \<open>p\<close> bounds the
  count when the turn ends, and \<open>now2\<close> is the time of the next turn.
\<close>

lemma sleep_gain:
  fixes cs tc1
  defines "tc2 \<equiv> fold critical cs tc1" and "m \<equiv> 1001 / 1000 * (of_int (moved cs) :: rat)"
  assumes "list_all critical_ok cs" "throttle_ok tc1" "p \<le> tc_tokens tc1" "p < 1" "- (2 ^ 32) \<le> p - m" "moved cs \<le> 2 ^ 31"
    and "tc_lastRefill tc1 + millisecond \<le> now2" "tc_lastRefill tc2 \<le> now2"
  shows "throttle_ok tc2 \<and> p + 120 - m \<le> tc_tokens (refill tc2 now2)"
proof -
  define x where "x = 120 / 10 ^ 6 * (of_int (tc_lastRefill tc2 - tc_lastRefill tc1) :: rat)"
  define y where "y = 120 / 10 ^ 6 * (of_int (now2 - tc_lastRefill tc2) :: rat)"
  have m: "0 \<le> m" using moved_nonneg [OF assms(3)] by (simp add: m_def)
  have sec: "throttle_ok tc2 \<and> tc_lastRefill tc1 \<le> tc_lastRefill tc2 \<and> min (2 ^ 17) (p + x) - m \<le> tc_tokens tc2"
    using sections_bound [OF assms(3-5)] assms(6-8) by (simp add: tc2_def m_def x_def)
  have "of_int (10 ^ 6) \<le> (of_int ((tc_lastRefill tc2 - tc_lastRefill tc1) + (now2 - tc_lastRefill tc2)) :: rat)"
    using assms(9) unfolding of_int_le_iff by (simp add: millisecond_def)
  then have xy: "120 \<le> x + y" "0 \<le> x" "0 \<le> y" using sec assms(10) by (simp_all add: x_def y_def field_simps)
  let ?q = "min (2 ^ 17) (p + x) - m"
  have px: "p \<le> min (2 ^ 17) (p + x)" "min (2 ^ 17) (p + x) \<le> 2 ^ 17" using xy(2) assms(6) by simp_all
  have q: "?q \<le> tc_tokens tc2" "- (2 ^ 32) \<le> ?q" "?q \<le> 2 ^ 17" using sec assms(7) m px by linarith+
  have "p + 120 - m \<le> min (2 ^ 17) (?q + y)" using xy assms(6) m by (simp add: min_def)
  also have "\<dots> \<le> tc_tokens (refill tc2 now2)" using refill_bound [OF _ assms(10) q] sec by (simp add: y_def)
  finally show ?thesis using sec by blast
qed

text \<open>The wait, from a bound \<open>p\<close> on the count after the first refill.\<close>

lemma wait_ends:
  assumes "throttle_ok tc" "tc_lastRefill tc \<le> now" "\<And>i. list_all critical_ok (others i)" "\<And>i. 0 \<le> delay i"
    and "p \<le> tc_tokens (refill tc now)" "spent = (\<Sum>i<k. moved (others i))" "spent \<le> 2 ^ 31"
    and "- (2 ^ 32) \<le> p - 1001 / 1000 * of_int spent" "1 - p + 1001 / 1000 * of_int spent \<le> 120 * of_nat k"
  shows "\<exists>tc' now'. waitForTokens (Suc k) others delay tc needed now = Some (tc', now') \<and> throttle_ok tc' \<and> 1 \<le> tc_tokens tc'"
  using assms
proof (induction k arbitrary: tc now others delay p spent)
  case 0
  then have "1 \<le> tc_tokens (refill tc now)" by simp
  then have "wait_turn tc needed now = (None, refill tc now)"
    using wait_turn_returns [of tc needed now] wait_turn_snd [of tc needed now] by (metis prod.collapse)
  then show ?case using \<open>1 \<le> tc_tokens (refill tc now)\<close> 0(1) refill_ok [of tc now] by simp
next
  case (Suc k)
  define tc1 where "tc1 = refill tc now"
  have ok1: "throttle_ok tc1" using Suc.prems(1) by (simp add: tc1_def refill_ok)
  obtain r where r: "wait_turn tc needed now = (r, tc1)" by (metis tc1_def wait_turn_snd prod.collapse)
  show ?case
  proof (cases r)
    case None
    then have "1 \<le> tc_tokens tc1" using wait_turn_returns [of tc needed now] by (simp add: r tc1_def)
    then show ?thesis using ok1 None by (simp add: r)
  next
    case (Some w)
    define m where "m = moved (others 0)"
    define tc2 where "tc2 = fold critical (others 0) tc1"
    define now2 where "now2 = max (now + w) (tc_lastRefill tc2) + delay 0"
    have spent: "spent = m + (\<Sum>i<k. moved (others (Suc i)))" using Suc.prems(6) by (simp add: m_def sum.lessThan_Suc_shift del: sum.lessThan_Suc)
    have pos: "0 \<le> moved (others i)" for i using Suc.prems(3) moved_nonneg by blast
    have rest: "0 \<le> (\<Sum>i<k. moved (others (Suc i)))" by (intro sum_nonneg) (simp add: pos)
    have m0: "0 \<le> m" "m \<le> spent" using pos [of 0] rest spent by (simp_all add: m_def)
    have lt: "tc_tokens tc1 < 1" using wait_turn_returns [of tc needed now] by (simp add: r Some tc1_def not_le)
    then have p1: "p \<le> tc_tokens tc1" "p < 1" using Suc.prems(5) by (simp_all add: tc1_def)
    have mr: "(of_int m :: rat) \<le> of_int spent" "0 \<le> (of_int m :: rat)" using m0 by (simp_all only: of_int_le_iff of_int_0_le_iff)
    have low: "- (2 ^ 32) \<le> p - 1001 / 1000 * of_int m" using Suc.prems(8) mr by linarith
    have "millisecond \<le> w" using wait_turn_sleep [of tc needed now w] by (simp add: r Some)
    then have n2: "tc_lastRefill tc1 + millisecond \<le> now2" "tc_lastRefill tc2 \<le> now2"
      using Suc.prems(4) [of 0] by (auto simp: now2_def tc1_def)
    have gain: "throttle_ok tc2" "p + 120 - 1001 / 1000 * of_int m \<le> tc_tokens (refill tc2 now2)"
      using sleep_gain [OF Suc.prems(3) ok1 p1 _ _ n2(1), of 0] low m0 Suc.prems(7) n2(2) by (simp_all add: tc2_def m_def)
    have "of_int spent = (of_int m + of_int (\<Sum>i<k. moved (others (Suc i))) :: rat)" unfolding spent by (simp only: of_int_add)
    then have "\<exists>tc' now'. waitForTokens (Suc k) (\<lambda>i. others (Suc i)) (\<lambda>i. delay (Suc i)) tc2 needed now2 = Some (tc', now') \<and>
        throttle_ok tc' \<and> 1 \<le> tc_tokens tc'"
      using Suc.prems(3,4,7-9) gain n2(2) spent m0
      by (intro Suc.IH [where p = "p + 120 - 1001 / 1000 * of_int m" and spent = "\<Sum>i<k. moved (others (Suc i))"])
        (simp_all add: algebra_simps)
    then show ?thesis by (simp add: r Some Let_def tc2_def now2_def)
  qed
qed

lemma wait_returns:
  assumes "throttle_ok tc" "tc_lastRefill tc \<le> now" "\<And>i. list_all critical_ok (others i)" "\<And>i. 0 \<le> delay i"
    and "- (2 ^ 30) \<le> tc_tokens tc" "(\<Sum>i<k. moved (others i)) \<le> 2 ^ 30"
    and "1 - tc_tokens tc + of_int (\<Sum>i<k. moved (others i)) \<le> 99 * of_nat k"
  shows "\<exists>tc' now'. waitForTokens (Suc k) others delay tc needed now = Some (tc', now') \<and> throttle_ok tc' \<and> 1 \<le> tc_tokens tc'"
proof (cases "1 \<le> tc_tokens tc")
  case True
  then have "1 \<le> tc_tokens (refill tc now)" using refill_grows [OF assms(1,2)] by simp
  then have "wait_turn tc needed now = (None, refill tc now)"
    using wait_turn_returns [of tc needed now] wait_turn_snd [of tc needed now] by (metis prod.collapse)
  then show ?thesis using \<open>1 \<le> tc_tokens (refill tc now)\<close> refill_ok [OF assms(1)] by simp
next
  case False
  define D :: rat where "D = of_int (\<Sum>i<k. moved (others i))"
  have "of_int (\<Sum>i<k. moved (others i)) \<le> (of_int (2 ^ 30) :: rat)" using assms(6) by (simp only: of_int_le_iff)
  then have D: "D \<le> 2 ^ 30" "1 - tc_tokens tc + D \<le> 99 * of_nat k" using assms(7) by (simp_all add: D_def)
  have "1 - tc_tokens tc + 1001 / 1000 * D \<le> 120 * of_nat k" using D(2) False by linarith
  then show ?thesis
    using assms(1-6) D(1) refill_grows [OF assms(1,2)]
    by (intro wait_ends [where p = "tc_tokens tc" and spent = "\<Sum>i<k. moved (others i)"]) (simp_all add: D_def)
qed

lemma new_throttle:
  assumes "0 < speedMbps" "speedMbps \<le> 2 ^ 53"
  shows "NewThrottledConn speedMbps now =
    Some \<lparr>tc_tokens = of_int speedMbps * 2 ^ 17, tc_maxTokens = of_int speedMbps * 2 ^ 17,
          tc_refillRate = of_int speedMbps * 2 ^ 17, tc_lastRefill = now\<rparr>"
    and "throttle_ok \<lparr>tc_tokens = of_int speedMbps * 2 ^ 17, tc_maxTokens = of_int speedMbps * 2 ^ 17,
          tc_refillRate = of_int speedMbps * 2 ^ 17, tc_lastRefill = now\<rparr>"
proof -
  have ex: "fl64 (of_int speedMbps * 2 ^ k) = of_int speedMbps * 2 ^ k" for k
  proof (rule fl64_representable)
    show "representable (of_int speedMbps * 2 ^ k)"
      unfolding representable_def using assms
      by (intro exI [of _ speedMbps] exI [of _ "int k"]) simp
  qed
  show "NewThrottledConn speedMbps now =
    Some \<lparr>tc_tokens = of_int speedMbps * 2 ^ 17, tc_maxTokens = of_int speedMbps * 2 ^ 17,
          tc_refillRate = of_int speedMbps * 2 ^ 17, tc_lastRefill = now\<rparr>"
    using assms ex [of 10] ex [of 20] ex [of 17]
    by (simp add: NewThrottledConn_def Let_def fop_defs mult.commute [of _ "of_int speedMbps"])
  show "throttle_ok \<lparr>tc_tokens = of_int speedMbps * 2 ^ 17, tc_maxTokens = of_int speedMbps * 2 ^ 17,
          tc_refillRate = of_int speedMbps * 2 ^ 17, tc_lastRefill = now\<rparr>"
    using assms ex [of 17] by (simp add: throttle_ok_def)
qed

section \<open>The invariant of concurrent use\<close>

definition is_granted :: "phase \<Rightarrow> bool" where
  "is_granted p \<longleftrightarrow> (case p of Granted _ \<Rightarrow> True | _ \<Rightarrow> False)"

definition granted_sides :: "io_state \<Rightarrow> int" where
  "granted_sides s = of_bool (is_granted (io_phase s Reader)) + of_bool (is_granted (io_phase s Writer))"

text \<open>The longest buffer a side is busy with.\<close>

fun phase_len :: "phase \<Rightarrow> int" where
  "phase_len Idle = 0"
| "phase_len (Waiting len) = len"
| "phase_len (Granted len) = len"

definition io_ok :: "int \<Rightarrow> io_state \<Rightarrow> bool" where
  "io_ok B s \<longleftrightarrow> throttle_ok (io_tc s) \<and> (\<forall>x. phase_len (io_phase s x) \<le> B) \<and>
     of_int (1 - (2 - granted_sides s) * B) \<le> tc_tokens (io_tc s)"

lemma granted_sides_bounds: "0 \<le> granted_sides s" "granted_sides s \<le> 2"
  by (simp_all add: granted_sides_def)

lemma granted_sides_upd:
  "granted_sides (s\<lparr>io_phase := (io_phase s)(x := p)\<rparr>)
     = granted_sides s - of_bool (is_granted (io_phase s x)) + of_bool (is_granted p)"
  by (cases x) (simp_all add: granted_sides_def)

lemma granted_sides_cong: "io_phase s' = io_phase s \<Longrightarrow> granted_sides s' = granted_sides s"
  by (simp add: granted_sides_def)

lemma io_step_ok:
  assumes "io_step s s'" "io_ok B s" "0 \<le> B" "B \<le> 2 ^ 40"
    and "\<forall>x len. io_phase s' x = Waiting len \<longrightarrow> len \<le> B"
  shows "io_ok B s'"
  using assms
proof (cases rule: io_step.cases)
  case (Call x len)
  have "len \<le> B" using assms(5) [rule_format, of x len] Call(1) by simp
  then show ?thesis using Call(1,2) assms(2)
    by (auto simp: io_ok_def granted_sides_upd is_granted_def)
next
  case (Turn x len now r tc')
  let ?g = "granted_sides s"
  have tc': "tc' = refill (io_tc s) now" using Turn(4) wait_turn_snd by (metis snd_conv)
  have ok: "throttle_ok tc'" using assms(2) by (simp add: tc' io_ok_def refill_ok)
  have grow: "tc_tokens (io_tc s) \<le> tc_tokens tc'"
    using assms(2) Turn(3) by (simp add: tc' io_ok_def refill_grows)
  have g': "granted_sides s' = ?g + of_bool (r = None)"
    using granted_sides_upd [of s x "if r = None then Granted len else Waiting len"] Turn(2)
    unfolding Turn(1) by (simp add: granted_sides_def is_granted_def split: if_splits)
  have "of_int (1 - (2 - granted_sides s') * B) \<le> tc_tokens tc'"
  proof (cases "r = None")
    case True
    then have "1 \<le> tc_tokens tc'" using wait_turn_returns Turn(4) tc' by (metis fst_conv)
    moreover have "0 \<le> (2 - granted_sides s') * B" using granted_sides_bounds assms(3) by simp
    then have "(of_int (1 - (2 - granted_sides s') * B) :: rat) \<le> of_int 1" by (simp only: of_int_le_iff)
    ultimately show ?thesis by simp
  next
    case False
    then have "granted_sides s' = ?g" using g' by simp
    then show ?thesis using grow assms(2) by (auto simp: io_ok_def)
  qed
  moreover have "len \<le> B" using assms(2) Turn(2) unfolding io_ok_def by (metis phase_len.simps(2))
  then have "\<forall>y. phase_len (io_phase s' y) \<le> B" using assms(2) Turn(1) by (auto simp: io_ok_def)
  ultimately show ?thesis using ok Turn(1) by (simp add: io_ok_def)
next
  case (Moved x len n)
  let ?g = "granted_sides s"
  have "len \<le> B" using assms(2) Moved(2) unfolding io_ok_def by (metis phase_len.simps(3))
  then have n: "0 \<le> n" "n \<le> B" using Moved(3,4) by simp_all
  have g': "granted_sides s' = ?g - 1"
    using granted_sides_upd [of s x Idle] Moved(2)
    unfolding Moved(1) by (simp add: granted_sides_def is_granted_def)
  have b: "0 \<le> (2 - ?g) * B" "(2 - ?g) * B \<le> 2 * B"
    using granted_sides_bounds assms(3) by (auto intro: mult_right_mono)
  have "of_int (1 - (2 - ?g) * B - n) \<le> tc_tokens (consumeTokens (io_tc s) n)"
    using assms(2,4) n b by (intro consume_lower) (auto simp: io_ok_def)
  moreover have "1 - (2 - granted_sides s') * B \<le> 1 - (2 - ?g) * B - n"
    using n by (simp add: g' algebra_simps)
  then have "(of_int (1 - (2 - granted_sides s') * B) :: rat) \<le> of_int (1 - (2 - ?g) * B - n)"
    by (simp only: of_int_le_iff)
  ultimately have "of_int (1 - (2 - granted_sides s') * B) \<le> tc_tokens (io_tc s')"
    using Moved(1) by (simp only: io_state.simps) simp
  moreover have "throttle_ok (io_tc s')" using assms(2,4) n Moved(1) by (simp add: io_ok_def consume_ok)
  moreover have "\<forall>y. phase_len (io_phase s' y) \<le> B" using assms(2,3) Moved(1) by (auto simp: io_ok_def)
  ultimately show ?thesis by (simp add: io_ok_def)
next
  case (Nothing x len)
  have g': "granted_sides s' = granted_sides s - 1"
    using granted_sides_upd [of s x Idle] Nothing(2) unfolding Nothing(1) by (simp add: is_granted_def)
  have "1 - (2 - granted_sides s') * B \<le> 1 - (2 - granted_sides s) * B"
    using assms(3) by (simp add: g' algebra_simps)
  then have "(of_int (1 - (2 - granted_sides s') * B) :: rat) \<le> of_int (1 - (2 - granted_sides s) * B)"
    by (simp only: of_int_le_iff)
  then show ?thesis using assms(2,3) Nothing(1) by (auto simp: io_ok_def)
qed

lemma io_ok_debt:
  assumes "io_ok B s" "0 \<le> B"
  shows "of_int (1 - 2 * B) \<le> tc_tokens (io_tc s)"
proof -
  have "1 - 2 * B \<le> 1 - (2 - granted_sides s) * B"
    using assms(2) granted_sides_bounds(1) [of s] by (simp add: algebra_simps)
  then have "(of_int (1 - 2 * B) :: rat) \<le> of_int (1 - (2 - granted_sides s) * B)"
    by (simp only: of_int_le_iff)
  then show ?thesis using assms(1) by (auto simp only: io_ok_def)
qed

text \<open>Bytes moved plus tokens left, against the burst and the worth of the time gone by.\<close>

definition io_bound :: "int \<Rightarrow> ThrottledConn \<Rightarrow> io_state \<Rightarrow> bool" where
  "io_bound B tc s \<longleftrightarrow>
     tc_refillRate (io_tc s) = tc_refillRate tc \<and> tc_maxTokens (io_tc s) = tc_maxTokens tc \<and>
     tc_lastRefill tc \<le> tc_lastRefill (io_tc s) \<and>
     tc_tokens (io_tc s) + of_int (io_total s)
       \<le> tc_tokens tc + of_int (tc_lastRefill (io_tc s) - tc_lastRefill tc) / 10 ^ 9 * tc_refillRate tc
          + of_nat (io_steps s) * ((tc_maxTokens tc + of_int (3 * B)) / 2 ^ 50)"

lemma refill_potential:
  assumes "throttle_ok tc" "tc_lastRefill tc \<le> now" "of_int (1 - 2 * B) \<le> tc_tokens tc" "0 \<le> B"
  shows "tc_tokens (refill tc now)
    \<le> tc_tokens tc + of_int (now - tc_lastRefill tc) / 10 ^ 9 * tc_refillRate tc
       + (tc_maxTokens tc + of_int (3 * B)) / 2 ^ 50"
proof -
  let ?g = "of_int (now - tc_lastRefill tc) / 10 ^ 9 * tc_refillRate tc"
  have r: "0 \<le> tc_refillRate tc" "0 \<le> tc_maxTokens tc" "tc_tokens tc \<le> tc_maxTokens tc"
    using assms(1) by (auto simp: throttle_ok_def)
  have l: "- of_int (3 * B) \<le> tc_tokens tc" using assms(3,4) by (simp add: algebra_simps)
  have "tc_tokens (refill tc now) \<le> tc_tokens tc + ?g + 8 * (1 / 2 ^ 53) * (tc_maxTokens tc + of_int (3 * B))"
    unfolding refill_tokens
    using r l assms seconds_credit_upper [OF assms(2) r(1)] seconds_nonneg [OF assms(2)]
    by (intro f64.refill_upper_debt) auto
  then show ?thesis by simp
qed

lemma consume_potential:
  assumes "throttle_ok tc" "of_int (1 - 2 * B) \<le> tc_tokens tc" "0 \<le> n" "n \<le> B" "B \<le> 2 ^ 40"
  shows "tc_tokens (consumeTokens tc n) + of_int n
    \<le> tc_tokens tc + (tc_maxTokens tc + of_int (3 * B)) / 2 ^ 50"
proof -
  have n: "(0 :: rat) \<le> of_int n" "of_int n \<le> (of_int B :: rat)"
    using assms(3,4) by (simp_all only: of_int_0_le_iff of_int_le_iff)
  have "\<bar>tc_tokens tc - of_int n\<bar> \<le> tc_maxTokens tc + of_int (3 * B)"
    using assms(1,2) n by (simp add: throttle_ok_def abs_le_iff)
  moreover from this have "0 \<le> tc_maxTokens tc + of_int (3 * B)" by linarith
  ultimately have "\<bar>tc_tokens tc - of_int n\<bar> / 2 ^ 53 \<le> (tc_maxTokens tc + of_int (3 * B)) / 2 ^ 50"
    by (intro frac_le) simp_all
  with fl64_error [of "tc_tokens tc - of_int n"]
  have "fl64 (tc_tokens tc - of_int n) + of_int n \<le> tc_tokens tc + (tc_maxTokens tc + of_int (3 * B)) / 2 ^ 50"
    by linarith
  then show ?thesis using consume_tokens [of n tc] assms(3-5) by simp
qed

lemma io_step_bound:
  assumes "io_step s s'" "io_ok B s" "io_bound B tc s" "0 \<le> B" "B \<le> 2 ^ 40"
  shows "io_bound B tc s'"
  using assms
proof (cases rule: io_step.cases)
  case (Turn x len now r tc')
  define K where "K = (tc_maxTokens tc + of_int (3 * B)) / 2 ^ 50"
  have tc': "tc' = refill (io_tc s) now" using Turn(4) wait_turn_snd by (metis snd_conv)
  have "tc_tokens tc' \<le> tc_tokens (io_tc s)
      + of_int (now - tc_lastRefill (io_tc s)) / 10 ^ 9 * tc_refillRate tc + K"
    using refill_potential [of "io_tc s" now B] io_ok_debt [OF assms(2,4)] assms Turn(3)
    by (auto simp: tc' io_ok_def io_bound_def K_def)
  then show ?thesis
    using assms(3) Turn(1,3) unfolding io_bound_def K_def [symmetric]
    by (simp add: tc' field_simps)
next
  case (Moved x len n)
  define K where "K = (tc_maxTokens tc + of_int (3 * B)) / 2 ^ 50"
  have "len \<le> B" using assms(2) Moved(2) unfolding io_ok_def by (metis phase_len.simps(3))
  then have "n \<le> B" using Moved(4) by simp
  then have "tc_tokens (consumeTokens (io_tc s) n) + of_int n \<le> tc_tokens (io_tc s) + K"
    using consume_potential [of "io_tc s" B n] io_ok_debt [OF assms(2,4)] assms(2,3,5) Moved(3)
    by (auto simp: io_ok_def io_bound_def K_def)
  then show ?thesis
    using assms(3) Moved(1) unfolding io_bound_def K_def [symmetric] by (simp add: distrib_right)
qed (auto simp: io_bound_def)

lemma io_run_invariant:
  assumes "io_run B tc s" "throttle_ok tc" "of_int (1 - 2 * B) \<le> tc_tokens tc" "0 \<le> B" "B \<le> 2 ^ 40"
  shows "io_ok B s \<and> io_bound B tc s"
  using assms
proof (induction rule: io_run.induct)
  case Start
  then show ?case
    by (simp add: io_start_def io_ok_def io_bound_def granted_sides_def is_granted_def)
next
  case (Step s s')
  then show ?case using io_step_ok io_step_bound by blast
qed

section \<open>Properties\<close>

text \<open>C13: the speed cap holds for a connection used by a reader and a writer at once: whatever the
  interleaving of their critical sections, the bytes moved in both directions since the
  connection was wrapped are at most one second of bandwidth, the worth of the time up to the
  last refill at \<open>speedMbps * 131072\<close> bytes per second, and two buffers, up to a rounding
  error of one part in \<open>2\<^sup>5\<^sup>0\<close> per critical section.\<close>

theorem throttle_throughput:
  assumes "NewThrottledConn speedMbps t0 = Some tc" and "speedMbps \<le> 2 ^ 53"
    and "io_run B tc s" and "0 \<le> B" and "B \<le> 2 ^ 40"
  shows "of_int (io_total s)
    \<le> of_int speedMbps * 2 ^ 17 * (1 + of_int (tc_lastRefill (io_tc s) - t0) / 10 ^ 9)
       + of_int (2 * B - 1)
       + of_nat (io_steps s) * ((of_int speedMbps * 2 ^ 17 + of_int (3 * B)) / (2 ^ 50 :: rat))"
proof -
  have pos: "0 < speedMbps" using assms(1) by (simp add: NewThrottledConn_def split: if_splits)
  note tc = assms(1) [unfolded new_throttle(1) [OF pos assms(2)], simplified, symmetric]
  have ok: "throttle_ok tc" using new_throttle(2) [OF pos assms(2), of t0] tc by simp
  have "of_int (1 - 2 * B) \<le> tc_tokens tc"
    using pos assms(4) by (simp add: tc add_increasing)
  with assms(3) ok have "io_ok B s \<and> io_bound B tc s" using assms(4,5) by (intro io_run_invariant)
  moreover from this have "of_int (1 - 2 * B) \<le> tc_tokens (io_tc s)" using io_ok_debt assms(4) by blast
  ultimately show ?thesis by (simp add: io_bound_def tc field_simps)
qed

theorem throttle_throughput_witness:
  "\<exists>tc s. NewThrottledConn 8 0 = Some tc \<and> io_run 4096 tc s \<and> 0 < io_total s \<and>
     of_int (io_total s) \<le> (2 ^ 20 + 8191 + 2 * ((2 ^ 20 + 12288) / 2 ^ 50) :: rat)"
proof -
  define tc where "tc = \<lparr>tc_tokens = 2 ^ 20, tc_maxTokens = 2 ^ 20, tc_refillRate = 2 ^ 20,
    tc_lastRefill = 0\<rparr>"
  have new: "NewThrottledConn 8 0 = Some tc" using new_throttle(1) [of 8 0] by (simp add: tc_def)
  have turn: "wait_turn tc 4096 0 = (None, tc)"
    by (simp add: wait_turn_def refill_def tc_def Let_def time_sub_def seconds_def fop_defs go_div_def go_mod_def)
  define s1 where "s1 = (io_start tc)\<lparr>io_phase := (\<lambda>_. Idle)(Reader := Waiting 4096)\<rparr>"
  define s2 where "s2 = s1\<lparr>io_steps := 1, io_phase := (\<lambda>_. Idle)(Reader := Granted 4096)\<rparr>"
  define s3 where "s3 = s2\<lparr>io_tc := consumeTokens tc 4096, io_steps := 2, io_phase := (\<lambda>_. Idle)(Reader := Idle),
    io_total := 4096\<rparr>"
  have "io_run 4096 tc s1"
    using io_run.Step [OF io_run.Start io_step.Call [of "io_start tc" Reader 4096], of 4096]
    by (simp add: s1_def io_start_def)
  moreover have "io_step s1 s2"
    using io_step.Turn [of s1 Reader 4096 0 None tc] turn
    by (simp add: s1_def s2_def io_start_def tc_def)
  ultimately have "io_run 4096 tc s2" by (rule io_run.Step) (simp add: s2_def)
  moreover have "io_step s2 s3"
    using io_step.Moved [of s2 Reader 4096 4096] by (simp add: s2_def s3_def s1_def io_start_def numeral_2_eq_2)
  ultimately have run: "io_run 4096 tc s3" by (rule io_run.Step) (simp add: s3_def)
  show ?thesis
    using throttle_throughput [OF new _ run] run new
    by (intro exI [of _ tc] exI [of _ s3]) (simp add: s3_def s2_def s1_def io_start_def tc_def)
qed

text \<open>C14: no call hangs for another reason than that the other goroutine of the relay uses the bandwidth.
  Whatever the connection's debt (up to \<open>2\<^sup>3\<^sup>0\<close> bytes), however late the scheduler wakes the goroutine up, and
  whatever critical sections the other goroutine runs whenever the mutex is free, \<^verbatim>\<open>Read\<close> and \<^verbatim>\<open>Write\<close> return
  after one turn plus one per 99 bytes of debt and of data the other goroutine moved during the wait, with
  the result of the wrapped call, and leave a debt smaller than what was moved from then on.\<close>

theorem throttled_io_returns:
  assumes "throttle_ok tc" and "tc_lastRefill tc \<le> now" and "- (2 ^ 30) \<le> tc_tokens tc"
    and "\<And>i. list_all critical_ok (others i)" and "list_all critical_ok during" and "\<And>i. 0 \<le> delay i"
    and "(\<Sum>i<k. moved (others i)) \<le> 2 ^ 30" and "moved during \<le> 2 ^ 30"
    and "1 - tc_tokens tc + of_int (\<Sum>i<k. moved (others i)) \<le> 99 * of_nat k"
    and "io len = (n, err)" and "n \<le> 2 ^ 30"
  shows "\<exists>tc'. throttled_Read (Suc k) others during delay io tc len now = Some ((n, err), tc') \<and>
    throttled_Write (Suc k) others during delay io tc len now = Some ((n, err), tc') \<and>
    throttle_ok tc' \<and> of_int (1 - moved during - max 0 n) \<le> tc_tokens tc'"
proof -
  obtain tc1 now1 where w: "waitForTokens (Suc k) others delay tc len now = Some (tc1, now1)"
    and ok: "throttle_ok tc1" and one: "1 \<le> tc_tokens tc1"
    using wait_returns [of tc now others delay k len] assms(1-4,6,7,9) by blast
  define tc2 where "tc2 = fold critical during tc1"
  have d: "0 \<le> moved during" by (rule moved_nonneg [OF assms(5)])
  have tc2: "throttle_ok tc2" "of_int (1 - moved during) \<le> tc_tokens tc2"
    using sections_bytes [OF assms(5) ok, of 1] one assms(8) by (simp_all add: tc2_def)
  have "of_int (1 - moved during - n) \<le> tc_tokens (consumeTokens tc2 n)" if "0 < n"
    using tc2(2) that assms(8,11) d by (intro consume_lower) simp_all
  moreover have "throttle_ok (consumeTokens tc2 n)" if "0 < n" using tc2(1) that assms(11) by (intro consume_ok) simp_all
  ultimately show ?thesis
    unfolding throttled_Read_def throttled_Write_def w using tc2 assms(10) by (cases "0 < n") (simp_all add: max_def tc2_def Let_def)
qed

text \<open>A connection in debt, whose other side moves a hundred bytes while this one sleeps.\<close>

theorem throttled_io_returns_witness:
  "\<exists>tc'. throttled_Read 4 (\<lambda>i. if i = 0 then [Refilled 500, Consumed 100] else []) [Consumed 7] (\<lambda>_. 0) (\<lambda>len. (len, ()))
     \<lparr>tc_tokens = - 50, tc_maxTokens = 2 ^ 17, tc_refillRate = 2 ^ 17, tc_lastRefill = 0\<rparr> 512 0 = Some ((512, ()), tc')"
proof -
  let ?others = "\<lambda>i :: nat. if i = 0 then [Refilled 500, Consumed 100] else []"
  have ok: "throttle_ok \<lparr>tc_tokens = - 50, tc_maxTokens = 2 ^ 17, tc_refillRate = 2 ^ 17, tc_lastRefill = 0\<rparr>"
    by (simp add: throttle_ok_def fl64_minus)
  have m: "(\<Sum>i<3. moved (?others i)) = 100" by (simp add: numeral_3_eq_3)
  have "\<exists>tc'. throttled_Read (Suc 3) ?others [Consumed 7] (\<lambda>_. 0) (\<lambda>len. (len, ()))
       \<lparr>tc_tokens = - 50, tc_maxTokens = 2 ^ 17, tc_refillRate = 2 ^ 17, tc_lastRefill = 0\<rparr> 512 0 = Some ((512, ()), tc') \<and>
     throttled_Write (Suc 3) ?others [Consumed 7] (\<lambda>_. 0) (\<lambda>len. (len, ()))
       \<lparr>tc_tokens = - 50, tc_maxTokens = 2 ^ 17, tc_refillRate = 2 ^ 17, tc_lastRefill = 0\<rparr> 512 0 = Some ((512, ()), tc') \<and>
     throttle_ok tc' \<and> of_int (1 - moved [Consumed 7] - max 0 512) \<le> tc_tokens tc'"
    by (rule throttled_io_returns [OF ok]) (simp_all only: m, simp_all)
  then show ?thesis by (auto simp: eval_nat_numeral)
qed

end
