(* ===== verification/Env_Config.thy ===== *)
theory Env_Config
  imports Go_Text "HOL-Library.AList"
begin

text \<open>
  \<^verbatim>\<open>internal/config/env.go\<close> and \<^verbatim>\<open>config.go\<close>: the settings read from the environment and from
  \<^verbatim>\<open>config.json\<close>. The environment is a function (unset variables give the empty string, as
  \<^verbatim>\<open>os.Getenv\<close> does); \<open>uni\<close> stands for the Unicode tables of \<^verbatim>\<open>strings.ToLower\<close>. The host map is an
  association list in the order in which the program ranges over it.
\<close>

section \<open>The environment\<close>

datatype Environment = Environment string

definition Development :: Environment where "Development = Environment ''development''"
definition Production :: Environment where "Production = Environment ''production''"

record EnvConfig =
  ec_Env :: Environment
  ec_Domain :: string
  ec_APIDomain :: string
  ec_BaseURL :: string
  ec_AllowedOrigin :: string
  ec_Debug :: bool
  ec_LogLevel :: string
  ec_NgrokEnabled :: bool
  ec_NgrokDomain :: string
  ec_ProxyMode :: string
  ec_HTTPProxyPort :: string
  ec_HTTPProxyTLS :: bool
  ec_HTTPProxyTLSPort :: string
  ec_SOCKS5Port :: string
  ec_UsersFile :: string
  ec_PACEnabled :: bool
  ec_PACToken :: string
  ec_PACDefaultUser :: string
  ec_PACRateLimitRPM :: int

definition getEnvOrDefault :: "(string \<Rightarrow> string) \<Rightarrow> string \<Rightarrow> string \<Rightarrow> string" where
  "getEnvOrDefault getenv key defaultValue =
     (let value = getenv key in if value \<noteq> [] then value else defaultValue)"

text \<open>The loop ranges over runes; a byte of a multi-byte rune is no digit either.\<close>

fun parse_digits :: "string \<Rightarrow> int \<Rightarrow> int option" where
  "parse_digits [] acc = Some acc"
| "parse_digits (c # s) acc =
     (if is_digit c then parse_digits s (i64 (i64 (acc * 10) + int (digit_val c))) else None)"

definition parseIntOrDefault :: "string \<Rightarrow> int \<Rightarrow> int" where
  "parseIntOrDefault s defaultValue =
     (if s = [] then defaultValue
      else case parse_digits s 0 of None \<Rightarrow> defaultValue | Some n \<Rightarrow> n)"

definition LoadEnv :: "(string \<Rightarrow> string) \<Rightarrow> (string \<Rightarrow> string) \<Rightarrow> EnvConfig" where
  "LoadEnv uni getenv =
     (let get = getEnvOrDefault getenv;
          env = get ''APP_ENV'' ''development'';
          cfg = \<lparr>ec_Env = Environment (ToLower uni env), ec_Domain = [], ec_APIDomain = [], ec_BaseURL = [],
             ec_AllowedOrigin = [], ec_Debug = False, ec_LogLevel = get ''LOG_LEVEL'' ''info'',
             ec_NgrokEnabled = False, ec_NgrokDomain = [], ec_ProxyMode = [], ec_HTTPProxyPort = [],
             ec_HTTPProxyTLS = False, ec_HTTPProxyTLSPort = [], ec_SOCKS5Port = [], ec_UsersFile = [],
             ec_PACEnabled = False, ec_PACToken = [], ec_PACDefaultUser = [], ec_PACRateLimitRPM = 0\<rparr>;
          cfg =
            (if ec_Env cfg = Production then
               let domain = get ''DOMAIN'' ''proxy.yourdomain.com''
               in cfg\<lparr>ec_Domain := domain,
                      ec_APIDomain := get ''API_DOMAIN'' (''api.'' @ domain),
                      ec_BaseURL := get ''BASE_URL'' (''https://'' @ domain),
                      ec_AllowedOrigin := get ''ALLOWED_ORIGIN'' ''*'',
                      ec_Debug := get ''DEBUG'' ''false'' = ''true'',
                      ec_NgrokEnabled := False\<rparr>
             else
               let ngrok = get ''NGROK_ENABLED'' ''true'' = ''true'';
                   ngrokDomain = get ''NGROK_DOMAIN'' [];
                   domain = (if ngrok \<and> ngrokDomain \<noteq> [] then get ''DOMAIN'' ngrokDomain
                             else get ''DOMAIN'' ''localhost:8443'')
               in cfg\<lparr>ec_Env := Development, ec_NgrokEnabled := ngrok, ec_NgrokDomain := ngrokDomain,
                      ec_Domain := domain,
                      ec_BaseURL := get ''BASE_URL'' (''https://'' @ domain),
                      ec_APIDomain := domain,
                      ec_AllowedOrigin := ''*'',
                      ec_Debug := get ''DEBUG'' ''true'' = ''true'',
                      ec_LogLevel := (if ec_LogLevel cfg = ''info'' then ''debug'' else ec_LogLevel cfg)\<rparr>)
      in cfg\<lparr>ec_ProxyMode := ToLower uni (get ''PROXY_MODE'' ''sni''),
             ec_HTTPProxyPort := get ''HTTP_PROXY_PORT'' '':8080'',
             ec_HTTPProxyTLS := get ''HTTP_PROXY_TLS'' ''true'' = ''true'',
             ec_HTTPProxyTLSPort := get ''HTTP_PROXY_TLS_PORT'' '':8443'',
             ec_SOCKS5Port := get ''SOCKS5_PORT'' '':1080'',
             ec_UsersFile := get ''USERS_FILE'' ''users.json'',
             ec_PACEnabled := get ''PAC_ENABLED'' ''true'' = ''true'',
             ec_PACToken := get ''PAC_TOKEN'' [],
             ec_PACDefaultUser := get ''PAC_DEFAULT_USER'' [],
             ec_PACRateLimitRPM := parseIntOrDefault (get ''PAC_RATE_LIMIT_RPM'' ''60'') 60\<rparr>)"

definition IsDevelopment :: "EnvConfig \<Rightarrow> bool" where
  "IsDevelopment e \<longleftrightarrow> ec_Env e = Development"

definition IsProduction :: "EnvConfig \<Rightarrow> bool" where
  "IsProduction e \<longleftrightarrow> ec_Env e = Production"

fun Environment_String :: "Environment \<Rightarrow> string" where
  "Environment_String (Environment s) = s"

section \<open>The configuration file\<close>

record Config =
  cfg_Listen :: string
  cfg_CertFile :: string
  cfg_KeyFile :: string
  cfg_TimeoutSec :: int
  cfg_MaxConns :: int
  cfg_MetricsListen :: string
  cfg_Hosts :: "(string \<times> string) list"
  cfg_Env :: EnvConfig

text \<open>The fields that decoding \<^verbatim>\<open>config.json\<close> set, up to the end or to the first error.\<close>

record ConfigFile =
  cf_Listen :: "string option"
  cf_CertFile :: "string option"
  cf_KeyFile :: "string option"
  cf_TimeoutSec :: "int option"
  cf_MaxConns :: "int option"
  cf_MetricsListen :: "string option"
  cf_Hosts :: "(string \<times> string) list"

definition or_else :: "'a option \<Rightarrow> 'a \<Rightarrow> 'a" where
  "or_else x y = (case x of None \<Rightarrow> y | Some v \<Rightarrow> v)"

definition default_config :: "EnvConfig \<Rightarrow> Config" where
  "default_config env = \<lparr>cfg_Listen = '':8443'', cfg_CertFile = ''certs/dev/server.crt'',
     cfg_KeyFile = ''certs/dev/server.key'', cfg_TimeoutSec = 300, cfg_MaxConns = 1000,
     cfg_MetricsListen = '':9090'', cfg_Hosts = [], cfg_Env = env\<rparr>"

definition decode_config :: "Config \<Rightarrow> ConfigFile \<Rightarrow> Config" where
  "decode_config c f = c\<lparr>cfg_Listen := or_else (cf_Listen f) (cfg_Listen c),
     cfg_CertFile := or_else (cf_CertFile f) (cfg_CertFile c),
     cfg_KeyFile := or_else (cf_KeyFile f) (cfg_KeyFile c),
     cfg_TimeoutSec := or_else (cf_TimeoutSec f) (cfg_TimeoutSec c),
     cfg_MaxConns := or_else (cf_MaxConns f) (cfg_MaxConns c),
     cfg_MetricsListen := or_else (cf_MetricsListen f) (cfg_MetricsListen c),
     cfg_Hosts := cf_Hosts f\<rparr>"

definition clean_host :: "(string \<Rightarrow> string) \<Rightarrow> string \<Rightarrow> string" where
  "clean_host uni k = ToLower uni (trim_space k)"

definition clean_hosts :: "(string \<Rightarrow> string) \<Rightarrow> (string \<times> string) list \<Rightarrow> (string \<times> string) list" where
  "clean_hosts uni hosts = fold (\<lambda>(k, v) m. AList.update (clean_host uni k) v m) hosts []"

definition Load :: "(string \<Rightarrow> string) \<Rightarrow> (string \<Rightarrow> string) \<Rightarrow> ConfigFile option \<Rightarrow> Config" where
  "Load uni getenv f =
     (let cfg = default_config (LoadEnv uni getenv);
          cfg = (case f of None \<Rightarrow> cfg | Some f \<Rightarrow> decode_config cfg f);
          cfg = (if getenv ''CERT_FILE'' \<noteq> [] then cfg\<lparr>cfg_CertFile := getenv ''CERT_FILE''\<rparr> else cfg);
          cfg = (if getenv ''KEY_FILE'' \<noteq> [] then cfg\<lparr>cfg_KeyFile := getenv ''KEY_FILE''\<rparr> else cfg);
          cfg = (if getenv ''METRICS_LISTEN'' \<noteq> [] then cfg\<lparr>cfg_MetricsListen := getenv ''METRICS_LISTEN''\<rparr> else cfg)
      in cfg\<lparr>cfg_Hosts := clean_hosts uni (cfg_Hosts cfg)\<rparr>)"

text \<open>\<open>absent p\<close> when \<^verbatim>\<open>os.Stat\<close> says that \<open>p\<close> does not exist. The result is the error message.\<close>

definition Validate :: "(string \<Rightarrow> bool) \<Rightarrow> Config \<Rightarrow> string option" where
  "Validate absent c =
     (let errs = (if cfg_Listen c = [] then [''listen address is required''] else []);
          errs = errs @ (if absent (cfg_CertFile c) then [''certificate file not found: '' @ cfg_CertFile c] else []);
          errs = errs @ (if absent (cfg_KeyFile c) then [''key file not found: '' @ cfg_KeyFile c] else []);
          errs = errs @ (if cfg_TimeoutSec c \<le> 0 then [''timeout_sec must be positive''] else []);
          errs = errs @ (if cfg_MaxConns c \<le> 0 then [''max_conns must be positive''] else []);
          errs = errs @ (if length (cfg_Hosts c) = 0 then [''at least one host mapping is required''] else []);
          sep = [char_of (10 :: nat)] @ ''  - ''
      in if length errs > 0 then Some (''config validation failed:'' @ sep @ join sep errs) else None)"

section \<open>Numbers\<close>

lemma parse_digits_append:
  "parse_digits (s @ t) acc = Option.bind (parse_digits s acc) (parse_digits t)"
  by (induction s arbitrary: acc) auto

lemma parse_digits_nat_dec:
  assumes "int n < 2 ^ 63"
  shows "parse_digits (nat_dec n) 0 = Some (int n)"
  using assms
proof (induction n rule: nat_dec.induct)
  case (1 n)
  show ?case
  proof (cases "n < 10")
    case True
    then show ?thesis by (subst nat_dec.simps) simp
  next
    case False
    have IH: "parse_digits (nat_dec (n div 10)) 0 = Some (int (n div 10))"
      using "1.IH" False "1.prems" by (simp add: zdiv_int)
    have n: "int (n div 10) * 10 + int (n mod 10) = int n"
      by (metis div_mult_mod_eq of_nat_add of_nat_mult of_nat_numeral)
    have "int (n div 10) * 10 < 2 ^ 63" using "1.prems" n by linarith
    then show ?thesis using False IH n "1.prems"
      by (subst nat_dec.simps) (simp add: parse_digits_append)
  qed
qed

lemma parse_digits_reject: "\<not> list_all is_digit s \<Longrightarrow> parse_digits s acc = None"
  by (induction s arbitrary: acc) auto

section \<open>Host names\<close>

lemma update_keys: "fst ` set (AList.update k v m) = insert k (fst ` set m)"
  using dom_update [of k v m] by (auto simp: dom_map_of_conv_image_fst)

lemma clean_fold_lookup:
  "map_of (fold (\<lambda>(k, v) m. AList.update (clean_host uni k) v m) hosts m) x =
     (case map_of (map (\<lambda>(k, v). (clean_host uni k, v)) (rev hosts)) x of
        Some v \<Rightarrow> Some v | None \<Rightarrow> map_of m x)"
proof (induction hosts arbitrary: m)
  case (Cons kv hosts)
  then show ?case
    by (cases kv) (auto simp: map_add_def update_conv' split: option.splits)
qed simp

section \<open>Properties\<close>

text \<open>Every number below \<open>2\<^sup>6\<^sup>3\<close> written in decimal is read back by \<^verbatim>\<open>parseIntOrDefault\<close>, and a
  string with any byte that is no digit (a sign, a space) gives the default.\<close>

lemma parseIntOrDefault_roundtrip:
  "(int n < 2 ^ 63 \<longrightarrow> parseIntOrDefault (nat_dec n) dflt = int n) \<and>
   (\<not> list_all is_digit s \<longrightarrow> parseIntOrDefault s dflt = dflt)"
  by (simp add: parseIntOrDefault_def parse_digits_nat_dec parse_digits_reject)

text \<open>A host is found after loading exactly under its trimmed, lower-cased name: the lookup
  gives the back end of the last entry, in iteration order, whose key cleans to that name, and
  nothing for a name that no key cleans to.\<close>

lemma Load_hosts_lookup:
  "map_of (cfg_Hosts (Load uni getenv (Some cf))) x =
    map_option snd (List.find (\<lambda>(k, v). clean_host uni k = x) (rev (cf_Hosts cf)))"
proof -
  have "map_of (map (\<lambda>(k, v). (clean_host uni k, v)) l) x
      = map_option snd (List.find (\<lambda>(k, v). clean_host uni k = x) l)" for l :: "(string \<times> string) list"
    by (induction l) auto
  then show ?thesis
    by (simp add: Load_def Let_def decode_config_def clean_hosts_def clean_fold_lookup split: option.splits)
qed

text \<open>Validation accepts a configuration exactly when all six conditions hold.\<close>

lemma validate_accepts_iff:
  "Validate absent c = None \<longleftrightarrow>
     cfg_Listen c \<noteq> [] \<and> \<not> absent (cfg_CertFile c) \<and> \<not> absent (cfg_KeyFile c) \<and>
     0 < cfg_TimeoutSec c \<and> 0 < cfg_MaxConns c \<and> cfg_Hosts c \<noteq> []"
  by (simp add: Validate_def Let_def)

end
