(* ===== verification/Prometheus.thy ===== *)
theory Prometheus
  imports Go_Prelude
begin

text \<open>
  What the program uses of the Prometheus client: the declaration of a metric, and the calls made on
  one. The servers log their calls as events, each with the variable of its package that holds the
  metric, the values given to \<^verbatim>\<open>WithLabelValues\<close> (none for a metric without labels) and the operation. The
  library panics when the number of values is not the number of labels, and when a counter is to go down.
\<close>

datatype metric_kind = Counter | Gauge | Histogram

record metric_desc =
  md_Name :: string
  md_Help :: string
  md_kind :: metric_kind
  md_labels :: "string list"
  md_Buckets :: "rat list"

datatype metric_op = MInc | MDec | MAdd int | MObserve

fun op_fits :: "metric_kind \<Rightarrow> metric_op \<Rightarrow> bool" where
  "op_fits k MInc = (k \<noteq> Histogram)"
| "op_fits k MDec = (k = Gauge)"
| "op_fits k (MAdd n) = (k \<noteq> Histogram \<and> (k = Counter \<longrightarrow> 0 \<le> n))"
| "op_fits k MObserve = (k = Histogram)"

end
