(* ===== verification/Http_Proxy.thy ===== *)
theory Http_Proxy
  imports Pac Access_Policy Throttle Env_Config Prometheus
begin

text \<open>
  \<^verbatim>\<open>internal/httpproxy/server.go\<close>: the HTTP proxy, from the request that \<^verbatim>\<open>net/http\<close> hands to
  \<^verbatim>\<open>handleRequest\<close> to the tunnel or the forwarded request. The server's state is the user store,
  the usage tracker (absent when the Go field is \<^verbatim>\<open>nil\<close>), the PAC handler and the list of its
  effects in order: network actions and metric updates. What the network answers is the
  record \<open>http_env\<close>; \<open>he_clk i\<close> is the time the \<open>i\<close>-th clock reading of a request gives.
\<close>

section \<open>State, effects and surroundings\<close>

text \<open>The metrics of the package, and the effects of a request.\<close>

datatype http_metric =
    HMetricRequests | HMetricBytes | HMetricActiveConns | HMetricAuthFailures | HMetricRateLimited
  | HMetricErrors | HMetricDuration

datatype http_event =
    HCall http_metric "string list" metric_op
  | Dial string
  | RawWrite string
  | HalfCloseTarget
  | HalfCloseClient
  | CloseClient
  | CloseTarget
  | RoundTrip http_request

record http_server =
  hp_store :: UserStore
  hp_bw :: "Tracker option"
  hp_pac :: "PacHandler option"
  hp_events :: "http_event list"

record upstream =
  up_status :: int
  up_header :: "(string \<times> string list) list"
  up_body :: string

record http_env =
  he_deps :: deps
  he_wr :: writer
  he_off :: int
  he_clk :: "nat \<Rightarrow> time"
  he_dial :: "string \<Rightarrow> bool"
  he_hijacker :: bool
  he_hijack :: bool
  he_clientTCP :: bool
  he_relay :: "int \<times> int"
  he_roundtrip :: "http_request \<Rightarrow> upstream option"
  he_copied :: "string \<Rightarrow> string"

definition emit :: "http_event list \<Rightarrow> http_server \<Rightarrow> http_server" where
  "emit es s = s\<lparr>hp_events := hp_events s @ es\<rparr>"

text \<open>A call on the tracker when there is one, and a check that passes when there is none.\<close>

definition on_tracker :: "(Tracker \<Rightarrow> Tracker) \<Rightarrow> http_server \<Rightarrow> http_server" where
  "on_tracker f s = s\<lparr>hp_bw := map_option f (hp_bw s)\<rparr>"

definition ask_tracker :: "(Tracker \<Rightarrow> bool \<times> Tracker) \<Rightarrow> http_server \<Rightarrow> bool \<times> http_server" where
  "ask_tracker f s =
     (case hp_bw s of
        None \<Rightarrow> (True, s)
      | Some t \<Rightarrow> let (ok, t') = f t in (ok, s\<lparr>hp_bw := Some t'\<rparr>))"

section \<open>Operations\<close>

text \<open>The PAC part of \<^verbatim>\<open>NewServer\<close>; the transport's constants are settings of \<^verbatim>\<open>net/http\<close>.\<close>

definition pac_config :: "Config \<Rightarrow> PacConfig" where
  "pac_config cfg = \<lparr>pc_Enabled = ec_PACEnabled (cfg_Env cfg), pc_ProxyHost = ec_Domain (cfg_Env cfg),
     pc_HTTPPort = trim_prefix (ec_HTTPProxyPort (cfg_Env cfg)) '':'',
     pc_SOCKS5Port = trim_prefix (ec_SOCKS5Port (cfg_Env cfg)) '':'',
     pc_Token = ec_PACToken (cfg_Env cfg), pc_DefaultUser = ec_PACDefaultUser (cfg_Env cfg),
     pc_RateLimitRPM = ec_PACRateLimitRPM (cfg_Env cfg)\<rparr>"

definition http_NewServer :: "Config \<Rightarrow> UserStore \<Rightarrow> Tracker option \<Rightarrow> http_server" where
  "http_NewServer cfg userStore bw =
     \<lparr>hp_store = userStore, hp_bw = bw,
      hp_pac = (if ec_PACEnabled (cfg_Env cfg) then Some (NewHandler (pac_config cfg)) else None),
      hp_events = []\<rparr>"

definition parseProxyAuth :: "http_request \<Rightarrow> (string \<times> string) option" where
  "parseProxyAuth r =
     (let auth = header_get (rq_Header r) ''Proxy-Authorization''
      in if auth = [] then None
         else if \<not> has_prefix auth ''Basic '' then None
         else case b64_decode (drop (length ''Basic '') auth) of
                None \<Rightarrow> None
              | Some credentials \<Rightarrow>
                  (case index_byte credentials (CHR '':'') of
                     None \<Rightarrow> None
                   | Some idx \<Rightarrow> Some (take idx credentials, drop (idx + 1) credentials)))"

definition hopByHop :: "string list" where
  "hopByHop = [''Connection'', ''Keep-Alive'', ''Proxy-Authenticate'', ''Proxy-Authorization'',
     ''Proxy-Connection'', ''Te'', ''Trailer'', ''Transfer-Encoding'', ''Upgrade'']"

definition removeHopByHopHeaders :: "header \<Rightarrow> header" where
  "removeHopByHopHeaders h = fold (\<lambda>k h. header_del h k) hopByHop h"

definition established :: string where
  "established = ''HTTP/1.1 200 Connection Established'' @ map char_of [13, 10, 13, 10 :: nat]"

definition handleConnect :: "http_env \<Rightarrow> http_server \<Rightarrow> response \<Rightarrow> http_request \<Rightarrow> User \<Rightarrow> response \<times> http_server"
where
  "handleConnect e s w r user =
     (let s = emit [HCall HMetricRequests [Username user, ''CONNECT''] MInc] s;
          targetHost = rq_Host r;
          targetHost = (if contains targetHost '':'' then targetHost else targetHost @ '':443'');
          s = emit [Dial targetHost] s
      in if \<not> he_dial e targetHost then
           (http_error ''Failed to connect to target'' 502 w, emit [HCall HMetricErrors [''dial_failed''] MInc] s)
         else if \<not> he_hijacker e then
           (http_error ''Hijacking not supported'' 500 w, emit [HCall HMetricErrors [''hijack_failed''] MInc, CloseTarget] s)
         else if \<not> he_hijack e then
           (http_error ''Failed to hijack connection'' 500 w, emit [HCall HMetricErrors [''hijack_failed''] MInc, CloseTarget] s)
         else
           let s = emit [RawWrite established] s;
               plain = \<not> (BandwidthSpeedMbps user > 0);
               (upBytes, downBytes) = he_relay e;
               s = emit ((if plain then [HalfCloseTarget] else []) @
                         (if plain \<and> he_clientTCP e then [HalfCloseClient] else [])) s;
               s = emit [HCall HMetricBytes [Username user, ''upstream''] (MAdd upBytes),
                         HCall HMetricBytes [Username user, ''downstream''] (MAdd downBytes), HCall HMetricDuration [] MObserve] s;
               s = on_tracker (\<lambda>t. RecordBytes (he_wr e) (he_off e) t (Username user) upBytes downBytes (he_clk e 8)) s
           in (w, emit [CloseClient, CloseTarget] s))"

text \<open>Copying the response headers: one \<^verbatim>\<open>Add\<close> per value.\<close>

definition add_headers :: "(string \<times> string list) list \<Rightarrow> header \<Rightarrow> header" where
  "add_headers kvs h = fold (\<lambda>(k, vv) h. fold (\<lambda>v h. header_add h k v) vv h) kvs h"

definition outReq :: "http_request \<Rightarrow> http_request" where
  "outReq r = r\<lparr>rq_Header := header_del (removeHopByHopHeaders (rq_Header r)) ''Proxy-Authorization''\<rparr>"

definition handleHTTP :: "http_env \<Rightarrow> http_server \<Rightarrow> response \<Rightarrow> http_request \<Rightarrow> User \<Rightarrow> response \<times> http_server"
where
  "handleHTTP e s w r user =
     (let s = emit [HCall HMetricRequests [Username user, rq_Method r] MInc] s
      in if rq_Scheme r = [] then (http_error ''Bad Request: absolute URL required'' 400 w, s)
         else
           let s = emit [RoundTrip (outReq r)] s
           in case he_roundtrip e (outReq r) of
                None \<Rightarrow> (http_error ''Failed to reach target'' 502 w, emit [HCall HMetricErrors [''request_failed''] MInc] s)
              | Some resp \<Rightarrow>
                  let w = w\<lparr>rs_header := add_headers (up_header resp) (rs_header w)\<rparr>;
                      w = write_header (up_status resp) w;
                      body = he_copied e (up_body resp);
                      w = w\<lparr>rs_body := rs_body w @ body\<rparr>;
                      written = int (length body);
                      s = emit [HCall HMetricBytes [Username user, ''downstream''] (MAdd written), HCall HMetricDuration [] MObserve] s;
                      s = on_tracker (\<lambda>t. RecordBytes (he_wr e) (he_off e) t (Username user) 0 written (he_clk e 8)) s
                  in (w, s))"

text \<open>The quota checks made for everybody but a verified super admin: message and status of a refusal.\<close>

definition http_quota :: "http_env \<Rightarrow> http_server \<Rightarrow> string \<Rightarrow> User \<Rightarrow> (string \<times> int) option \<times> http_server" where
  "http_quota e s username user =
     (let (ok, st) = CheckRateLimit (he_deps e) (hp_store s) username (he_clk e 3);
          s = s\<lparr>hp_store := st\<rparr>
      in if \<not> ok then (Some (''Too Many Requests'', 429), emit [HCall HMetricRateLimited [username] MInc] s)
         else if \<not> CheckExpiry (he_deps e) (hp_store s) username (he_clk e 4)
         then (Some (''Account Expired'', 403), s)
         else let (ok, s) = ask_tracker (\<lambda>t. CheckAllowance (he_wr e) (he_off e) t username
                                            (BandwidthLimitGB user) (he_clk e 5)) s
              in if \<not> ok then (Some (''Bandwidth Limit Exceeded'', 403), s)
                 else let (ok, s) = ask_tracker (\<lambda>t. CheckConnLimit (he_off e) t username
                                                    (MaxConnections user) (he_clk e 6)) s
                      in if \<not> ok then (Some (''Connection Limit Reached'', 429), s) else (None, s))"

definition auth_required :: "response \<Rightarrow> response" where
  "auth_required w =
     http_error ''Proxy Authentication Required'' 407
       (set_header ''Proxy-Authenticate'' ''Basic realm=\"Proxy Authentication Required\"'' w)"

text \<open>Everything behind admission: counting the connection around the transfer.\<close>

definition serve_admitted :: "http_env \<Rightarrow> http_server \<Rightarrow> response \<Rightarrow> http_request \<Rightarrow> User \<Rightarrow> response \<times> http_server"
where
  "serve_admitted e s w r user =
     (let s = emit [HCall HMetricActiveConns [] MInc] s;
          s = on_tracker (\<lambda>t. IncrementConns (he_off e) t (Username user) (he_clk e 7)) s;
          (w, s) = (if rq_Method r = ''CONNECT'' then handleConnect e s w r user else handleHTTP e s w r user);
          s = on_tracker (\<lambda>t. DecrementConns (he_off e) t (Username user) (he_clk e 9)) s
      in (w, emit [HCall HMetricActiveConns [] MDec] s))"

text \<open>What \<^verbatim>\<open>handleRequest\<close> does with everything but the PAC file.\<close>

definition handle_proxied :: "http_env \<Rightarrow> http_server \<Rightarrow> response \<Rightarrow> http_request \<Rightarrow> response \<times> http_server" where
  "handle_proxied e s w r =
     (let clientIP = rq_RemoteAddr r
      in if \<not> CheckIPAllowed (hp_store s) clientIP then
           (http_error ''Forbidden'' 403 w, emit [HCall HMetricAuthFailures [''ip_blocked''] MInc] s)
         else case parseProxyAuth r of
           None \<Rightarrow> (auth_required w, emit [HCall HMetricAuthFailures [''no_credentials''] MInc] s)
         | Some (username, password) \<Rightarrow>
             let (valid, st) = ValidateCredentials (he_deps e) (hp_store s) username password
                                 (he_clk e 1) (he_clk e 2);
                 s = s\<lparr>hp_store := st\<rparr>
             in case valid of
                  None \<Rightarrow> (auth_required w, emit [HCall HMetricAuthFailures [''invalid_credentials''] MInc] s)
                | Some user \<Rightarrow>
                    let isSuperAdmin = (Role user = ''super_admin'' \<and> IsSuperAdminIP (hp_store s) clientIP \<noteq> None);
                        (refused, s) = (if isSuperAdmin then (None, s) else http_quota e s username user)
                    in case refused of
                         Some (msg, code) \<Rightarrow> (http_error msg code w, s)
                       | None \<Rightarrow> serve_admitted e s w r user)"

definition handleRequest :: "http_env \<Rightarrow> http_server \<Rightarrow> response \<Rightarrow> http_request \<Rightarrow> response \<times> http_server" where
  "handleRequest e s w r =
     (case hp_pac s of
        None \<Rightarrow> handle_proxied e s w r
      | Some h \<Rightarrow>
          if rq_Path r = ''/proxy.pac'' \<or> rq_RequestURI r = ''/proxy.pac'' then
            let (w, h', st) = pac_ServeHTTP (he_deps e) h (hp_store s) w r (\<lambda>i. he_clk e (10 + i))
            in (w, s\<lparr>hp_pac := Some h', hp_store := st\<rparr>)
          else handle_proxied e s w r)"

section \<open>Starting and stopping\<close>

text \<open>
  The life of the server: which listeners are open and whether the shutdown channel is closed.
  \<open>None\<close> is the panic of closing a closed channel.
\<close>

record http_life =
  hl_http :: bool
  hl_https :: bool
  hl_shutdown_closed :: bool

datatype start_error = ListenFailed string | CertFailed | ListenTLSFailed string

definition http_Start ::
  "Config \<Rightarrow> (string \<Rightarrow> bool) \<Rightarrow> (string \<Rightarrow> string \<Rightarrow> bool) \<Rightarrow> http_life \<Rightarrow> start_error option \<times> http_life" where
  "http_Start cfg can_listen keypair l =
     (let httpAddr = ec_HTTPProxyPort (cfg_Env cfg);
          httpAddr = (if httpAddr = [] then '':8080'' else httpAddr)
      in if \<not> can_listen httpAddr then (Some (ListenFailed httpAddr), l)
         else let l = l\<lparr>hl_http := True\<rparr>
              in if ec_HTTPProxyTLS (cfg_Env cfg) \<and> cfg_CertFile cfg \<noteq> [] \<and> cfg_KeyFile cfg \<noteq> [] then
                   let httpsAddr = ec_HTTPProxyTLSPort (cfg_Env cfg);
                       httpsAddr = (if httpsAddr = [] then '':8443'' else httpsAddr)
                   in if \<not> keypair (cfg_CertFile cfg) (cfg_KeyFile cfg) then (Some CertFailed, l)
                      else if \<not> can_listen httpsAddr then (Some (ListenTLSFailed httpsAddr), l)
                      else (None, l\<lparr>hl_https := True\<rparr>)
                 else (None, l))"

definition http_watchShutdown :: "http_life \<Rightarrow> http_life option" where
  "http_watchShutdown l =
     (if hl_shutdown_closed l then None
      else Some \<lparr>hl_http = False, hl_https = False, hl_shutdown_closed = True\<rparr>)"

definition http_Shutdown :: "http_life \<Rightarrow> http_life" where
  "http_Shutdown l = l\<lparr>hl_http := False, hl_https := False\<rparr>"

section \<open>What the steps leave alone\<close>

named_theorems http_frame \<open>fields of the server the helper steps do not change\<close>

lemma emit_fields [simp]:
  "hp_store (emit es s) = hp_store s" "hp_bw (emit es s) = hp_bw s" "hp_pac (emit es s) = hp_pac s"
  "hp_events (emit es s) = hp_events s @ es"
  by (simp_all add: emit_def)

lemma on_tracker_fields [simp]:
  "hp_store (on_tracker f s) = hp_store s" "hp_bw (on_tracker f s) = map_option f (hp_bw s)"
  "hp_pac (on_tracker f s) = hp_pac s" "hp_events (on_tracker f s) = hp_events s"
  by (simp_all add: on_tracker_def)

lemma ask_tracker_fields [simp]:
  "hp_store (snd (ask_tracker f s)) = hp_store s" "hp_pac (snd (ask_tracker f s)) = hp_pac s"
  "hp_events (snd (ask_tracker f s)) = hp_events s"
  "hp_bw (snd (ask_tracker f s)) = map_option (snd \<circ> f) (hp_bw s)"
  by (simp_all add: ask_tracker_def case_prod_beta Let_def split: option.splits)

lemma ask_tracker_answer: "fst (ask_tracker f s) \<longleftrightarrow> (\<forall>t. hp_bw s = Some t \<longrightarrow> fst (f t))"
  by (simp add: ask_tracker_def case_prod_beta Let_def split: option.splits)

text \<open>What the tracker holds after the two transfer handlers.\<close>

lemma handleConnect_bw:
  "hp_bw (snd (handleConnect e s w r user)) = hp_bw s \<or>
   hp_bw (snd (handleConnect e s w r user)) = map_option (\<lambda>t. RecordBytes (he_wr e) (he_off e) t
     (Username user) (fst (he_relay e)) (snd (he_relay e)) (he_clk e 8)) (hp_bw s)"
  by (simp add: handleConnect_def Let_def case_prod_beta)

lemma handleHTTP_bw:
  "hp_bw (snd (handleHTTP e s w r user)) = hp_bw s \<or>
   (\<exists>n. hp_bw (snd (handleHTTP e s w r user)) = map_option (\<lambda>t. RecordBytes (he_wr e) (he_off e) t
     (Username user) 0 n (he_clk e 8)) (hp_bw s))"
  by (auto simp add: handleHTTP_def Let_def case_prod_beta split: option.splits)

lemma transfer_bw:
  assumes "hp_bw s = Some t"
    and "s' = snd (if rq_Method r = ''CONNECT'' then handleConnect e s w r user else handleHTTP e s w r user)"
  obtains t' where "hp_bw s' = Some t'" "\<And>v. conns_of t' v = conns_of t v"
    "t' = t \<or> (\<exists>up down. t' = RecordBytes (he_wr e) (he_off e) t (Username user) up down (he_clk e 8))"
proof -
  have "hp_bw s' = Some t \<or> (\<exists>up down. hp_bw s' =
      Some (RecordBytes (he_wr e) (he_off e) t (Username user) up down (he_clk e 8)))"
    using handleConnect_bw [of e s w r user] handleHTTP_bw [of e s w r user] assms
    by (cases "rq_Method r = ''CONNECT''") fastforce+
  then show thesis using that by fastforce
qed

lemma serve_admitted_bw:
  fixes s :: http_server
  assumes "hp_bw s = Some t"
  obtains t1 t2 where
    "hp_bw (snd (serve_admitted e s w r user)) = Some (DecrementConns (he_off e) t2 (Username user) (he_clk e 9))"
    "t1 = IncrementConns (he_off e) t (Username user) (he_clk e 7)"
    "\<And>v. conns_of t2 v = conns_of t1 v"
    "t2 = t1 \<or> (\<exists>up down. t2 = RecordBytes (he_wr e) (he_off e) t1 (Username user) up down (he_clk e 8))"
proof -
  define s1 where "s1 = on_tracker (\<lambda>t. IncrementConns (he_off e) t (Username user) (he_clk e 7))
    (emit [HCall HMetricActiveConns [] MInc] s)"
  have "hp_bw s1 = Some (IncrementConns (he_off e) t (Username user) (he_clk e 7))"
    using assms by (simp add: s1_def)
  from transfer_bw [OF this refl, of r e w user] obtain t2 where t2:
    "hp_bw (snd (if rq_Method r = ''CONNECT'' then handleConnect e s1 w r user else handleHTTP e s1 w r user)) = Some t2"
    "\<And>v. conns_of t2 v = conns_of (IncrementConns (he_off e) t (Username user) (he_clk e 7)) v"
    "t2 = IncrementConns (he_off e) t (Username user) (he_clk e 7) \<or> (\<exists>up down. t2 = RecordBytes (he_wr e) (he_off e)
       (IncrementConns (he_off e) t (Username user) (he_clk e 7)) (Username user) up down (he_clk e 8))"
    by blast
  have "hp_bw (snd (serve_admitted e s w r user)) = Some (DecrementConns (he_off e) t2 (Username user) (he_clk e 9))"
    using t2(1) by (auto simp: serve_admitted_def Let_def case_prod_beta s1_def [symmetric] split: if_splits)
  then show thesis using that [of t2] t2(2,3) by blast
qed

section \<open>Admission\<close>

text \<open>The policy on the state of the HTTP proxy.\<close>

abbreviation quota_ok :: "http_env \<Rightarrow> http_server \<Rightarrow> string \<Rightarrow> User \<Rightarrow> bool" where
  "quota_ok e s username user \<equiv>
     policy_ok (he_deps e) (he_wr e) (he_off e) (he_clk e) (hp_store s) (hp_bw s) username user"

text \<open>The HTTP server's checks implement the admission contract.\<close>

interpretation http_admission: admission "he_deps e" "he_wr e" "he_off e" "he_clk e"
  "\<lambda>s u user. map_prod (\<lambda>refusal. refusal = None) id (http_quota e s u user)" "\<lambda>s. (hp_store s, hp_bw s)" for e
  by unfold_locales (simp add: http_quota_def policy_run_def ask_tracker_def Let_def case_prod_beta split: option.splits)

lemma http_quota_passes: "fst (http_quota e s username user) = None \<longleftrightarrow> quota_ok e s username user"
  using http_admission.decides [of e s username user] by simp

lemma http_quota_frame:
  "us_users (hp_store (snd (http_quota e s username user))) = us_users (hp_store s)"
  "hp_pac (snd (http_quota e s username user)) = hp_pac s"
  by (simp_all add: http_quota_def Let_def case_prod_beta store_simps)

definition is_egress :: "http_event \<Rightarrow> bool" where
  "is_egress ev \<longleftrightarrow> (case ev of Dial _ \<Rightarrow> True | RoundTrip _ \<Rightarrow> True | _ \<Rightarrow> False)"

lemma http_quota_events:
  "filter is_egress (hp_events (snd (http_quota e s username user))) = filter is_egress (hp_events s)"
  by (simp add: http_quota_def Let_def case_prod_beta is_egress_def)

text \<open>The decision of \<^verbatim>\<open>handleRequest\<close> for a request that is not for the PAC file.\<close>

definition for_pac :: "http_server \<Rightarrow> http_request \<Rightarrow> bool" where
  "for_pac s r \<longleftrightarrow> hp_pac s \<noteq> None \<and> (rq_Path r = ''/proxy.pac'' \<or> rq_RequestURI r = ''/proxy.pac'')"

lemma handleRequest_not_pac: "\<not> for_pac s r \<Longrightarrow> handleRequest e s w r = handle_proxied e s w r"
  by (auto simp: handleRequest_def for_pac_def split: option.splits)

lemma handle_proxied_cases:
  obtains
    (blocked) "\<not> CheckIPAllowed (hp_store s) (rq_RemoteAddr r)"
      "handle_proxied e s new_response r = (http_error ''Forbidden'' 403 new_response, emit [HCall HMetricAuthFailures [''ip_blocked''] MInc] s)"
  | (anonymous) "CheckIPAllowed (hp_store s) (rq_RemoteAddr r)" "parseProxyAuth r = None"
      "handle_proxied e s new_response r = (auth_required new_response, emit [HCall HMetricAuthFailures [''no_credentials''] MInc] s)"
  | (invalid) u p where "CheckIPAllowed (hp_store s) (rq_RemoteAddr r)" "parseProxyAuth r = Some (u, p)"
      "fst (ValidateCredentials (he_deps e) (hp_store s) u p (he_clk e 1) (he_clk e 2)) = None"
      "handle_proxied e s new_response r = (auth_required new_response, emit [HCall HMetricAuthFailures [''invalid_credentials''] MInc]
        (s\<lparr>hp_store := snd (ValidateCredentials (he_deps e) (hp_store s) u p (he_clk e 1) (he_clk e 2))\<rparr>))"
  | (valid) u p user s1 where "CheckIPAllowed (hp_store s) (rq_RemoteAddr r)" "parseProxyAuth r = Some (u, p)"
      "fst (ValidateCredentials (he_deps e) (hp_store s) u p (he_clk e 1) (he_clk e 2)) = Some user"
      "s1 = s\<lparr>hp_store := snd (ValidateCredentials (he_deps e) (hp_store s) u p (he_clk e 1) (he_clk e 2))\<rparr>"
      "handle_proxied e s new_response r =
        (let (refused, s2) = (if exempt (hp_store s1) (rq_RemoteAddr r) user then (None, s1) else http_quota e s1 u user)
         in case refused of Some (msg, code) \<Rightarrow> (http_error msg code new_response, s2)
            | None \<Rightarrow> serve_admitted e s2 new_response r user)"
proof (cases "CheckIPAllowed (hp_store s) (rq_RemoteAddr r)")
  case False
  then show thesis using blocked by (simp add: handle_proxied_def)
next
  case True
  note ip = True
  show thesis
  proof (cases "parseProxyAuth r")
    case None
    then show thesis using anonymous ip by (simp add: handle_proxied_def)
  next
    case (Some up)
    obtain u p where up: "parseProxyAuth r = Some (u, p)" using Some by (cases up) simp
    define v where "v = ValidateCredentials (he_deps e) (hp_store s) u p (he_clk e 1) (he_clk e 2)"
    define s1 where "s1 = s\<lparr>hp_store := snd v\<rparr>"
    show thesis
    proof (cases "fst v")
      case None
      then show thesis using invalid [OF ip up] ip up
        by (simp add: handle_proxied_def Let_def case_prod_beta v_def)
    next
      case (Some user)
      then have "handle_proxied e s new_response r =
        (let (refused, s2) = (if exempt (hp_store s1) (rq_RemoteAddr r) user then (None, s1) else http_quota e s1 u user)
         in case refused of Some (msg, code) \<Rightarrow> (http_error msg code new_response, s2)
            | None \<Rightarrow> serve_admitted e s2 new_response r user)"
        using ip up by (auto simp: handle_proxied_def Let_def case_prod_beta v_def s1_def exempt_def
            cong: option.case_cong)
      then show thesis using valid [OF ip up, of user s1] Some by (simp add: v_def s1_def)
    qed
  qed
qed

lemma http_quota_conns:
  "hp_bw s = Some t \<Longrightarrow>
     \<exists>t'. hp_bw (snd (http_quota e s u user)) = Some t' \<and> (\<forall>v. conns_of t' v = conns_of t v)"
  by (simp add: http_quota_def Let_def case_prod_beta)

lemma transfer_activity:
  "count_list (hp_events (snd (handleConnect e s w r user))) (HCall HMetricActiveConns [] MInc) = count_list (hp_events s) (HCall HMetricActiveConns [] MInc)"
  "count_list (hp_events (snd (handleConnect e s w r user))) (HCall HMetricActiveConns [] MDec) = count_list (hp_events s) (HCall HMetricActiveConns [] MDec)"
  "count_list (hp_events (snd (handleHTTP e s w r user))) (HCall HMetricActiveConns [] MInc) = count_list (hp_events s) (HCall HMetricActiveConns [] MInc)"
  "count_list (hp_events (snd (handleHTTP e s w r user))) (HCall HMetricActiveConns [] MDec) = count_list (hp_events s) (HCall HMetricActiveConns [] MDec)"
  by (simp_all add: handleConnect_def handleHTTP_def Let_def case_prod_beta split: option.splits)

lemma http_quota_activity:
  "count_list (hp_events (snd (http_quota e s u user))) (HCall HMetricActiveConns [] MInc) = count_list (hp_events s) (HCall HMetricActiveConns [] MInc)"
  "count_list (hp_events (snd (http_quota e s u user))) (HCall HMetricActiveConns [] MDec) = count_list (hp_events s) (HCall HMetricActiveConns [] MDec)"
  by (simp_all add: http_quota_def Let_def case_prod_beta)

lemma serve_admitted_activity:
  assumes "count_list (hp_events s) (HCall HMetricActiveConns [] MInc) = count_list (hp_events s) (HCall HMetricActiveConns [] MDec)"
  shows "count_list (hp_events (snd (serve_admitted e s w r user))) (HCall HMetricActiveConns [] MInc)
    = count_list (hp_events (snd (serve_admitted e s w r user))) (HCall HMetricActiveConns [] MDec)"
  using assms by (simp add: serve_admitted_def Let_def case_prod_beta transfer_activity)

lemma serve_admitted_conns:
  assumes "hp_bw s = Some t" "\<And>v. 0 \<le> conns_of t v \<and> conns_of t v < 2 ^ 63 - 1"
  shows "\<exists>t'. hp_bw (snd (serve_admitted e s w r user)) = Some t' \<and> (\<forall>v. conns_of t' v = conns_of t v)"
proof (rule serve_admitted_bw [OF assms(1), of e w r user])
  fix t1 t2
  assume bw: "hp_bw (snd (serve_admitted e s w r user)) = Some (DecrementConns (he_off e) t2 (Username user) (he_clk e 9))"
    and t1: "t1 = IncrementConns (he_off e) t (Username user) (he_clk e 7)"
    and keep: "\<And>v. conns_of t2 v = conns_of t1 v"
  have "conns_of (DecrementConns (he_off e) t2 (Username user) (he_clk e 9)) v = conns_of t v" for v
    using keep assms(2) unfolding t1 by (intro conns.bracket) auto
  then show ?thesis using bw by blast
qed

lemma serve_admitted_egress:
  "filter is_egress (hp_events (snd (serve_admitted e s w r user))) = filter is_egress (hp_events s) @
     (if rq_Method r = ''CONNECT'' then [Dial (if contains (rq_Host r) '':'' then rq_Host r else rq_Host r @ '':443'')]
      else if rq_Scheme r = [] then [] else [RoundTrip (outReq r)])"
  by (auto simp: serve_admitted_def handleConnect_def handleHTTP_def Let_def case_prod_beta is_egress_def
      split: option.splits)

lemma hopByHop_canonical: "list_all (\<lambda>k. canonical_key k = k) hopByHop"
  by code_simp

lemma outReq_header: "rq_Header (outReq r) k = (if k \<in> set hopByHop then None else rq_Header r k)"
proof -
  have del: "fold (\<lambda>k h. header_del h k) ks h k = (if k \<in> set ks then None else h k)"
    if "list_all (\<lambda>k. canonical_key k = k) ks" for ks h
    using that by (induction ks arbitrary: h) (auto simp: header_del_def)
  have "canonical_key ''Proxy-Authorization'' = ''Proxy-Authorization''" "''Proxy-Authorization'' \<in> set hopByHop"
    using hopByHop_canonical by (simp_all add: hopByHop_def)
  then show ?thesis
    unfolding outReq_def removeHopByHopHeaders_def
    by (simp add: header_del_def [of "fold _ _ _"] del [OF hopByHop_canonical])
qed

lemma handleRequest_egress:
  assumes "hp_events s = []"
  shows "filter is_egress (hp_events (snd (handleRequest e s new_response r))) \<in> {[],
     (if rq_Method r = ''CONNECT'' then [Dial (if contains (rq_Host r) '':'' then rq_Host r else rq_Host r @ '':443'')]
      else if rq_Scheme r = [] then [] else [RoundTrip (outReq r)])}"
proof (cases "for_pac s r")
  case True
  then show ?thesis using assms by (auto simp: for_pac_def handleRequest_def case_prod_beta Let_def)
next
  case False
  note eq = handleRequest_not_pac [OF False]
  show ?thesis
  proof (cases rule: handle_proxied_cases [of s r e])
    case (valid u p user s1)
    have "hp_events s1 = []" using assms valid(4) by simp
    then show ?thesis unfolding eq valid(5)
      by (auto simp: case_prod_beta Let_def serve_admitted_egress http_quota_events split: option.splits)
  qed (use assms in \<open>simp_all add: is_egress_def eq\<close>)
qed

section \<open>A name that nobody has in this spelling\<close>

lemma Allow_other: "n \<noteq> u \<Longrightarrow> rl_buckets (snd (Allow rl n t)) u = rl_buckets rl u"
  by (simp add: Allow_def case_prod_beta Let_def split: option.splits)

lemma serve_admitted_store: "hp_store (snd (serve_admitted e s w r user)) = hp_store s"
  by (simp add: serve_admitted_def handleConnect_def handleHTTP_def Let_def case_prod_beta split: option.splits)

lemma http_quota_store: "hp_store (snd (http_quota e s u user)) = snd (CheckRateLimit (he_deps e) (hp_store s) u (he_clk e 3))"
  by (simp add: http_quota_def Let_def case_prod_beta)

lemma http_quota_rate: "fst (http_quota e s u user) = None \<Longrightarrow> fst (CheckRateLimit (he_deps e) (hp_store s) u (he_clk e 3))"
  by (simp add: http_quota_passes policy_ok_def)

lemma pac_store:
  "\<exists>n p t t'. snd (snd (pac_ServeHTTP d h st w r clk)) = st \<or>
     snd (snd (pac_ServeHTTP d h st w r clk)) = snd (ValidateCredentials d st n p t t')"
  by (auto simp: pac_ServeHTTP_def serve_user_def Let_def case_prod_beta)

lemma Allow_no_bucket: "rl_buckets rl n = None \<Longrightarrow> rl_buckets (snd (Allow rl k t)) n = None"
  by (cases "k = n") (simp_all add: Allow_def case_prod_beta Let_def split: option.splits)

text \<open>
  The state of the server as far as the name \<open>n\<close> is concerned, when no user of the store is spelled so: it
  has no bucket, no bytes and no connections.
\<close>

definition unseen_store :: "deps \<Rightarrow> string \<Rightarrow> UserStore \<Rightarrow> bool" where
  "unseen_store d n st \<longleftrightarrow> store_inv d st \<and> rl_buckets (us_rateLimiter st) n = None \<and>
     (\<forall>k x. us_users st k = Some x \<longrightarrow> Username x \<noteq> n)"

definition unseen_tracker :: "string \<Rightarrow> Tracker option \<Rightarrow> bool" where
  "unseen_tracker n bw \<longleftrightarrow> (\<exists>t. bw = Some t \<and> total_of t n = 0 \<and> conns_of t n = 0)"

lemma unseen_store_Validate: "unseen_store d n st \<Longrightarrow> unseen_store d n (snd (ValidateCredentials d st k p t t'))"
  by (simp add: unseen_store_def store_inv_ValidateCredentials store_simps)

lemma unseen_store_RateLimit: "unseen_store d n st \<Longrightarrow> unseen_store d n (snd (CheckRateLimit d st k t))"
  unfolding unseen_store_def
  by (simp add: store_inv_CheckRateLimit store_simps) (simp add: CheckRateLimit_def case_prod_beta Allow_no_bucket split: option.splits)

lemma unseen_http_quota:
  assumes "unseen_tracker n (hp_bw s)"
  shows "unseen_tracker n (hp_bw (snd (http_quota e s u user)))"
proof -
  have r: "total_of (checkMonthlyReset (he_wr e) (he_off e) t now) n = 0" if "total_of t n = 0" for t now
    using that by (simp add: checkMonthlyReset_total)
  obtain t where "hp_bw s = Some t" "total_of t n = 0" "conns_of t n = 0" using assms by (auto simp: unseen_tracker_def)
  then show ?thesis
    by (simp add: unseen_tracker_def http_quota_def Let_def case_prod_beta CheckConnLimit_keeps CheckAllowance_total r)
qed

lemma unseen_serve_admitted:
  assumes "unseen_tracker n (hp_bw s)" "Username user \<noteq> n"
  shows "unseen_tracker n (hp_bw (snd (serve_admitted e s w r user)))"
proof -
  obtain t where t: "hp_bw s = Some t" "total_of t n = 0" "conns_of t n = 0" using assms(1) by (auto simp: unseen_tracker_def)
  show ?thesis
  proof (rule serve_admitted_bw [OF t(1), of e w r user])
    fix t1 t2
    assume bw: "hp_bw (snd (serve_admitted e s w r user)) = Some (DecrementConns (he_off e) t2 (Username user) (he_clk e 9))"
      and t1: "t1 = IncrementConns (he_off e) t (Username user) (he_clk e 7)"
      and keep: "\<And>v. conns_of t2 v = conns_of t1 v"
      and t2: "t2 = t1 \<or> (\<exists>up down. t2 = RecordBytes (he_wr e) (he_off e) t1 (Username user) up down (he_clk e 8))"
    have "conns_of t2 n = 0" using keep t(3) assms(2) by (simp add: t1 IncrementConns_conns)
    moreover have "total_of t2 n = 0" using t2 t(2) assms(2) by (auto simp: t1 RecordBytes_total IncrementConns_total checkMonthlyReset_total)
    ultimately show ?thesis using bw assms(2) by (simp add: unseen_tracker_def DecrementConns_conns DecrementConns_total)
  qed
qed

text \<open>The store is changed by credential checks and rate limit checks only.\<close>

lemma handleRequest_store_keeps:
  assumes "P (hp_store s)" and v: "\<And>st n p t t'. P st \<Longrightarrow> P (snd (ValidateCredentials (he_deps e) st n p t t'))"
    and q: "\<And>st n t. P st \<Longrightarrow> P (snd (CheckRateLimit (he_deps e) st n t))"
  shows "P (hp_store (snd (handleRequest e s new_response r)))"
proof (cases "for_pac s r")
  case True
  then obtain h where h: "hp_pac s = Some h" by (auto simp: for_pac_def)
  then have "hp_store (snd (handleRequest e s new_response r)) =
      snd (snd (pac_ServeHTTP (he_deps e) h (hp_store s) new_response r (\<lambda>i. he_clk e (10 + i))))"
    using True by (auto simp: for_pac_def handleRequest_def case_prod_beta Let_def)
  then show ?thesis using pac_store [of "he_deps e" h "hp_store s" new_response r "\<lambda>i. he_clk e (10 + i)"] assms(1) v by auto
next
  case False
  have "P (hp_store (snd (handle_proxied e s new_response r)))"
  proof (cases rule: handle_proxied_cases [of s r e])
    case (valid u p user s1)
    have s1: "P (hp_store s1)" using assms(1) v by (simp add: valid(4))
    then show ?thesis unfolding valid(5)
      by (auto simp: case_prod_beta serve_admitted_store http_quota_store q split: option.splits)
  qed (use assms(1) v in simp_all)
  then show ?thesis by (simp add: handleRequest_not_pac [OF False])
qed

lemma handleRequest_unseen:
  fixes r :: http_request
  assumes "unseen_store (he_deps e) n (hp_store s)" "unseen_tracker n (hp_bw s)"
  defines "s' \<equiv> snd (handleRequest e s new_response r)"
  shows "unseen_store (he_deps e) n (hp_store s')" "unseen_tracker n (hp_bw s')"
proof -
  show "unseen_store (he_deps e) n (hp_store s')" unfolding s'_def
    by (rule handleRequest_store_keeps [of "unseen_store (he_deps e) n"]) (simp_all add: assms(1) unseen_store_Validate unseen_store_RateLimit)
  show "unseen_tracker n (hp_bw s')"
  proof (cases "for_pac s r")
    case True
    then show ?thesis using assms(2) by (auto simp: s'_def for_pac_def handleRequest_def case_prod_beta Let_def)
  next
    case False
    then have s': "s' = snd (handle_proxied e s new_response r)" by (simp add: s'_def handleRequest_not_pac)
    show ?thesis
    proof (cases rule: handle_proxied_cases [of s r e])
      case (valid u p user s1)
      define q where "q = (if exempt (hp_store s1) (rq_RemoteAddr r) user then (None, s1) else http_quota e s1 u user)"
      have q: "unseen_tracker n (hp_bw (snd q))" using assms(2) unseen_http_quota by (simp add: q_def valid(4))
      have "GetUser (he_deps e) (hp_store s) u = Some user"
        using validated_user(1) [OF _ valid(3)] assms(1) by (simp add: unseen_store_def)
      then have "Username user \<noteq> n" using assms(1) by (auto simp: unseen_store_def GetUser_def)
      then have "unseen_tracker n (hp_bw (snd (serve_admitted e (snd q) new_response r user)))" by (rule unseen_serve_admitted [OF q])
      then show ?thesis using q unfolding s' valid(5) q_def [symmetric] by (auto simp: case_prod_beta split: option.splits)
    qed (use assms(2) in \<open>simp_all add: s'\<close>)
  qed
qed

text \<open>A server that handles one request after the other.\<close>

fun http_run :: "(http_env \<times> http_request) list \<Rightarrow> http_server \<Rightarrow> http_server" where
  "http_run [] s = s"
| "http_run ((e, r) # reqs) s = http_run reqs (snd (handleRequest e s new_response r))"

lemma http_run_unseen:
  "list_all (\<lambda>(e, r). he_deps e = d) reqs \<Longrightarrow> unseen_store d n (hp_store s) \<Longrightarrow> unseen_tracker n (hp_bw s) \<Longrightarrow>
   unseen_store d n (hp_store (http_run reqs s)) \<and> unseen_tracker n (hp_bw (http_run reqs s))"
proof (induction reqs s rule: http_run.induct)
  case (2 e r reqs s)
  have "unseen_store d n (hp_store (snd (handleRequest e s new_response r))) \<and> unseen_tracker n (hp_bw (snd (handleRequest e s new_response r)))"
    using handleRequest_unseen [of e n s r] 2(2-4) by auto
  then show ?case using 2(1,2) by simp
qed simp

text \<open>Where such a state comes from, and that it passes every check but the expiry date.\<close>

lemma NewUserStore_unseen:
  assumes "sha_ok d" "NewUserStore d (Decoded cfg) order now = Inr st" "n \<notin> Username ` set (Users cfg)"
  shows "unseen_store d n st"
proof -
  have "Username x \<noteq> n" if "us_users st k = Some x" for k x
    using load_users_source [of d "Users cfg" Map.empty NewRateLimiter now k x] that assms(3)
    by (auto simp: NewUserStore_users(1) [OF assms(2)])
  then show ?thesis
    using store_inv_LoadFromFile [OF assms(1) NewUserStore_LoadFromFile [OF assms(2)]] loaded_no_bucket [OF assms(2,3)]
    by (simp add: unseen_store_def)
qed

lemma unseen_passes:
  assumes "unseen_store d n st" "unseen_tracker n bw" "GetUser d st n = Some user" "CheckExpiry d st n (clk 4)"
    and "BandwidthLimitGB user < 2 ^ 33"
  shows "policy_ok d wr off clk st bw n user"
proof -
  obtain t where t: "bw = Some t" "total_of t n = 0" "conns_of t n = 0" using assms(2) by (auto simp: unseen_tracker_def)
  have "CheckRateLimit d st n (clk 3) = (True, st)"
    using assms(1,3) by (auto simp: unseen_store_def GetUser_def intro: CheckRateLimit_no_bucket)
  moreover have "fst (CheckAllowance wr off t n (BandwidthLimitGB user) now)" for now
    using t(2) assms(5) by (cases "BandwidthLimitGB user \<le> 0") (simp_all add: CheckAllowance_answer checkMonthlyReset_total)
  ultimately show ?thesis using t assms(4) by (auto simp: policy_ok_def)
qed

section \<open>Properties\<close>

text \<open>C1: nothing leaves the proxy unauthorised: if serving a request dials a host or forwards a
  request, then the client address passed the white list, the request carried credentials of a
  user of the store whose stored hash accepted the password, and either that user is the super
  admin calling from a super admin network or the rate limit, the expiry date, the bandwidth
  cap and the connection limit all passed.\<close>

theorem http_egress_admitted:
  assumes "store_inv (he_deps e) (hp_store s)" and "hp_events s = []"
    and "handleRequest e s new_response r = (w, s')"
    and "ev \<in> set (hp_events s')" and "is_egress ev"
  shows "CheckIPAllowed (hp_store s) (rq_RemoteAddr r) \<and>
    (\<exists>u p user. parseProxyAuth r = Some (u, p) \<and> legit (he_deps e) (hp_store s) u p user \<and>
       (Role user = ''super_admin'' \<and> IsSuperAdminIP (hp_store s) (rq_RemoteAddr r) \<noteq> None \<or>
        quota_ok e s u user))"
proof -
  have out: "filter is_egress (hp_events s') \<noteq> []" using assms(4,5) by (auto simp: filter_empty_conv)
  have "\<not> for_pac s r"
  proof
    assume "for_pac s r"
    then have "hp_events s' = []"
      using assms(2,3) by (auto simp: for_pac_def handleRequest_def case_prod_beta Let_def)
    then show False using out by simp
  qed
  then have s': "s' = snd (handle_proxied e s new_response r)"
    using assms(3) handleRequest_not_pac by simp
  show ?thesis
  proof (cases rule: handle_proxied_cases [of s r e])
    case (valid u p user s1)
    have "legit (he_deps e) (hp_store s) u p user"
      using assms(1) valid(3) by (rule ValidateCredentials_sound)
    moreover have "exempt (hp_store s1) (rq_RemoteAddr r) user \<or> fst (http_quota e s1 u user) = None"
      using out http_quota_events [of e s1 u user] assms(2) valid(4)
      unfolding s' valid(5) by (auto simp: case_prod_beta split: if_splits option.splits)
    ultimately show ?thesis using valid(1,2)
      by (auto simp: exempt_def valid(4) http_quota_passes)
  qed (use out assms(2) s' in \<open>simp_all add: is_egress_def\<close>)
qed

definition demo_env :: http_env where
  "demo_env = \<lparr>he_deps = demo_deps, he_wr = (\<lambda>_. GoodFile), he_off = 0, he_clk = (\<lambda>i. int i), he_dial = (\<lambda>_. True),
     he_hijacker = True, he_hijack = True, he_clientTCP = True, he_relay = (10, 20),
     he_roundtrip = (\<lambda>_. None), he_copied = (\<lambda>b. b)\<rparr>"

definition demo_http :: http_server where
  "demo_http = \<lparr>hp_store = demo_store, hp_bw = Some demo_tracker, hp_pac = None, hp_events = []\<rparr>"

definition demo_connect :: http_request where
  "demo_connect = demo_request\<lparr>rq_Method := ''CONNECT'',
     rq_Header := header_set Map.empty ''Proxy-Authorization'' (''Basic '' @ b64_encode_string ''Bob:pw'')\<rparr>"

lemma parseProxyAuth_basic:
  "parseProxyAuth (r\<lparr>rq_Header := header_set h ''Proxy-Authorization'' (''Basic '' @ b64_encode_string c)\<rparr>) =
     (case index_byte c (CHR '':'') of None \<Rightarrow> None | Some i \<Rightarrow> Some (take i c, drop (i + 1) c))"
  using b64_roundtrip [of c] by (simp add: parseProxyAuth_def header_get_set has_prefix_def Let_def)

lemma demo_connect_auth: "parseProxyAuth demo_connect = Some (''Bob'', ''pw'')"
  unfolding demo_connect_def using parseProxyAuth_basic [where r = "demo_request\<lparr>rq_Method := ''CONNECT''\<rparr>"
      and h = Map.empty and c = "''Bob:pw''"]
  by simp

lemma demo_allow: "fst (Allow (SetLimit NewRateLimiter ''Bob'' 60 0) ''Bob'' 3)"
proof -
  have "1 \<le> fl64 (10 + fl64 (seconds (time_sub 3 0)))"
    using seconds_nonneg [of 0 3] by (intro f64.rnd_ge_fixed) simp_all
  then show ?thesis
    by (simp add: Allow_def SetLimit_def NewRateLimiter_def bucket_allow_eq refilled_def Let_def
        case_prod_beta fdiv_def)
qed

lemma demo_expiry: "parse_rfc3339 ''2030-01-01T00:00:00Z'' = Some 1893456000000000000"
  by code_simp

lemma demo_env_simps [simp]:
  "he_deps demo_env = demo_deps" "he_wr demo_env = (\<lambda>_. GoodFile)" "he_off demo_env = 0" "he_clk demo_env i = int i"
  "he_dial demo_env h" "he_hijacker demo_env" "he_hijack demo_env" "he_relay demo_env = (10, 20)"
  "hp_store demo_http = demo_store" "hp_bw demo_http = Some demo_tracker" "hp_pac demo_http = None"
  "hp_events demo_http = []"
  by (simp_all add: demo_env_def demo_http_def)

lemma demo_admitted:
  "handle_proxied demo_env demo_http new_response demo_connect =
     serve_admitted demo_env (snd (http_quota demo_env
       (demo_http\<lparr>hp_store := snd (ValidateCredentials demo_deps demo_store ''Bob'' ''pw'' 1 2)\<rparr>) ''Bob'' demo_user))
       new_response demo_connect demo_user"
proof -
  have v: "fst (ValidateCredentials demo_deps demo_store ''Bob'' ''pw'' 1 2) = Some demo_user"
    using ValidateCredentials_complete [OF demo_store_inv, of "''Bob''" demo_user "''pw''"]
    by (simp add: demo_store_def)
  have "quota_ok demo_env demo_http ''Bob'' demo_user"
    using demo_allow by (simp add: policy_ok_def CheckRateLimit_def CheckExpiry_def demo_store_def
        case_prod_beta demo_expiry CheckAllowance_answer checkMonthlyReset_total)
      (simp add: total_of_def conns_of_def demo_tracker_def)
  then have "fst (http_quota demo_env
      (demo_http\<lparr>hp_store := snd (ValidateCredentials demo_deps demo_store ''Bob'' ''pw'' 1 2)\<rparr>) ''Bob'' demo_user) = None"
    by (simp add: http_quota_passes)
  moreover have "CheckIPAllowed demo_store ip" for ip
    by (simp add: CheckIPAllowed_def demo_store_def empty_store_def)
  ultimately show ?thesis using v demo_connect_auth
    by (simp add: handle_proxied_def Let_def case_prod_beta)
qed

theorem http_egress_admitted_witness:
  "\<exists>w s' u p user. handleRequest demo_env demo_http new_response demo_connect = (w, s') \<and>
     Dial ''example.com:443'' \<in> set (hp_events s') \<and>
     parseProxyAuth demo_connect = Some (u, p) \<and> legit demo_deps demo_store u p user"
proof -
  obtain w s' where run: "handleRequest demo_env demo_http new_response demo_connect = (w, s')" by fastforce
  then have "s' = snd (handle_proxied demo_env demo_http new_response demo_connect)"
    by (simp add: handleRequest_def)
  then have "filter is_egress (hp_events s') = [Dial ''example.com:443'']"
    by (simp add: demo_admitted serve_admitted_egress http_quota_events)
      (simp add: demo_connect_def demo_request_def has_prefix_def)
  then have "Dial ''example.com:443'' \<in> set (filter is_egress (hp_events s'))" by simp
  then have d: "Dial ''example.com:443'' \<in> set (hp_events s')" by (simp only: set_filter mem_Collect_eq)
  show ?thesis
    using http_egress_admitted [OF _ _ run d] demo_store_inv run d by (simp add: is_egress_def) blast
qed

text \<open>C21: the credentials a client encodes as RFC 7617 prescribes are the ones the proxy checks, for
  every user name without a colon, every password (colons included) and every other header.\<close>

theorem proxy_auth_roundtrip:
  assumes "CHR '':'' \<notin> set username"
  shows "parseProxyAuth (r\<lparr>rq_Header := header_set h ''Proxy-Authorization''
           (''Basic '' @ b64_encode_string (username @ '':'' @ password))\<rparr>) = Some (username, password)"
  unfolding parseProxyAuth_basic using index_byte_append [OF assms, of password] by simp

theorem proxy_auth_roundtrip_witness:
  "parseProxyAuth (demo_request\<lparr>rq_Header := header_set Map.empty ''Proxy-Authorization''
     (''Basic '' @ b64_encode_string (''bob'' @ '':'' @ ''a:b''))\<rparr>) = Some (''bob'', ''a:b'')"
  by (rule proxy_auth_roundtrip) simp

text \<open>C22: every request leaves the connection counts as it found them: for every user the number
  of active connections in the tracker is the same after \<^verbatim>\<open>handleRequest\<close> as before, whatever the
  outcome, and the active connections gauge was raised as often as it was lowered.\<close>

theorem http_conns_balanced:
  assumes "hp_bw s = Some t" and "\<And>v. 0 \<le> conns_of t v \<and> conns_of t v < 2 ^ 63 - 1"
    and "hp_events s = []"
    and "handleRequest e s new_response r = (w, s')"
  shows "(\<exists>t'. hp_bw s' = Some t' \<and> (\<forall>v. conns_of t' v = conns_of t v)) \<and>
    count_list (hp_events s') (HCall HMetricActiveConns [] MInc) = count_list (hp_events s') (HCall HMetricActiveConns [] MDec)"
proof (cases "for_pac s r")
  case True
  then have "hp_bw s' = Some t" "hp_events s' = []"
    using assms by (auto simp: for_pac_def handleRequest_def case_prod_beta Let_def)
  then show ?thesis by simp
next
  case False
  then have s': "s' = snd (handle_proxied e s new_response r)" using assms(4) handleRequest_not_pac by simp
  show ?thesis
  proof (cases rule: handle_proxied_cases [of s r e])
    case (valid u p user s1)
    define s2 where "s2 = snd (if exempt (hp_store s1) (rq_RemoteAddr r) user then (None, s1) else http_quota e s1 u user)"
    have bw1: "hp_bw s1 = Some t" using assms(1) valid(4) by simp
    have "\<exists>t2. hp_bw s2 = Some t2 \<and> (\<forall>v. conns_of t2 v = conns_of t v)"
      using http_quota_conns [OF bw1, of e u user] bw1 by (simp add: s2_def)
    then obtain t2 where t2: "hp_bw s2 = Some t2" "\<And>v. conns_of t2 v = conns_of t v" by blast
    have ev: "count_list (hp_events s2) (HCall HMetricActiveConns [] MInc) = count_list (hp_events s2) (HCall HMetricActiveConns [] MDec)"
      using assms(3) valid(4) by (simp add: s2_def http_quota_activity)
    have "s' = s2 \<or> s' = snd (serve_admitted e s2 new_response r user)"
      unfolding s' valid(5) s2_def by (auto simp: case_prod_beta Let_def split: option.splits)
    then show ?thesis
      using t2 ev serve_admitted_activity [OF ev] serve_admitted_conns [OF t2(1)] assms(2) by auto
  qed (use assms s' in simp_all)
qed

theorem http_conns_balanced_witness:
  "\<exists>t'. hp_bw (snd (handleRequest demo_env demo_http new_response demo_connect)) = Some t' \<and>
     conns_of t' ''Bob'' = 0"
proof -
  obtain w s' where run: "handleRequest demo_env demo_http new_response demo_connect = (w, s')" by fastforce
  have "conns_of demo_tracker v = 0" for v by (simp add: conns_of_def demo_tracker_def)
  then show ?thesis using http_conns_balanced [OF _ _ _ run, of demo_tracker] run by auto
qed

text \<open>C23: one request causes at most one outgoing action, to the host the client asked for: a
  \<^verbatim>\<open>CONNECT\<close> dials exactly the request's host (port 443 when there is none), any other method
  forwards the client's request unchanged but for its headers, without the hop-by-hop headers
  and in particular without the client's proxy credentials.\<close>

theorem http_forwards_faithfully:
  assumes "hp_events s = []" and "handleRequest e s new_response r = (w, s')"
    and "ev \<in> set (hp_events s')" and "is_egress ev"
  shows "length (filter is_egress (hp_events s')) = 1 \<and>
    (if rq_Method r = ''CONNECT''
     then ev = Dial (if contains (rq_Host r) '':'' then rq_Host r else rq_Host r @ '':443'')
     else \<exists>q. ev = RoundTrip q \<and> q = r\<lparr>rq_Header := rq_Header q\<rparr> \<and> rq_Scheme q \<noteq> [] \<and>
       (\<forall>k. rq_Header q k = (if k \<in> set hopByHop then None else rq_Header r k)) \<and>
       rq_Header q ''Proxy-Authorization'' = None)"
proof -
  have s': "snd (handleRequest e s new_response r) = s'" using assms(2) by simp
  define L where "L = filter is_egress (hp_events s')"
  have mem: "ev \<in> set L" using assms(3,4) by (simp add: L_def)
  then have L: "L = (if rq_Method r = ''CONNECT''
      then [Dial (if contains (rq_Host r) '':'' then rq_Host r else rq_Host r @ '':443'')]
      else if rq_Scheme r = [] then [] else [RoundTrip (outReq r)])"
    using handleRequest_egress [OF assms(1), of e r] unfolding s' L_def [symmetric] by fastforce
  show ?thesis
  proof (cases "rq_Method r = ''CONNECT''")
    case True
    then show ?thesis using L mem unfolding L_def [symmetric] by simp
  next
    case False
    then have q: "ev = RoundTrip (outReq r)" "rq_Scheme r \<noteq> []" "length L = 1"
      using L mem by (auto split: if_splits)
    moreover have "outReq r = r\<lparr>rq_Header := rq_Header (outReq r)\<rparr>" "rq_Scheme (outReq r) = rq_Scheme r"
      by (simp_all add: outReq_def)
    moreover have "''Proxy-Authorization'' \<in> set hopByHop" by (simp add: hopByHop_def)
    ultimately show ?thesis using False unfolding L_def [symmetric]
      by (auto simp only: outReq_header if_True if_False)
  qed
qed

theorem http_forwards_faithfully_witness:
  "\<exists>w s'. handleRequest demo_env demo_http new_response demo_connect = (w, s') \<and>
     filter is_egress (hp_events s') = [Dial ''example.com:443''] \<and>
     length (filter is_egress (hp_events s')) = 1"
proof -
  obtain w s' where run: "handleRequest demo_env demo_http new_response demo_connect = (w, s')" by fastforce
  then have "s' = snd (handle_proxied demo_env demo_http new_response demo_connect)"
    by (simp add: handleRequest_def)
  then have f: "filter is_egress (hp_events s') = [Dial ''example.com:443'']"
    by (simp add: demo_admitted serve_admitted_egress http_quota_events)
      (simp add: demo_connect_def demo_request_def has_prefix_def)
  then have "Dial ''example.com:443'' \<in> set (filter is_egress (hp_events s'))" by simp
  then have d: "Dial ''example.com:443'' \<in> set (hp_events s')" "is_egress (Dial ''example.com:443'')"
    by (simp_all only: set_filter mem_Collect_eq)
  show ?thesis using http_forwards_faithfully [OF _ run d] run f by simp
qed


text \<open>Bob has used more than a thousand times his cap of 5 GB. As \<open>''Bob''\<close> he is refused, as \<open>''bob''\<close> he is connected.\<close>

definition demo_conf :: Config where
  "demo_conf = default_config ((LoadEnv id (\<lambda>_. []))\<lparr>ec_PACEnabled := False\<rparr>)"

definition demo_over :: Tracker where
  "demo_over = demo_tracker\<lparr>tr_users := [''Bob'' \<mapsto> (new_usage 0 0)\<lparr>TotalBytes := 2 ^ 43\<rparr>],
     tr_disk := GoodFile \<lparr>uf_Month = format_month 0 0, uf_Users = Some [''Bob'' \<mapsto> (new_usage 0 0)\<lparr>TotalBytes := 2 ^ 43\<rparr>]\<rparr>\<rparr>"

definition demo_bypass :: http_request where
  "demo_bypass = demo_request\<lparr>rq_Method := ''CONNECT'',
     rq_Header := header_set Map.empty ''Proxy-Authorization'' (''Basic '' @ b64_encode_string ''bob:pw'')\<rparr>"

lemma demo_over_loaded:
  "NewTracker 0 (GoodFile \<lparr>uf_Month = format_month 0 0, uf_Users = Some [''Bob'' \<mapsto> (new_usage 0 0)\<lparr>TotalBytes := 2 ^ 43\<rparr>]\<rparr>) 0
     = Some demo_over"
  by (auto simp: NewTracker_def loadFromDisk_def demo_over_def demo_tracker_def new_usage_def fun_eq_iff)

lemma demo_new_server:
  "http_NewServer demo_conf st bw = \<lparr>hp_store = st, hp_bw = bw, hp_pac = None, hp_events = []\<rparr>"
  by (simp add: http_NewServer_def demo_conf_def default_config_def)

lemma demo_over_refused:
  fixes s :: http_server
  defines "s \<equiv> http_run [(demo_env, demo_connect)] (http_NewServer demo_conf demo_store (Some demo_over))"
  shows "filter is_egress (hp_events s) = []" "us_users (hp_store s) = us_users demo_store"
    "us_ipWhitelist (hp_store s) = []" "hp_pac s = None"
proof -
  let ?s = "\<lparr>hp_store = demo_store, hp_bw = Some demo_over, hp_pac = None, hp_events = []\<rparr> :: http_server"
  have s: "s = snd (handle_proxied demo_env ?s new_response demo_connect)"
    by (simp add: s_def demo_new_server handleRequest_def)
  have m: "format_month 0 5 = format_month 0 0" by code_simp
  have "\<not> fst (CheckAllowance (\<lambda>_. GoodFile) 0 demo_over ''Bob'' 5 5)"
    by (simp add: CheckAllowance_answer checkMonthlyReset_total m) (simp add: demo_over_def total_of_def demo_tracker_def)
  then have no: "\<not> quota_ok demo_env ?s ''Bob'' demo_user" by (simp add: policy_ok_def)
  have v: "fst (ValidateCredentials demo_deps demo_store ''Bob'' ''pw'' 1 2) = Some demo_user"
    using ValidateCredentials_complete [OF demo_store_inv, of "''Bob''" demo_user "''pw''"] by (simp add: demo_store_def)
  have w: "us_ipWhitelist demo_store = []" by (simp add: demo_store_def empty_store_def)
  have "filter is_egress (hp_events s) = [] \<and> us_users (hp_store s) = us_users demo_store \<and>
    us_ipWhitelist (hp_store s) = [] \<and> hp_pac s = None"
  proof (cases rule: handle_proxied_cases [of ?s demo_connect demo_env])
    case (valid u p user s1)
    have same: "u = ''Bob''" "user = demo_user" using valid(2,3) demo_connect_auth v by simp_all
    have "\<not> exempt (hp_store s1) (rq_RemoteAddr demo_connect) demo_user" by (simp add: exempt_def)
    moreover obtain msg code where "fst (http_quota demo_env s1 ''Bob'' demo_user) = Some (msg, code)"
      using no by (cases "fst (http_quota demo_env s1 ''Bob'' demo_user)") (auto simp: http_quota_passes valid(4))
    ultimately have "s = snd (http_quota demo_env s1 ''Bob'' demo_user)"
      unfolding s valid(5) same by (simp add: case_prod_beta)
    then show ?thesis using w by (simp add: http_quota_events http_quota_store http_quota_frame valid(4) store_simps)
  qed (use demo_connect_auth v w in \<open>simp_all add: CheckIPAllowed_def\<close>)
  then show "filter is_egress (hp_events s) = []" "us_users (hp_store s) = us_users demo_store"
    "us_ipWhitelist (hp_store s) = []" "hp_pac s = None" by simp_all
qed


text \<open>C25: the refusals, in the order of the code: a blocked address gets 403, missing or wrong
  credentials 407, and then, unless the super admin calls from a listed address, an exhausted
  rate limit 429, an expired account 403, an exhausted bandwidth cap 403 and too many
  connections 429; a refused request causes no outgoing action.\<close>

theorem http_refusals:
  fixes e :: http_env and u p :: string
  assumes "\<not> for_pac s r" and "hp_events s = []" and "hp_bw s = Some t"
    and "handleRequest e s new_response r = (w, s')"
  defines "ip \<equiv> CheckIPAllowed (hp_store s) (rq_RemoteAddr r)"
    and "user \<equiv> fst (ValidateCredentials (he_deps e) (hp_store s) u p (he_clk e 1) (he_clk e 2))"
    and "rate \<equiv> fst (CheckRateLimit (he_deps e) (hp_store s) u (he_clk e 3))"
    and "live \<equiv> CheckExpiry (he_deps e) (hp_store s) u (he_clk e 4)"
  shows "(\<not> ip \<longrightarrow> rs_status w = Some 403 \<and> filter is_egress (hp_events s') = []) \<and>
    (ip \<and> parseProxyAuth r = None \<longrightarrow> rs_status w = Some 407 \<and> filter is_egress (hp_events s') = []) \<and>
    (ip \<and> parseProxyAuth r = Some (u, p) \<and> user = None \<longrightarrow>
       rs_status w = Some 407 \<and> filter is_egress (hp_events s') = []) \<and>
    (\<forall>x. ip \<and> parseProxyAuth r = Some (u, p) \<and> user = Some x \<and>
       \<not> (Role x = ''super_admin'' \<and> IsSuperAdminIP (hp_store s) (rq_RemoteAddr r) \<noteq> None) \<and> \<not> quota_ok e s u x \<longrightarrow>
       rs_status w = Some (if \<not> rate then 429 else if \<not> live then 403
         else if \<not> fst (CheckAllowance (he_wr e) (he_off e) t u (BandwidthLimitGB x) (he_clk e 5)) then 403 else 429) \<and>
       filter is_egress (hp_events s') = [])"
proof -
  have run: "handle_proxied e s new_response r = (w, s')" using assms(1,4) handleRequest_not_pac by simp
  show ?thesis
  proof (cases rule: handle_proxied_cases [of s r e])
    case (valid u' p' x s1)
    have ipok: "ip" using valid(1) by (simp add: ip_def)
    have "rs_status w = Some (if \<not> rate then 429 else if \<not> live then 403
         else if \<not> fst (CheckAllowance (he_wr e) (he_off e) t u (BandwidthLimitGB x) (he_clk e 5)) then 403 else 429) \<and>
       filter is_egress (hp_events s') = []"
      if here: "u' = u" "p' = p"
        "\<not> (Role x = ''super_admin'' \<and> IsSuperAdminIP (hp_store s) (rq_RemoteAddr r) \<noteq> None)" "\<not> quota_ok e s u x"
    proof -
      have adm: "\<not> exempt (hp_store s1) (rq_RemoteAddr r) x"
        using here(3) by (simp add: exempt_def valid(4))
      have q: "fst (http_quota e s1 u x) \<noteq> None"
        using here(1,4) by (simp add: http_quota_passes valid(4))
      then obtain msg code where mc: "fst (http_quota e s1 u x) = Some (msg, code)" by auto
      have bw: "hp_bw s1 = Some t" using assms(3) by (simp add: valid(4))
      have rl: "fst (CheckRateLimit (he_deps e) (hp_store s1) u (he_clk e 3)) = rate"
        by (simp add: rate_def valid(4) CheckRateLimit_Validate)
      have ex: "CheckExpiry (he_deps e) (hp_store s1) u (he_clk e 4) = live"
        by (simp add: live_def valid(4))
      have "code = (if \<not> rate then 429 else if \<not> live then 403
         else if \<not> fst (CheckAllowance (he_wr e) (he_off e) t u (BandwidthLimitGB x) (he_clk e 5)) then 403 else 429)"
        using mc bw unfolding http_quota_def
        by (auto simp: Let_def case_prod_beta rl ex ask_tracker_answer split: if_splits)
      moreover have "w = http_error msg code new_response" "s' = snd (http_quota e s1 u x)"
        using run valid(5) adm mc here(1) by (auto simp: case_prod_beta Let_def)
      ultimately show ?thesis using http_quota_events [of e s1 u x] assms(2) by (simp add: valid(4))
    qed
    then show ?thesis using valid(2,3) ipok by (auto simp: user_def)
  qed (use run assms(2) in \<open>auto simp: ip_def user_def auth_required_def is_egress_def\<close>)
qed

theorem http_refusals_witness:
  "rs_status (fst (handleRequest demo_env demo_http new_response demo_request)) = Some 407"
proof -
  obtain w s' where run: "handleRequest demo_env demo_http new_response demo_request = (w, s')" by fastforce
  have "parseProxyAuth demo_request = None"
    by (simp add: parseProxyAuth_def demo_request_def header_get_def)
  moreover have "CheckIPAllowed demo_store ip" for ip
    by (simp add: CheckIPAllowed_def demo_store_def empty_store_def)
  ultimately show ?thesis
    using http_refusals [OF _ _ _ run, of demo_tracker] run by (simp add: for_pac_def)
qed

end
