(* ===== verification/Socks5.thy ===== *)
theory Socks5
  imports Access_Policy Throttle Env_Config Prometheus
begin

text \<open>
  \<^verbatim>\<open>internal/socks5/server.go\<close>: one SOCKS5 connection from the first byte to the end of the relay.
  The bytes the client will send are the list \<open>sk_in\<close>; \<^verbatim>\<open>io.ReadFull\<close> takes a prefix of it and
  fails when it is too short (the client closed the connection or the deadline passed). Replies,
  dials and metrics are logged in order in \<open>sk_events\<close>. What the network answers is the record
  \<open>socks_env\<close>.
\<close>

section \<open>Constants\<close>

definition Version5 :: byte where "Version5 = 5"
definition MethodNoAuth :: byte where "MethodNoAuth = 0"
definition MethodUserPass :: byte where "MethodUserPass = 2"
definition MethodNoAcceptable :: byte where "MethodNoAcceptable = 255"
definition UserPassVersion :: byte where "UserPassVersion = 1"
definition CmdConnect :: byte where "CmdConnect = 1"
definition AddrTypeIPv4 :: byte where "AddrTypeIPv4 = 1"
definition AddrTypeDomain :: byte where "AddrTypeDomain = 3"
definition AddrTypeIPv6 :: byte where "AddrTypeIPv6 = 4"
definition ReplySucceeded :: byte where "ReplySucceeded = 0"
definition ReplyHostUnreachable :: byte where "ReplyHostUnreachable = 4"
definition ReplyCmdNotSupported :: byte where "ReplyCmdNotSupported = 7"
definition ReplyAddrTypeNotSupported :: byte where "ReplyAddrTypeNotSupported = 8"

lemmas socks_consts = Version5_def MethodNoAuth_def MethodUserPass_def MethodNoAcceptable_def
  UserPassVersion_def CmdConnect_def AddrTypeIPv4_def AddrTypeDomain_def AddrTypeIPv6_def
  ReplySucceeded_def ReplyHostUnreachable_def ReplyCmdNotSupported_def ReplyAddrTypeNotSupported_def

section \<open>State, effects and surroundings\<close>

text \<open>The metrics of the package, and the effects of a connection.\<close>

datatype socks_metric =
    SMetricConnections | SMetricBytes | SMetricActiveConns | SMetricAuthFailures | SMetricRateLimited
  | SMetricErrors | SMetricDuration

datatype socks_event =
    Sent "byte list"
  | SCall socks_metric "string list" metric_op
  | SDial string
  | SCloseTarget
  | SCloseConn

record socks =
  sk_store :: UserStore
  sk_bw :: "Tracker option"
  sk_in :: "byte list"
  sk_events :: "socks_event list"

datatype socks_error =
    ReadError | UnsupportedVersion | NoAcceptableMethod | UnsupportedAuthVersion | AuthenticationFailed
  | UnsupportedCommand | UnsupportedAddressType

text \<open>
  How the relay went when the first of the two copies was done: the bytes each direction had
  moved, and whether its goroutine had finished and stored its count.
\<close>

record relay_outcome =
  ro_up :: int
  ro_down :: int
  ro_up_done :: bool
  ro_down_done :: bool

record socks_env =
  se_deps :: deps
  se_wr :: writer
  se_off :: int
  se_clk :: "nat \<Rightarrow> time"
  se_remote :: string
  se_dial :: "string \<Rightarrow> (byte list \<times> int) option"
  se_relay :: relay_outcome

definition slog :: "socks_event list \<Rightarrow> socks \<Rightarrow> socks" where
  "slog es s = s\<lparr>sk_events := sk_events s @ es\<rparr>"

definition send :: "byte list \<Rightarrow> socks \<Rightarrow> socks" where
  "send bs s = slog [Sent bs] s"

text \<open>\<^verbatim>\<open>io.ReadFull\<close> followed by the return of its error.\<close>

definition read_full ::
  "nat \<Rightarrow> (byte list \<Rightarrow> socks \<Rightarrow> (socks_error + 'a) \<times> socks) \<Rightarrow> socks \<Rightarrow> (socks_error + 'a) \<times> socks" where
  "read_full n k s =
     (if n \<le> length (sk_in s) then k (take n (sk_in s)) (s\<lparr>sk_in := drop n (sk_in s)\<rparr>)
      else (Inl ReadError, s\<lparr>sk_in := []\<rparr>))"

definition s_on_tracker :: "(Tracker \<Rightarrow> Tracker) \<Rightarrow> socks \<Rightarrow> socks" where
  "s_on_tracker f s = s\<lparr>sk_bw := map_option f (sk_bw s)\<rparr>"

definition s_ask_tracker :: "(Tracker \<Rightarrow> bool \<times> Tracker) \<Rightarrow> socks \<Rightarrow> bool \<times> socks" where
  "s_ask_tracker f s =
     (case sk_bw s of
        None \<Rightarrow> (True, s)
      | Some t \<Rightarrow> let (ok, t') = f t in (ok, s\<lparr>sk_bw := Some t'\<rparr>))"

section \<open>Operations\<close>

definition authenticateUser :: "socks_env \<Rightarrow> socks \<Rightarrow> (socks_error + string) \<times> socks" where
  "authenticateUser e s =
     read_full 2 (\<lambda>buf s.
       if buf ! 0 \<noteq> UserPassVersion then (Inl UnsupportedAuthVersion, s)
       else read_full (unat (buf ! 1)) (\<lambda>username s.
         read_full 1 (\<lambda>buf s.
           read_full (unat (buf ! 0)) (\<lambda>password s.
             let (valid, st) = ValidateCredentials (se_deps e) (sk_store s) (string_of_bytes username)
                                 (string_of_bytes password) (se_clk e 1) (se_clk e 2);
                 s = s\<lparr>sk_store := st\<rparr>
             in if valid = None
                then (Inl AuthenticationFailed, slog [SCall SMetricAuthFailures [''invalid_credentials''] MInc] (send [UserPassVersion, 1] s))
                else (Inr (string_of_bytes username), send [UserPassVersion, 0] s)) s) s) s) s"

definition handleMethodNegotiation :: "socks_env \<Rightarrow> socks \<Rightarrow> (socks_error + string) \<times> socks" where
  "handleMethodNegotiation e s =
     read_full 2 (\<lambda>buf s.
       if buf ! 0 \<noteq> Version5 then (Inl UnsupportedVersion, s)
       else read_full (unat (buf ! 1)) (\<lambda>methods s.
         if \<not> list_ex (\<lambda>m. m = MethodUserPass) methods
         then (Inl NoAcceptableMethod, slog [SCall SMetricAuthFailures [''no_auth_method''] MInc] (send [Version5, MethodNoAcceptable] s))
         else authenticateUser e (send [Version5, MethodUserPass] s)) s) s"

definition handleMethodNegotiationNoAuth :: "socks \<Rightarrow> (socks_error + string) \<times> socks" where
  "handleMethodNegotiationNoAuth s =
     read_full 2 (\<lambda>buf s.
       if buf ! 0 \<noteq> Version5 then (Inl UnsupportedVersion, s)
       else read_full (unat (buf ! 1)) (\<lambda>methods s. (Inr [], send [Version5, MethodNoAuth] s)) s) s"

text \<open>The ten reply bytes; the address is that of the outgoing connection, when there is one.\<close>

definition reply_bytes :: "byte \<Rightarrow> (byte list \<times> int) option \<Rightarrow> byte list" where
  "reply_bytes reply addr =
     [Version5, reply, 0, AddrTypeIPv4] @
     (case addr of
        None \<Rightarrow> replicate 6 0
      | Some (ip, port) \<Rightarrow>
          (case To4 ip of Some ip4 \<Rightarrow> ip4 | None \<Rightarrow> replicate 4 0) @
          (let p = (word_of_int port :: 16 word) in [ucast (drop_bit 8 p), ucast p]))"

definition sendReply :: "byte \<Rightarrow> (byte list \<times> int) option \<Rightarrow> socks \<Rightarrow> socks" where
  "sendReply reply addr s = send (reply_bytes reply addr) s"

definition be_uint16 :: "byte list \<Rightarrow> nat" where
  "be_uint16 b = unat (b ! 0) * 256 + unat (b ! 1)"

definition socks_handleRequest :: "socks \<Rightarrow> (socks_error + string) \<times> socks" where
  "socks_handleRequest s =
     read_full 4 (\<lambda>buf s.
       if buf ! 0 \<noteq> Version5 then (Inl UnsupportedVersion, s)
       else if buf ! 1 \<noteq> CmdConnect then (Inl UnsupportedCommand, sendReply ReplyCmdNotSupported None s)
       else
         let finish = (\<lambda>host s. read_full 2 (\<lambda>portBuf s.
                         (Inr (host @ '':'' @ nat_dec (be_uint16 portBuf)), s)) s)
         in if buf ! 3 = AddrTypeIPv4 then read_full 4 (\<lambda>addr s. finish (IP_String addr) s) s
            else if buf ! 3 = AddrTypeDomain then
              read_full 1 (\<lambda>buf s. read_full (unat (buf ! 0)) (\<lambda>domain s. finish (string_of_bytes domain) s) s) s
            else if buf ! 3 = AddrTypeIPv6 then read_full 16 (\<lambda>addr s. finish (IP_String addr) s) s
            else (Inl UnsupportedAddressType, sendReply ReplyAddrTypeNotSupported None s)) s"

text \<open>The checks between authentication and the request: \<open>True\<close> when the connection may go on.\<close>

definition socks_quota :: "socks_env \<Rightarrow> socks \<Rightarrow> string \<Rightarrow> User option \<Rightarrow> bool \<times> socks" where
  "socks_quota e s username user =
     (let (ok, st) = CheckRateLimit (se_deps e) (sk_store s) username (se_clk e 3);
          s = s\<lparr>sk_store := st\<rparr>
      in if \<not> ok then (False, slog [SCall SMetricRateLimited [username] MInc] s)
         else case user of
           None \<Rightarrow> (True, s)
         | Some u \<Rightarrow>
             if \<not> CheckExpiry (se_deps e) (sk_store s) username (se_clk e 4) then (False, s)
             else let (ok, s) = s_ask_tracker (\<lambda>t. CheckAllowance (se_wr e) (se_off e) t username
                                                  (BandwidthLimitGB u) (se_clk e 5)) s
                  in if \<not> ok then (False, s)
                     else s_ask_tracker (\<lambda>t. CheckConnLimit (se_off e) t username (MaxConnections u) (se_clk e 6)) s)"

text \<open>The counts the handler reads after the first \<^verbatim>\<open>done\<close>: a copy still running has stored none.\<close>

definition relay_counts :: "relay_outcome \<Rightarrow> int \<times> int" where
  "relay_counts ro = (if ro_up_done ro then ro_up ro else 0, if ro_down_done ro then ro_down ro else 0)"

text \<open>From the request to the end of the relay.\<close>

definition socks_serve :: "socks_env \<Rightarrow> socks \<Rightarrow> string \<Rightarrow> socks" where
  "socks_serve e s username =
     (case socks_handleRequest s of
        (Inl _, s) \<Rightarrow> s
      | (Inr targetAddr, s) \<Rightarrow>
          let s = slog [SDial targetAddr] s
          in case se_dial e targetAddr of
               None \<Rightarrow> slog [SCall SMetricErrors [''dial_failed''] MInc] (sendReply ReplyHostUnreachable None s)
             | Some localAddr \<Rightarrow>
                 let s = sendReply ReplySucceeded (Some localAddr) s;
                     (upBytes, downBytes) = relay_counts (se_relay e);
                     s = slog [SCall SMetricConnections [username] MInc, SCall SMetricBytes [username, ''upstream''] (MAdd upBytes),
                               SCall SMetricBytes [username, ''downstream''] (MAdd downBytes), SCall SMetricDuration [] MObserve] s;
                     s = s_on_tracker (\<lambda>t. RecordBytes (se_wr e) (se_off e) t username upBytes downBytes (se_clk e 8)) s
                 in slog [SCloseTarget] s)"

text \<open>The body of \<^verbatim>\<open>handleConnection\<close> after the white list; the deferred calls follow in \<open>handleConnection\<close>.\<close>

definition socks_session :: "socks_env \<Rightarrow> socks \<Rightarrow> socks" where
  "socks_session e s =
     (case handleMethodNegotiation e s of
        (Inl _, s) \<Rightarrow> s
      | (Inr username, s) \<Rightarrow>
          let user = GetUser (se_deps e) (sk_store s) username;
              isSuperAdmin = (case user of
                 None \<Rightarrow> False
               | Some u \<Rightarrow> Role u = ''super_admin'' \<and> IsSuperAdminIP (sk_store s) (se_remote e) \<noteq> None);
              (ok, s) = (if isSuperAdmin then (True, s) else socks_quota e s username user)
          in if \<not> ok then s
             else let s = s_on_tracker (\<lambda>t. IncrementConns (se_off e) t username (se_clk e 7)) s;
                      s = socks_serve e s username
                  in s_on_tracker (\<lambda>t. DecrementConns (se_off e) t username (se_clk e 9)) s)"

definition handleConnection :: "socks_env \<Rightarrow> socks \<Rightarrow> socks" where
  "handleConnection e s =
     (if \<not> CheckIPAllowed (sk_store s) (se_remote e)
      then slog [SCall SMetricAuthFailures [''ip_blocked''] MInc, SCloseConn] s
      else slog [SCall SMetricActiveConns [] MDec, SCloseConn] (socks_session e (slog [SCall SMetricActiveConns [] MInc] s)))"

section \<open>The accept loop and shutdown\<close>

text \<open>
  One turn of the loop of \<^verbatim>\<open>Start\<close>: whether the shutdown channel is closed before and after
  \<^verbatim>\<open>Accept\<close>, and what \<^verbatim>\<open>Accept\<close> returned.
\<close>

datatype accepted = Conn | AcceptTimeout | AcceptError

record accept_turn =
  at_shutdown_before :: bool
  at_result :: accepted
  at_shutdown_after :: bool

datatype loop_end = Stopped | Failed | StillRunning

text \<open>The number of connections handed to handlers, and how the loop ended.\<close>

fun socks_accept_loop :: "accept_turn list \<Rightarrow> nat \<times> loop_end" where
  "socks_accept_loop [] = (0, StillRunning)"
| "socks_accept_loop (t # ts) =
     (if at_shutdown_before t then (0, Stopped)
      else case at_result t of
             Conn \<Rightarrow> let (n, r) = socks_accept_loop ts in (Suc n, r)
           | AcceptTimeout \<Rightarrow> if at_shutdown_after t then (0, Stopped) else socks_accept_loop ts
           | AcceptError \<Rightarrow> if at_shutdown_after t then (0, Stopped) else (0, Failed))"

definition socks_Start :: "Config \<Rightarrow> (string \<Rightarrow> bool) \<Rightarrow> accept_turn list \<Rightarrow> (string + nat \<times> loop_end)" where
  "socks_Start cfg can_listen turns =
     (let addr = ec_SOCKS5Port (cfg_Env cfg);
          addr = (if addr = [] then '':1080'' else addr)
      in if \<not> can_listen addr then Inl addr else Inr (socks_accept_loop turns))"

text \<open>The shutdown channel and the listener; closing the channel twice panics (\<open>None\<close>).\<close>

record socks_life =
  sl_closed :: bool
  sl_listening :: bool

definition socks_NewServer :: socks_life where
  "socks_NewServer = \<lparr>sl_closed = False, sl_listening = False\<rparr>"

definition socks_watchShutdown :: "socks_life \<Rightarrow> socks_life option" where
  "socks_watchShutdown l = (if sl_closed l then None else Some \<lparr>sl_closed = True, sl_listening = False\<rparr>)"

definition socks_Shutdown :: "socks_life \<Rightarrow> socks_life option" where
  "socks_Shutdown l = (if sl_closed l then None else Some \<lparr>sl_closed = True, sl_listening = False\<rparr>)"

text \<open>
  A server that was built and listens can be stopped once, by the watcher of the context or by
  \<^verbatim>\<open>Shutdown\<close>; whichever comes second panics.
\<close>

lemma socks_stops_once:
  assumes "l = socks_NewServer\<lparr>sl_listening := up\<rparr>" and "f \<in> {socks_watchShutdown, socks_Shutdown}" and "g \<in> {socks_watchShutdown, socks_Shutdown}"
  shows "\<exists>l'. f l = Some l' \<and> \<not> sl_listening l' \<and> g l' = None"
  using assms by (auto simp: socks_NewServer_def socks_watchShutdown_def socks_Shutdown_def)

section \<open>Reading\<close>

lemma slog_fields [simp]:
  "sk_store (slog es s) = sk_store s" "sk_bw (slog es s) = sk_bw s" "sk_in (slog es s) = sk_in s"
  "sk_events (slog es s) = sk_events s @ es"
  by (simp_all add: slog_def)

lemma send_fields [simp]:
  "sk_store (send bs s) = sk_store s" "sk_bw (send bs s) = sk_bw s" "sk_in (send bs s) = sk_in s"
  "sk_events (send bs s) = sk_events s @ [Sent bs]"
  by (simp_all add: send_def)

lemma sendReply_fields [simp]:
  "sk_store (sendReply r a s) = sk_store s" "sk_bw (sendReply r a s) = sk_bw s" "sk_in (sendReply r a s) = sk_in s"
  "sk_events (sendReply r a s) = sk_events s @ [Sent (reply_bytes r a)]"
  by (simp_all add: sendReply_def)

lemma s_on_tracker_fields [simp]:
  "sk_store (s_on_tracker f s) = sk_store s" "sk_bw (s_on_tracker f s) = map_option f (sk_bw s)"
  "sk_in (s_on_tracker f s) = sk_in s" "sk_events (s_on_tracker f s) = sk_events s"
  by (simp_all add: s_on_tracker_def)

lemma s_ask_tracker_fields [simp]:
  "sk_store (snd (s_ask_tracker f s)) = sk_store s" "sk_in (snd (s_ask_tracker f s)) = sk_in s"
  "sk_events (snd (s_ask_tracker f s)) = sk_events s"
  "sk_bw (snd (s_ask_tracker f s)) = map_option (snd \<circ> f) (sk_bw s)"
  by (simp_all add: s_ask_tracker_def case_prod_beta Let_def split: option.splits)

lemma s_ask_tracker_answer: "fst (s_ask_tracker f s) \<longleftrightarrow> (\<forall>t. sk_bw s = Some t \<longrightarrow> fst (f t))"
  by (simp add: s_ask_tracker_def case_prod_beta Let_def split: option.splits)

lemma read_full_append:
  "length bs = n \<Longrightarrow> sk_in s = bs @ rest \<Longrightarrow> read_full n k s = k bs (s\<lparr>sk_in := rest\<rparr>)"
  by (simp add: read_full_def)

lemma read_full_cases:
  obtains (full) bs rest where "sk_in s = bs @ rest" "length bs = n" "read_full n k s = k bs (s\<lparr>sk_in := rest\<rparr>)"
  | (short) "read_full n k s = (Inl ReadError, s\<lparr>sk_in := []\<rparr>)"
  by (cases "n \<le> length (sk_in s)")
    (auto simp: read_full_def intro: that(1) [of "take n (sk_in s)" "drop n (sk_in s)"] that(2))

lemma read_full_Inr:
  assumes "fst (read_full n k s) = Inr x"
  obtains bs rest where "sk_in s = bs @ rest" "length bs = n" "read_full n k s = k bs (s\<lparr>sk_in := rest\<rparr>)"
    "fst (k bs (s\<lparr>sk_in := rest\<rparr>)) = Inr x"
proof (rule read_full_cases [of s n k])
  fix bs rest
  assume "sk_in s = bs @ rest" "length bs = n" "read_full n k s = k bs (s\<lparr>sk_in := rest\<rparr>)"
  then show thesis using that assms by simp
qed (use assms in simp)

text \<open>A property of the state that every read keeps holds after a handler built from reads.\<close>

lemma read_full_keeps:
  assumes "P s" "\<And>s x. P s \<Longrightarrow> P (s\<lparr>sk_in := x\<rparr>)" "\<And>bs s. P s \<Longrightarrow> P (snd (k bs s))"
  shows "P (snd (read_full n k s))"
  using assms by (simp add: read_full_def)

section \<open>What a client sends\<close>

definition client_greeting :: "byte list \<Rightarrow> byte list" where
  "client_greeting methods = [Version5, of_nat (length methods)] @ methods"

definition client_auth :: "byte list \<Rightarrow> byte list \<Rightarrow> byte list" where
  "client_auth un pw = [UserPassVersion, of_nat (length un)] @ un @ [of_nat (length pw)] @ pw"

datatype target = TargetIPv4 "byte list" | TargetDomain "byte list" | TargetIPv6 "byte list"

fun client_target :: "target \<Rightarrow> byte list" where
  "client_target (TargetIPv4 a) = AddrTypeIPv4 # a"
| "client_target (TargetDomain n) = AddrTypeDomain # of_nat (length n) # n"
| "client_target (TargetIPv6 a) = AddrTypeIPv6 # a"

fun target_ok :: "target \<Rightarrow> bool" where
  "target_ok (TargetIPv4 a) \<longleftrightarrow> length a = 4"
| "target_ok (TargetDomain n) \<longleftrightarrow> length n \<le> 255"
| "target_ok (TargetIPv6 a) \<longleftrightarrow> length a = 16"

fun target_host :: "target \<Rightarrow> string" where
  "target_host (TargetIPv4 a) = IP_String a"
| "target_host (TargetDomain n) = string_of_bytes n"
| "target_host (TargetIPv6 a) = IP_String a"

definition client_request :: "target \<Rightarrow> nat \<Rightarrow> byte list" where
  "client_request tg port = [Version5, CmdConnect, 0] @ client_target tg @ [of_nat (port div 256), of_nat (port mod 256)]"

lemma unat_of_nat_byte: "n \<le> 255 \<Longrightarrow> unat (of_nat n :: byte) = n"
  by (simp add: unat_of_nat)

lemma of_nat_unat_byte: "unat (b :: byte) = n \<Longrightarrow> of_nat n = b"
  by auto

lemma length_2: "length bs = 2 \<Longrightarrow> \<exists>a b. bs = [a, b]"
  by (cases bs; cases "tl bs") auto

lemma length_1: "length bs = 1 \<Longrightarrow> \<exists>a. bs = [a]"
  by (cases bs) auto

section \<open>Authentication\<close>

lemma authenticateUser_complete:
  assumes "sk_in s = client_auth un pw @ rest" "length un \<le> 255" "length pw \<le> 255"
  shows "authenticateUser e s =
    (let v = ValidateCredentials (se_deps e) (sk_store s) (string_of_bytes un) (string_of_bytes pw) (se_clk e 1) (se_clk e 2);
         s' = s\<lparr>sk_in := rest, sk_store := snd v\<rparr>
     in if fst v = None then (Inl AuthenticationFailed, slog [SCall SMetricAuthFailures [''invalid_credentials''] MInc] (send [UserPassVersion, 1] s'))
        else (Inr (string_of_bytes un), send [UserPassVersion, 0] s'))"
proof -
  have 1: "read_full 2 k s = k [UserPassVersion, of_nat (length un)] (s\<lparr>sk_in := un @ [of_nat (length pw)] @ pw @ rest\<rparr>)" for k :: "byte list \<Rightarrow> socks \<Rightarrow> (socks_error + string) \<times> socks"
    using assms(1) by (intro read_full_append) (simp_all add: client_auth_def)
  have 2: "read_full (length un) k (s\<lparr>sk_in := un @ [of_nat (length pw)] @ pw @ rest\<rparr>)
      = k un (s\<lparr>sk_in := [of_nat (length pw)] @ pw @ rest\<rparr>)" for k :: "byte list \<Rightarrow> socks \<Rightarrow> (socks_error + string) \<times> socks"
    by (subst read_full_append) simp_all
  have 3: "read_full 1 k (s\<lparr>sk_in := [of_nat (length pw)] @ pw @ rest\<rparr>)
      = k [of_nat (length pw)] (s\<lparr>sk_in := pw @ rest\<rparr>)" for k :: "byte list \<Rightarrow> socks \<Rightarrow> (socks_error + string) \<times> socks"
    by (subst read_full_append) simp_all
  have 4: "read_full (length pw) k (s\<lparr>sk_in := pw @ rest\<rparr>) = k pw (s\<lparr>sk_in := rest\<rparr>)" for k :: "byte list \<Rightarrow> socks \<Rightarrow> (socks_error + string) \<times> socks"
    by (subst read_full_append) simp_all
  show ?thesis unfolding authenticateUser_def 1
    using 2 3 4 assms(2,3) by (simp add: unat_of_nat_byte Let_def case_prod_beta)
qed

lemma authenticateUser_sound:
  assumes "fst (authenticateUser e s) = Inr name"
  obtains un pw rest where "sk_in s = client_auth un pw @ rest" "length un \<le> 255" "length pw \<le> 255"
proof -
  obtain b1 r1 where 1: "sk_in s = b1 @ r1" "length b1 = 2" and k1:
    "fst (if b1 ! 0 \<noteq> UserPassVersion then (Inl UnsupportedAuthVersion, s\<lparr>sk_in := r1\<rparr>)
       else read_full (unat (b1 ! 1)) (\<lambda>username s. read_full 1 (\<lambda>buf s. read_full (unat (buf ! 0)) (\<lambda>password s.
             let (valid, st) = ValidateCredentials (se_deps e) (sk_store s) (string_of_bytes username)
                                 (string_of_bytes password) (se_clk e 1) (se_clk e 2);
                 s = s\<lparr>sk_store := st\<rparr>
             in if valid = None
                then (Inl AuthenticationFailed, slog [SCall SMetricAuthFailures [''invalid_credentials''] MInc] (send [UserPassVersion, 1] s))
                else (Inr (string_of_bytes username), send [UserPassVersion, 0] s)) s) s) (s\<lparr>sk_in := r1\<rparr>)) = Inr name"
    using assms unfolding authenticateUser_def by (rule read_full_Inr)
  obtain a b where b1: "b1 = [a, b]" using length_2 1(2) by blast
  have a: "a = UserPassVersion" using k1 by (simp add: b1 split: if_splits)
  then obtain un r2 where 2: "r1 = un @ r2" "length un = unat b" and k2:
    "fst (read_full 1 (\<lambda>buf s. read_full (unat (buf ! 0)) (\<lambda>password s.
             let (valid, st) = ValidateCredentials (se_deps e) (sk_store s) (string_of_bytes un)
                                 (string_of_bytes password) (se_clk e 1) (se_clk e 2);
                 s = s\<lparr>sk_store := st\<rparr>
             in if valid = None
                then (Inl AuthenticationFailed, slog [SCall SMetricAuthFailures [''invalid_credentials''] MInc] (send [UserPassVersion, 1] s))
                else (Inr (string_of_bytes un), send [UserPassVersion, 0] s)) s) (s\<lparr>sk_in := r2\<rparr>)) = Inr name"
    using k1 by (auto simp: b1 elim: read_full_Inr)
  obtain b3 r3 where 3: "r2 = b3 @ r3" "length b3 = 1" and k3:
    "fst (read_full (unat (b3 ! 0)) (\<lambda>password s.
             let (valid, st) = ValidateCredentials (se_deps e) (sk_store s) (string_of_bytes un)
                                 (string_of_bytes password) (se_clk e 1) (se_clk e 2);
                 s = s\<lparr>sk_store := st\<rparr>
             in if valid = None
                then (Inl AuthenticationFailed, slog [SCall SMetricAuthFailures [''invalid_credentials''] MInc] (send [UserPassVersion, 1] s))
                else (Inr (string_of_bytes un), send [UserPassVersion, 0] s)) (s\<lparr>sk_in := r3\<rparr>)) = Inr name"
    using k2 by (auto elim: read_full_Inr)
  obtain c where b3: "b3 = [c]" using length_1 3(2) by blast
  obtain pw r4 where 4: "r3 = pw @ r4" "length pw = unat c" using k3 by (auto simp: b3 elim: read_full_Inr)
  have le: "unat (x :: byte) \<le> 255" for x using unat_byte_less [of x] by linarith
  have "sk_in s = client_auth un pw @ r4"
    using 1(1) 2 3(1) 4 of_nat_unat_byte [of b "length un"] of_nat_unat_byte [of c "length pw"]
    by (simp add: client_auth_def b1 b3 a)
  then show thesis using that 2(2) 4(2) le by metis
qed

lemma handleMethodNegotiation_complete:
  assumes "sk_in s = client_greeting ms @ rest" "length ms \<le> 255"
  shows "handleMethodNegotiation e s =
    (let s' = s\<lparr>sk_in := rest\<rparr>
     in if MethodUserPass \<in> set ms then authenticateUser e (send [Version5, MethodUserPass] s')
        else (Inl NoAcceptableMethod, slog [SCall SMetricAuthFailures [''no_auth_method''] MInc] (send [Version5, MethodNoAcceptable] s')))"
proof -
  have 1: "read_full 2 k s = k [Version5, of_nat (length ms)] (s\<lparr>sk_in := ms @ rest\<rparr>)" for k :: "byte list \<Rightarrow> socks \<Rightarrow> (socks_error + string) \<times> socks"
    using assms(1) by (intro read_full_append) (simp_all add: client_greeting_def)
  have 2: "read_full (length ms) k (s\<lparr>sk_in := ms @ rest\<rparr>) = k ms (s\<lparr>sk_in := rest\<rparr>)" for k :: "byte list \<Rightarrow> socks \<Rightarrow> (socks_error + string) \<times> socks"
    by (subst read_full_append) simp_all
  show ?thesis unfolding handleMethodNegotiation_def 1
    using 2 assms(2) by (simp add: unat_of_nat_byte Let_def list_ex_iff)
qed

lemma handleMethodNegotiation_sound:
  assumes "fst (handleMethodNegotiation e s) = Inr name"
  obtains ms rest where "sk_in s = client_greeting ms @ rest" "length ms \<le> 255" "MethodUserPass \<in> set ms"
proof -
  from assms obtain b1 r1 where 1: "sk_in s = b1 @ r1" "length b1 = 2" and k1:
    "fst (if b1 ! 0 \<noteq> Version5 then (Inl UnsupportedVersion, s\<lparr>sk_in := r1\<rparr>)
       else read_full (unat (b1 ! 1)) (\<lambda>methods s.
         if \<not> list_ex (\<lambda>m. m = MethodUserPass) methods
         then (Inl NoAcceptableMethod, slog [SCall SMetricAuthFailures [''no_auth_method''] MInc] (send [Version5, MethodNoAcceptable] s))
         else authenticateUser e (send [Version5, MethodUserPass] s)) (s\<lparr>sk_in := r1\<rparr>)) = Inr name"
    unfolding handleMethodNegotiation_def by (rule read_full_Inr)
  obtain a b where b1: "b1 = [a, b]" using length_2 1(2) by blast
  have a: "a = Version5" using k1 by (simp add: b1 split: if_splits)
  then obtain ms r2 where 2: "r1 = ms @ r2" "length ms = unat b" "MethodUserPass \<in> set ms"
    using k1 by (auto simp: b1 list_ex_iff split: if_splits elim!: read_full_Inr)
  have "sk_in s = client_greeting ms @ r2"
    using 1(1) 2 of_nat_unat_byte [of b "length ms"] by (simp add: client_greeting_def b1 a)
  moreover have "length ms \<le> 255" using unat_byte_less [of b] 2(2) by linarith
  ultimately show thesis using that 2(3) by blast
qed

lemma negotiation_Inr:
  assumes "handleMethodNegotiation e s = (Inr name, s')"
  obtains ms un pw rest where "sk_in s = client_greeting ms @ client_auth un pw @ rest"
    "MethodUserPass \<in> set ms" "name = string_of_bytes un"
    "fst (ValidateCredentials (se_deps e) (sk_store s) name (string_of_bytes pw) (se_clk e 1) (se_clk e 2)) \<noteq> None"
    "s' = s\<lparr>sk_in := rest, sk_store := snd (ValidateCredentials (se_deps e) (sk_store s) name (string_of_bytes pw) (se_clk e 1) (se_clk e 2)),
       sk_events := sk_events s @ [Sent [Version5, MethodUserPass], Sent [UserPassVersion, 0]]\<rparr>"
proof -
  obtain ms r1 where ms: "sk_in s = client_greeting ms @ r1" "length ms \<le> 255" "MethodUserPass \<in> set ms"
    using handleMethodNegotiation_sound [of e s name] assms by auto
  define s1 where "s1 = send [Version5, MethodUserPass] (s\<lparr>sk_in := r1\<rparr>)"
  have auth: "authenticateUser e s1 = (Inr name, s')"
    using assms handleMethodNegotiation_complete [OF ms(1,2), of e] ms(3) by (simp add: s1_def)
  then obtain un pw rest where a: "sk_in s1 = client_auth un pw @ rest" "length un \<le> 255" "length pw \<le> 255"
    using authenticateUser_sound [of e s1 name] by auto
  have in1: "r1 = client_auth un pw @ rest" "sk_store s1 = sk_store s" using a(1) by (simp_all add: s1_def)
  define v where "v = ValidateCredentials (se_deps e) (sk_store s) (string_of_bytes un) (string_of_bytes pw) (se_clk e 1) (se_clk e 2)"
  have "fst v \<noteq> None" "name = string_of_bytes un" "s' = send [UserPassVersion, 0] (s1\<lparr>sk_in := rest, sk_store := snd v\<rparr>)"
    using auth authenticateUser_complete [OF a, of e] unfolding in1(2) v_def [symmetric]
    by (auto simp: Let_def split: if_splits)
  then show thesis using that [OF _ ms(3)] ms(1) in1(1)
    by (simp add: v_def s1_def send_def slog_def)
qed

section \<open>What the steps leave alone\<close>

fun is_dial :: "socks_event \<Rightarrow> bool" where
  "is_dial (SDial _) = True"
| "is_dial _ = False"

text \<open>The tracker and the dials made so far.\<close>

definition quiet :: "Tracker option \<Rightarrow> socks_event list \<Rightarrow> socks \<Rightarrow> bool" where
  "quiet bw ds s \<longleftrightarrow> sk_bw s = bw \<and> filter is_dial (sk_events s) = ds"

lemma quiet_read:
  "quiet bw ds s \<Longrightarrow> (\<And>bs s. quiet bw ds s \<Longrightarrow> quiet bw ds (snd (k bs s))) \<Longrightarrow> quiet bw ds (snd (read_full n k s))"
  by (rule read_full_keeps) (simp_all add: quiet_def)

lemma quiet_simps [simp]:
  "quiet bw ds (send bs s) = quiet bw ds s" "quiet bw ds (sendReply r a s) = quiet bw ds s"
  "quiet bw ds (slog [SCall SMetricAuthFailures [x] MInc] s) = quiet bw ds s" "quiet bw ds (s\<lparr>sk_store := st\<rparr>) = quiet bw ds s"
  by (simp_all add: quiet_def)

lemma authenticateUser_quiet: "quiet bw ds s \<Longrightarrow> quiet bw ds (snd (authenticateUser e s))"
  unfolding authenticateUser_def
  by (rule quiet_read, assumption, rename_tac b1 s1, case_tac "b1 ! 0 \<noteq> UserPassVersion",
      simp, simp only: if_False, (rule quiet_read, assumption)+)
    (simp add: Let_def case_prod_beta)

lemma handleMethodNegotiation_quiet: "quiet bw ds s \<Longrightarrow> quiet bw ds (snd (handleMethodNegotiation e s))"
  unfolding handleMethodNegotiation_def
  by (rule quiet_read, assumption, rename_tac b1 s1, case_tac "b1 ! 0 \<noteq> Version5",
      simp, simp only: if_False, rule quiet_read, assumption)
    (simp add: authenticateUser_quiet)

lemma negotiation_frame [simp]:
  "sk_bw (snd (handleMethodNegotiation e s)) = sk_bw s"
  "filter is_dial (sk_events (snd (handleMethodNegotiation e s))) = filter is_dial (sk_events s)"
  using handleMethodNegotiation_quiet [of "sk_bw s" "filter is_dial (sk_events s)" s e]
  by (simp_all add: quiet_def)

text \<open>Reading the request keeps any property that reads and replies keep.\<close>

lemma socks_handleRequest_keeps:
  assumes "P s" and r: "\<And>s x. P s \<Longrightarrow> P (s\<lparr>sk_in := x\<rparr>)" and w: "\<And>s b. P s \<Longrightarrow> P (sendReply b None s)"
  shows "P (snd (socks_handleRequest s))"
proof -
  have port: "P (snd (read_full 2 (\<lambda>portBuf s. (Inr (host @ '':'' @ nat_dec (be_uint16 portBuf)), s)) s))" if "P s" for host s
    by (rule read_full_keeps [of P], rule that, erule r) simp
  have addr: "P (snd (read_full n (\<lambda>a s. read_full 2 (\<lambda>portBuf s. (Inr (h a @ '':'' @ nat_dec (be_uint16 portBuf)), s)) s) s))"
    if "P s" for n h s
    by (rule read_full_keeps [of P], rule that, erule r, erule port)
  have dom: "P (snd (read_full 1 (\<lambda>buf s. read_full (unat (buf ! 0)) (\<lambda>a s.
      read_full 2 (\<lambda>portBuf s. (Inr (h a @ '':'' @ nat_dec (be_uint16 portBuf)), s)) s) s) s))" if "P s" for h s
    by (rule read_full_keeps [of P], rule that, erule r, erule addr)
  have branch: "P (snd (if c then a else b))" if "P (snd a)" "P (snd b)" for c and a b :: "(socks_error + string) \<times> socks"
    using that by simp
  show ?thesis unfolding socks_handleRequest_def Let_def
    by (rule read_full_keeps [of P], rule assms(1), erule r)
      (intro branch; (erule addr | erule dom | (simp only: snd_conv, erule w) | simp))
qed

lemma socks_handleRequest_frame [simp]:
  "sk_bw (snd (socks_handleRequest s)) = sk_bw s"
  "sk_store (snd (socks_handleRequest s)) = sk_store s"
  "filter is_dial (sk_events (snd (socks_handleRequest s))) = filter is_dial (sk_events s)"
  by (rule socks_handleRequest_keeps, simp_all)+

lemma socks_quota_frame [simp]:
  "filter is_dial (sk_events (snd (socks_quota e s u user))) = filter is_dial (sk_events s)"
  "sk_in (snd (socks_quota e s u user)) = sk_in s"
  by (simp_all add: socks_quota_def Let_def case_prod_beta split: option.splits)

text \<open>The SOCKS5 server's checks implement the admission contract.\<close>

interpretation socks_admission: admission "se_deps e" "se_wr e" "se_off e" "se_clk e"
  "\<lambda>s u user. socks_quota e s u (Some user)" "\<lambda>s. (sk_store s, sk_bw s)" for e
  by unfold_locales (simp add: socks_quota_def policy_run_def s_ask_tracker_def Let_def case_prod_beta split: option.splits)

lemma socks_quota_policy:
  "fst (socks_quota e s username (Some user)) \<longleftrightarrow>
     policy_ok (se_deps e) (se_wr e) (se_off e) (se_clk e) (sk_store s) (sk_bw s) username user"
  using socks_admission.decides [of e s username user] by simp

lemma socks_serve_dials:
  "filter is_dial (sk_events (socks_serve e s u)) = filter is_dial (sk_events s) @
     (case fst (socks_handleRequest s) of Inl _ \<Rightarrow> [] | Inr a \<Rightarrow> [SDial a])"
proof -
  obtain x s1 where h: "socks_handleRequest s = (x, s1)" by fastforce
  have "filter is_dial (sk_events s1) = filter is_dial (sk_events s)"
    using socks_handleRequest_frame(3) [of s] by (simp add: h)
  then show ?thesis
    by (cases x) (simp_all add: socks_serve_def h Let_def case_prod_beta split: option.splits)
qed

text \<open>The session of an authenticated client.\<close>

lemma socks_session_Inl: "fst (handleMethodNegotiation e s) = Inl err \<Longrightarrow> socks_session e s = snd (handleMethodNegotiation e s)"
  by (cases "handleMethodNegotiation e s") (simp add: socks_session_def)

lemma socks_session_Inr:
  assumes "handleMethodNegotiation e s = (Inr name, s1)" "GetUser (se_deps e) (sk_store s1) name = Some user"
  shows "socks_session e s =
    (let (ok, s2) = (if exempt (sk_store s1) (se_remote e) user then (True, s1) else socks_quota e s1 name (Some user))
     in if \<not> ok then s2
        else s_on_tracker (\<lambda>t. DecrementConns (se_off e) t name (se_clk e 9))
          (socks_serve e (s_on_tracker (\<lambda>t. IncrementConns (se_off e) t name (se_clk e 7)) s2) name))"
  using assms by (auto simp: socks_session_def Let_def case_prod_beta exempt_def)

section \<open>The request\<close>

lemma be_uint16_bytes: "port < 65536 \<Longrightarrow> be_uint16 [of_nat (port div 256), of_nat (port mod 256)] = port"
  by (simp add: be_uint16_def unat_of_nat_byte less_Suc_eq_le [symmetric] unat_of_nat)

lemma socks_handleRequest_complete:
  assumes "sk_in s = client_request tg port @ rest" "target_ok tg" "port < 65536"
  shows "socks_handleRequest s = (Inr (target_host tg @ '':'' @ nat_dec port), s\<lparr>sk_in := rest\<rparr>)"
proof -
  define pb where "pb = ([of_nat (port div 256), of_nat (port mod 256)] :: byte list)"
  have port: "read_full 2 (\<lambda>portBuf s. (Inr (host @ '':'' @ nat_dec (be_uint16 portBuf)), s)) (s\<lparr>sk_in := pb @ rest\<rparr>)
      = (Inr (host @ '':'' @ nat_dec port) :: socks_error + string, s\<lparr>sk_in := rest\<rparr>)" for host
    using be_uint16_bytes [OF assms(3)] by (subst read_full_append [of pb]) (simp_all add: pb_def)
  have head: "read_full 4 k s = k [Version5, CmdConnect, 0, hd (client_target tg)] (s\<lparr>sk_in := tl (client_target tg) @ pb @ rest\<rparr>)"
    for k :: "byte list \<Rightarrow> socks \<Rightarrow> (socks_error + string) \<times> socks"
    using assms(1) by (intro read_full_append) (cases tg; simp add: client_request_def pb_def)+
  have read: "read_full (length a) k (s\<lparr>sk_in := a @ x\<rparr>) = k a (s\<lparr>sk_in := x\<rparr>)"
    for a x and k :: "byte list \<Rightarrow> socks \<Rightarrow> (socks_error + string) \<times> socks"
    by (subst read_full_append) simp_all
  show ?thesis
  proof (cases tg)
    case (TargetIPv4 a)
    then show ?thesis using read [of a _ "pb @ rest"] assms(2)
      unfolding socks_handleRequest_def head by (simp add: socks_consts port [simplified])
  next
    case (TargetDomain n)
    then show ?thesis using read [of "[of_nat (length n)]" _ "n @ pb @ rest"] read [of n _ "pb @ rest"] assms(2)
      unfolding socks_handleRequest_def head by (simp add: socks_consts port [simplified] unat_of_nat_byte)
  next
    case (TargetIPv6 a)
    then show ?thesis using read [of a _ "pb @ rest"] assms(2)
      unfolding socks_handleRequest_def head by (simp add: socks_consts port [simplified])
  qed
qed

text \<open>The host the handler joins with the port does not survive \<^verbatim>\<open>net.SplitHostPort\<close> for an IPv6 address.\<close>

lemma IPv6_target_unsplittable:
  assumes "length a = 16" "To4 a = None"
  shows "SplitHostPort (IP_String a @ '':'' @ nat_dec port) = None"
proof -
  have "a \<noteq> []" using assms(1) by auto
  then have "IP_String a = ipv6_string a" using assms by (simp add: IP_String_def)
  then show ?thesis
    using ipv6_string_colon [of a] ipv6_string_hd [of a] ipv6_string_nonempty [of a] nat_dec_no_sep(1) [of port]
    by (intro SplitHostPort_colon_in_host) auto
qed

section \<open>Connection counts\<close>

lemma socks_quota_conns:
  "sk_bw s = Some t \<Longrightarrow>
     \<exists>t'. sk_bw (snd (socks_quota e s u user)) = Some t' \<and> (\<forall>v. conns_of t' v = conns_of t v)"
  by (cases user) (simp_all add: socks_quota_def Let_def case_prod_beta)

lemma socks_serve_bw:
  assumes "sk_bw s = Some t"
  obtains t' where "sk_bw (socks_serve e s u) = Some t'" "\<And>v. conns_of t' v = conns_of t v"
proof -
  obtain x s1 where h: "socks_handleRequest s = (x, s1)" by fastforce
  have "sk_bw s1 = Some t" using socks_handleRequest_frame(1) [of s] assms by (simp add: h)
  then have "\<exists>t'. sk_bw (socks_serve e s u) = Some t' \<and> (\<forall>v. conns_of t' v = conns_of t v)"
    by (cases x) (simp_all add: socks_serve_def h Let_def case_prod_beta split: option.splits)
  then show thesis using that by blast
qed

lemma socks_session_conns:
  assumes "sk_bw s = Some t" "\<And>v. 0 \<le> conns_of t v \<and> conns_of t v < 2 ^ 63 - 1"
  shows "\<exists>t'. sk_bw (socks_session e s) = Some t' \<and> (\<forall>v. conns_of t' v = conns_of t v)"
proof (cases "handleMethodNegotiation e s")
  case (Pair x s1)
  have bw1: "sk_bw s1 = Some t" using negotiation_frame(1) [of e s] assms(1) by (simp add: Pair)
  show ?thesis
  proof (cases x)
    case (Inl err)
    then show ?thesis using bw1 by (simp add: socks_session_def Pair)
  next
    case (Inr u)
    define user where "user = GetUser (se_deps e) (sk_store s1) u"
    define adm where "adm = (case user of None \<Rightarrow> False
      | Some u \<Rightarrow> Role u = ''super_admin'' \<and> IsSuperAdminIP (sk_store s1) (se_remote e) \<noteq> None)"
    define q where "q = (if adm then (True, s1) else socks_quota e s1 u user)"
    obtain t2 where t2: "sk_bw (snd q) = Some t2" "\<And>v. conns_of t2 v = conns_of t v"
      using socks_quota_conns [OF bw1, of e u user] bw1 by (cases adm) (auto simp: q_def)
    define s3 where "s3 = s_on_tracker (\<lambda>t. IncrementConns (se_off e) t u (se_clk e 7)) (snd q)"
    have "sk_bw s3 = Some (IncrementConns (se_off e) t2 u (se_clk e 7))" by (simp add: s3_def t2(1))
    then obtain t4 where t4: "sk_bw (socks_serve e s3 u) = Some t4"
      "\<And>v. conns_of t4 v = conns_of (IncrementConns (se_off e) t2 u (se_clk e 7)) v"
      using socks_serve_bw [of s3 _ e u] by metis
    have "conns_of (DecrementConns (se_off e) t4 u (se_clk e 9)) v = conns_of t2 v" for v
      using t4(2) t2(2) assms(2) by (intro conns.bracket) auto
    moreover have "socks_session e s = (if \<not> fst q then snd q
        else s_on_tracker (\<lambda>t. DecrementConns (se_off e) t u (se_clk e 9)) (socks_serve e s3 u))"
      by (simp add: socks_session_def Pair Inr user_def [symmetric] adm_def [symmetric] q_def
          s3_def case_prod_beta Let_def)
    ultimately show ?thesis using t2 t4(1) by auto
  qed
qed

section \<open>A whole session\<close>

lemma socks_quota_passing:
  assumes "fst (socks_quota e s u user)"
  shows "sk_events (snd (socks_quota e s u user)) = sk_events s"
  using assms by (auto simp: socks_quota_def Let_def case_prod_beta split: option.splits if_splits)

lemma socks_quota_total:
  assumes "sk_bw s = Some t" "\<And>i. tr_month t = format_month (se_off e) (se_clk e i)"
  shows "\<exists>t'. sk_bw (snd (socks_quota e s u user)) = Some t' \<and> (\<forall>v. total_of t' v = total_of t v) \<and>
    tr_month t' = tr_month t"
  using assms(1) CheckAllowance_keeps [OF assms(2)]
  by (cases user) (simp_all add: socks_quota_def Let_def case_prod_beta CheckConnLimit_keeps)

text \<open>What an admitted client with a well-formed request gets to see.\<close>

definition relay_events :: "socks_env \<Rightarrow> string \<Rightarrow> string \<Rightarrow> socks_event list" where
  "relay_events e u addr =
     SDial addr #
     (case se_dial e addr of
        None \<Rightarrow> [Sent (reply_bytes ReplyHostUnreachable None), SCall SMetricErrors [''dial_failed''] MInc]
      | Some localAddr \<Rightarrow>
          [Sent (reply_bytes ReplySucceeded (Some localAddr)), SCall SMetricConnections [u] MInc,
           SCall SMetricBytes [u, ''upstream''] (MAdd (fst (relay_counts (se_relay e)))),
           SCall SMetricBytes [u, ''downstream''] (MAdd (snd (relay_counts (se_relay e)))), SCall SMetricDuration [] MObserve, SCloseTarget])"

lemma socks_serve_request:
  assumes "socks_handleRequest s = (Inr addr, s1)" "sk_events s1 = sk_events s"
  shows "sk_events (socks_serve e s u) = sk_events s @ relay_events e u addr"
  using assms by (simp add: socks_serve_def relay_events_def Let_def case_prod_beta split: option.splits)

definition client_session :: "byte list \<Rightarrow> byte list \<Rightarrow> byte list \<Rightarrow> target \<Rightarrow> nat \<Rightarrow> byte list" where
  "client_session ms un pw tg port = client_greeting ms @ client_auth un pw @ client_request tg port"

text \<open>A client whose credentials and request are in order, and who may use the proxy.\<close>

definition may_enter :: "socks_env \<Rightarrow> socks \<Rightarrow> string \<Rightarrow> string \<Rightarrow> User \<Rightarrow> bool" where
  "may_enter e s name pw user \<longleftrightarrow>
     store_inv (se_deps e) (sk_store s) \<and> CheckIPAllowed (sk_store s) (se_remote e) \<and>
     us_users (sk_store s) (lower (se_deps e) name) = Some user \<and>
     bcrypt_compare (se_deps e) (PasswordHash user) pw \<and>
     (exempt (sk_store s) (se_remote e) user \<or>
      policy_ok (se_deps e) (se_wr e) (se_off e) (se_clk e) (sk_store s) (sk_bw s) name user)"

text \<open>The state in which an admitted session starts to serve the request.\<close>

lemma handleConnection_welcome:
  assumes in_s: "sk_in s = client_session ms un pw tg port @ rest"
    and len: "length ms \<le> 255" "length un \<le> 255" "length pw \<le> 255"
    and ms: "MethodUserPass \<in> set ms"
    and wel: "may_enter e s (string_of_bytes un) (string_of_bytes pw) user"
  obtains s2 where "sk_in s2 = client_request tg port @ rest"
    "sk_events s2 = sk_events s @ [SCall SMetricActiveConns [] MInc, Sent [Version5, MethodUserPass], Sent [UserPassVersion, 0]]"
    "\<And>t. sk_bw s = Some t \<Longrightarrow> (\<And>i. tr_month t = format_month (se_off e) (se_clk e i)) \<Longrightarrow>
       \<exists>t'. sk_bw s2 = Some t' \<and> (\<forall>v. total_of t' v = total_of t v) \<and> tr_month t' = tr_month t"
    "handleConnection e s = slog [SCall SMetricActiveConns [] MDec, SCloseConn]
       (s_on_tracker (\<lambda>t. DecrementConns (se_off e) t (string_of_bytes un) (se_clk e 9))
         (socks_serve e (s_on_tracker (\<lambda>t. IncrementConns (se_off e) t (string_of_bytes un) (se_clk e 7)) s2) (string_of_bytes un)))"
proof -
  define s0 where "s0 = slog [SCall SMetricActiveConns [] MInc] s"
  define v where "v = ValidateCredentials (se_deps e) (sk_store s) (string_of_bytes un) (string_of_bytes pw) (se_clk e 1) (se_clk e 2)"
  define s1 where "s1 = send [UserPassVersion, 0] ((send [Version5, MethodUserPass]
    (s0\<lparr>sk_in := client_auth un pw @ client_request tg port @ rest\<rparr>))\<lparr>sk_in := client_request tg port @ rest, sk_store := snd v\<rparr>)"
  have val: "fst v = Some user" using wel ValidateCredentials_complete by (simp add: v_def may_enter_def)
  have auth: "authenticateUser e (send [Version5, MethodUserPass] (s0\<lparr>sk_in := client_auth un pw @ client_request tg port @ rest\<rparr>))
      = (Inr (string_of_bytes un), s1)"
    using val [unfolded v_def] len(2,3) by (subst authenticateUser_complete [where un = un and pw = pw and rest = "client_request tg port @ rest"])
      (simp_all add: s0_def v_def s1_def Let_def)
  have neg: "handleMethodNegotiation e s0 = (Inr (string_of_bytes un), s1)"
    using auth in_s len(1) ms
    by (subst handleMethodNegotiation_complete [where ms = ms and rest = "client_auth un pw @ client_request tg port @ rest"])
      (simp_all add: s0_def client_session_def)
  have st: "sk_store s1 = snd v" "sk_bw s1 = sk_bw s" "sk_in s1 = client_request tg port @ rest"
    "sk_events s1 = sk_events s @ [SCall SMetricActiveConns [] MInc, Sent [Version5, MethodUserPass], Sent [UserPassVersion, 0]]"
    by (simp_all add: s1_def s0_def)
  have user: "GetUser (se_deps e) (sk_store s1) (string_of_bytes un) = Some user"
    using wel by (simp add: st(1) v_def) (simp add: GetUser_def may_enter_def)
  define q where "q = (if exempt (sk_store s1) (se_remote e) user then (True, s1)
    else socks_quota e s1 (string_of_bytes un) (Some user))"
  have ok: "fst q" using wel by (auto simp: q_def may_enter_def socks_quota_policy st v_def)
  show thesis
  proof (rule that [of "snd q"])
    show "sk_in (snd q) = client_request tg port @ rest" by (simp add: q_def st)
    show "sk_events (snd q) = sk_events s @ [SCall SMetricActiveConns [] MInc, Sent [Version5, MethodUserPass], Sent [UserPassVersion, 0]]"
      using ok socks_quota_passing by (auto simp: q_def st split: if_splits)
    show "\<exists>t'. sk_bw (snd q) = Some t' \<and> (\<forall>v. total_of t' v = total_of t v) \<and> tr_month t' = tr_month t"
      if "sk_bw s = Some t" "\<And>i. tr_month t = format_month (se_off e) (se_clk e i)" for t
      using socks_quota_total [of s1 t e] that by (simp add: q_def st)
    show "handleConnection e s = slog [SCall SMetricActiveConns [] MDec, SCloseConn]
       (s_on_tracker (\<lambda>t. DecrementConns (se_off e) t (string_of_bytes un) (se_clk e 9))
         (socks_serve e (s_on_tracker (\<lambda>t. IncrementConns (se_off e) t (string_of_bytes un) (se_clk e 7)) (snd q)) (string_of_bytes un)))"
      using wel ok socks_session_Inr [OF neg user]
      by (simp add: handleConnection_def may_enter_def s0_def [symmetric] q_def [symmetric] case_prod_beta)
  qed
qed

lemma handleConnection_events:
  assumes "sk_in s = client_session ms un pw tg port @ rest"
    and "length ms \<le> 255" "length un \<le> 255" "length pw \<le> 255" "MethodUserPass \<in> set ms"
    and "may_enter e s (string_of_bytes un) (string_of_bytes pw) user"
    and "target_ok tg" "port < 65536"
  shows "sk_events (handleConnection e s) = sk_events s @
    [SCall SMetricActiveConns [] MInc, Sent [Version5, MethodUserPass], Sent [UserPassVersion, 0]] @
    relay_events e (string_of_bytes un) (target_host tg @ '':'' @ nat_dec port) @ [SCall SMetricActiveConns [] MDec, SCloseConn]"
proof (rule handleConnection_welcome [OF assms(1-6)])
  fix s2
  assume s2: "sk_in s2 = client_request tg port @ rest"
    "sk_events s2 = sk_events s @ [SCall SMetricActiveConns [] MInc, Sent [Version5, MethodUserPass], Sent [UserPassVersion, 0]]"
    "handleConnection e s = slog [SCall SMetricActiveConns [] MDec, SCloseConn]
       (s_on_tracker (\<lambda>t. DecrementConns (se_off e) t (string_of_bytes un) (se_clk e 9))
         (socks_serve e (s_on_tracker (\<lambda>t. IncrementConns (se_off e) t (string_of_bytes un) (se_clk e 7)) s2) (string_of_bytes un)))"
  let ?s3 = "s_on_tracker (\<lambda>t. IncrementConns (se_off e) t (string_of_bytes un) (se_clk e 7)) s2"
  have "socks_handleRequest ?s3 = (Inr (target_host tg @ '':'' @ nat_dec port), ?s3\<lparr>sk_in := rest\<rparr>)"
    using assms(7,8) s2(1) by (intro socks_handleRequest_complete) simp_all
  from socks_serve_request [OF this, of e "string_of_bytes un"] s2(2,3) show ?thesis by simp
qed

section \<open>Properties\<close>

text \<open>C2: the SOCKS5 server connects nobody it should not: if a connection makes it dial, then the
  client's address passed the white list, the bytes it sent are a greeting that offers
  user/password authentication followed by the credentials of a user of the store whose stored
  hash accepted the password, and the access policy was met.\<close>

theorem socks_dial_admitted:
  assumes "store_inv (se_deps e) (sk_store s)" and "sk_events s = []"
    and "SDial addr \<in> set (sk_events (handleConnection e s))"
  shows "CheckIPAllowed (sk_store s) (se_remote e) \<and>
    (\<exists>ms un pw rest user. sk_in s = client_greeting ms @ client_auth un pw @ rest \<and> MethodUserPass \<in> set ms \<and>
       legit (se_deps e) (sk_store s) (string_of_bytes un) (string_of_bytes pw) user \<and>
       (exempt (sk_store s) (se_remote e) user \<or>
        policy_ok (se_deps e) (se_wr e) (se_off e) (se_clk e) (sk_store s) (sk_bw s) (string_of_bytes un) user))"
proof -
  define s0 where "s0 = slog [SCall SMetricActiveConns [] MInc] s"
  have ip: "CheckIPAllowed (sk_store s) (se_remote e)"
    using assms(2,3) by (auto simp: handleConnection_def split: if_splits)
  then have "SDial addr \<in> set (sk_events (socks_session e s0))"
    using assms(3) by (simp add: handleConnection_def s0_def)
  then have "SDial addr \<in> set (filter is_dial (sk_events (socks_session e s0)))" by simp
  then have dials: "filter is_dial (sk_events (socks_session e s0)) \<noteq> []" by (metis list.set(1) empty_iff)
  have quiet0: "filter is_dial (sk_events s0) = []" using assms(2) by (simp add: s0_def)
  obtain x s1 where neg: "handleMethodNegotiation e s0 = (x, s1)" by fastforce
  show ?thesis
  proof (cases x)
    case (Inl err)
    then have "filter is_dial (sk_events (socks_session e s0)) = filter is_dial (sk_events s0)"
      using negotiation_frame(2) [of e s0] by (simp add: socks_session_Inl neg)
    then show ?thesis using dials quiet0 by simp
  next
    case (Inr name)
    from neg [unfolded Inr] obtain ms un pw rest where n: "sk_in s0 = client_greeting ms @ client_auth un pw @ rest"
      "MethodUserPass \<in> set ms" "name = string_of_bytes un"
      "fst (ValidateCredentials (se_deps e) (sk_store s0) name (string_of_bytes pw) (se_clk e 1) (se_clk e 2)) \<noteq> None"
      "s1 = s0\<lparr>sk_in := rest, sk_store := snd (ValidateCredentials (se_deps e) (sk_store s0) name (string_of_bytes pw) (se_clk e 1) (se_clk e 2)),
         sk_events := sk_events s0 @ [Sent [Version5, MethodUserPass], Sent [UserPassVersion, 0]]\<rparr>"
      by (rule negotiation_Inr)
    obtain user where v: "fst (ValidateCredentials (se_deps e) (sk_store s) name (string_of_bytes pw) (se_clk e 1) (se_clk e 2)) = Some user"
      using n(4) by (auto simp: s0_def)
    note u = validated_user [OF assms(1) v]
    have gu: "GetUser (se_deps e) (sk_store s1) name = Some user" using u(1) by (simp add: n(5) s0_def)
    have ev1: "filter is_dial (sk_events s1) = []" using quiet0 by (simp add: n(5))
    have "exempt (sk_store s1) (se_remote e) user \<or> fst (socks_quota e s1 name (Some user))"
      using dials ev1 socks_session_Inr [OF neg [unfolded Inr] gu] by (auto simp: case_prod_beta split: if_splits)
    then have "exempt (sk_store s) (se_remote e) user \<or>
        policy_ok (se_deps e) (se_wr e) (se_off e) (se_clk e) (sk_store s) (sk_bw s) name user"
      by (simp add: socks_quota_policy n(5) s0_def)
    moreover have "sk_in s = client_greeting ms @ client_auth un pw @ rest" using n(1) by (simp add: s0_def)
    ultimately show ?thesis using ip n(2,3) u(2) by auto
  qed
qed

definition demo_socks_env :: socks_env where
  "demo_socks_env = \<lparr>se_deps = demo_deps, se_wr = (\<lambda>_. GoodFile), se_off = 0, se_clk = (\<lambda>_. 0),
     se_remote = ''10.0.0.7:4000'',
     se_dial = (\<lambda>a. if SplitHostPort a = None then None else Some ([10, 0, 0, 1], 4711)),
     se_relay = \<lparr>ro_up = 7, ro_down = 2 ^ 40, ro_up_done = True, ro_down_done = False\<rparr>\<rparr>"

definition demo_client :: "target \<Rightarrow> nat \<Rightarrow> byte list" where
  "demo_client tg port = client_session [MethodNoAuth, MethodUserPass] (bytes_of_string ''Bob'') (bytes_of_string ''pw'') tg port"

definition demo_socks :: "target \<Rightarrow> nat \<Rightarrow> socks" where
  "demo_socks tg port = \<lparr>sk_store = demo_store, sk_bw = Some demo_tracker, sk_in = demo_client tg port @ [], sk_events = []\<rparr>"

lemma demo_first_request: "fst (Allow (SetLimit NewRateLimiter ''Bob'' 60 0) ''Bob'' 0)"
proof -
  have "1 \<le> fl64 (10 + fl64 (seconds (time_sub 0 0)))"
    using seconds_nonneg [of 0 0] by (intro f64.rnd_ge_fixed) simp_all
  then show ?thesis
    by (simp add: Allow_def SetLimit_def NewRateLimiter_def bucket_allow_eq refilled_def Let_def
        case_prod_beta fdiv_def)
qed

lemma demo_may_enter: "may_enter demo_socks_env (demo_socks tg port) ''Bob'' ''pw'' demo_user"
proof -
  have x: "parse_rfc3339 ''2030-01-01T00:00:00Z'' = Some 1893456000000000000" by code_simp
  have "policy_ok demo_deps (\<lambda>_. GoodFile) 0 (\<lambda>_. 0) demo_store (Some demo_tracker) ''Bob'' demo_user"
    using demo_first_request by (simp add: policy_ok_def CheckRateLimit_def CheckExpiry_def demo_store_def
        case_prod_beta x CheckAllowance_answer checkMonthlyReset_total)
      (simp add: total_of_def conns_of_def demo_tracker_def)
  then show ?thesis using demo_store_inv
    by (simp add: may_enter_def demo_socks_env_def demo_socks_def CheckIPAllowed_def)
      (simp add: demo_store_def empty_store_def)
qed

text \<open>C3: a complete session, byte for byte: an admitted client that greets, authenticates and asks
  for a target is answered with the method choice, the authentication status and one ten-byte
  reply, and the server dials exactly the host and port the client encoded, for IPv4 addresses,
  domain names and IPv6 addresses alike.\<close>

theorem socks_session_roundtrip:
  assumes "sk_in s = client_session ms un pw tg port @ rest" and "sk_events s = []"
    and "length ms \<le> 255" and "length un \<le> 255" and "length pw \<le> 255" and "MethodUserPass \<in> set ms"
    and "may_enter e s (string_of_bytes un) (string_of_bytes pw) user"
    and "target_ok tg" and "port < 65536"
    and "se_dial e (target_host tg @ '':'' @ nat_dec port) = Some (ip, p)" and "length ip = 4"
  shows "sk_events (handleConnection e s) =
    [SCall SMetricActiveConns [] MInc, Sent [5, 2], Sent [1, 0], SDial (target_host tg @ '':'' @ nat_dec port),
     Sent ([5, 0, 0, 1] @ ip @ [ucast (drop_bit 8 (word_of_int p :: 16 word)), ucast (word_of_int p :: 16 word)]),
     SCall SMetricConnections [string_of_bytes un] MInc,
     SCall SMetricBytes [string_of_bytes un, ''upstream''] (MAdd (fst (relay_counts (se_relay e)))),
     SCall SMetricBytes [string_of_bytes un, ''downstream''] (MAdd (snd (relay_counts (se_relay e)))), SCall SMetricDuration [] MObserve, SCloseTarget,
     SCall SMetricActiveConns [] MDec, SCloseConn]"
proof -
  have "To4 ip = Some ip" using assms(11) by (simp add: To4_def)
  then show ?thesis
    using handleConnection_events [OF assms(1,3-9)] assms(2,10)
    by (simp add: relay_events_def reply_bytes_def Let_def) (simp add: socks_consts)
qed

lemma demo_client_in: "sk_in (demo_socks tg port) =
    client_session [MethodNoAuth, MethodUserPass] (bytes_of_string ''Bob'') (bytes_of_string ''pw'') tg port @ []"
  by (simp add: demo_socks_def demo_client_def)

theorem socks_session_roundtrip_witness:
  "SDial (ipv4_string [127, 0, 0, 1] @ '':'' @ nat_dec 80) \<in>
     set (sk_events (handleConnection demo_socks_env (demo_socks (TargetIPv4 [127, 0, 0, 1]) 80)))"
proof -
  have h: "IP_String [127, 0, 0, 1] = ipv4_string [127, 0, 0, 1]"
    by (simp add: IP_String_def To4_def)
  have d: "se_dial demo_socks_env (target_host (TargetIPv4 [127, 0, 0, 1]) @ '':'' @ nat_dec 80) = Some ([10, 0, 0, 1], 4711)"
    using SplitHostPort_plain [of "ipv4_string [127, 0, 0, 1]" "nat_dec 80"] ipv4_string_no_sep nat_dec_no_sep
    by (simp add: h demo_socks_env_def)
  show ?thesis
    using socks_session_roundtrip [OF demo_client_in _ _ _ _ _ _ _ _ d, of demo_user]
      demo_may_enter [of "TargetIPv4 [127, 0, 0, 1]" 80] h
    by (simp add: demo_socks_def)
qed

theorem socks_dial_admitted_witness:
  "\<exists>ms un pw rest. demo_client (TargetDomain (bytes_of_string ''a.b'')) 443 = client_greeting ms @ client_auth un pw @ rest \<and>
     MethodUserPass \<in> set ms"
proof -
  let ?tg = "TargetDomain (bytes_of_string ''a.b'')"
  have ev: "sk_events (handleConnection demo_socks_env (demo_socks ?tg 443)) = sk_events (demo_socks ?tg 443) @
    [SCall SMetricActiveConns [] MInc, Sent [Version5, MethodUserPass], Sent [UserPassVersion, 0]] @
    relay_events demo_socks_env ''Bob'' (target_host ?tg @ '':'' @ nat_dec 443) @ [SCall SMetricActiveConns [] MDec, SCloseConn]"
    using handleConnection_events [OF demo_client_in, where e = demo_socks_env and user = demo_user and tg = ?tg and port = 443] demo_may_enter [of ?tg 443]
    by simp
  have "SDial (target_host ?tg @ '':'' @ nat_dec 443) \<in> set (sk_events (handleConnection demo_socks_env (demo_socks ?tg 443)))"
    unfolding ev by (simp add: relay_events_def)
  from socks_dial_admitted [OF _ _ this] demo_store_inv show ?thesis
    by (simp add: demo_socks_def demo_socks_env_def) blast
qed

text \<open>A SOCKS5 connection leaves every user's count of active connections as it found it,
  however it ends.\<close>

lemma socks_conns_balanced:
  assumes "sk_bw s = Some t" and "\<And>v. 0 \<le> conns_of t v \<and> conns_of t v < 2 ^ 63 - 1"
  shows "\<exists>t'. sk_bw (handleConnection e s) = Some t' \<and> (\<forall>v. conns_of t' v = conns_of t v)"
  using socks_session_conns [of "slog [SCall SMetricActiveConns [] MInc] s" t e] assms by (simp add: handleConnection_def)

text \<open>C26: a relayed SOCKS5 connection is charged, under the name the client typed, with the bytes of
  the directions whose copy had finished when the first one did: the handler waits for one of
  the two copies only, so the bytes the other one has moved are not counted.\<close>

theorem socks_charges_finished_directions:
  assumes "sk_in s = client_session ms un pw tg port @ rest"
    and "length ms \<le> 255" and "length un \<le> 255" and "length pw \<le> 255" and "MethodUserPass \<in> set ms"
    and "may_enter e s (string_of_bytes un) (string_of_bytes pw) user"
    and "target_ok tg" and "port < 65536"
    and "se_dial e (target_host tg @ '':'' @ nat_dec port) \<noteq> None"
    and "sk_bw s = Some t" and "\<And>i. tr_month t = format_month (se_off e) (se_clk e i)"
  shows "\<exists>t'. sk_bw (handleConnection e s) = Some t' \<and>
    total_of t' (string_of_bytes un) = i64 (total_of t (string_of_bytes un) +
      ((if ro_up_done (se_relay e) then ro_up (se_relay e) else 0) +
       (if ro_down_done (se_relay e) then ro_down (se_relay e) else 0)))"
proof (rule handleConnection_welcome [OF assms(1-6)])
  fix s2
  let ?u = "string_of_bytes un"
  let ?s3 = "s_on_tracker (\<lambda>t. IncrementConns (se_off e) t ?u (se_clk e 7)) s2"
  assume s2: "sk_in s2 = client_request tg port @ rest"
    "\<And>t. sk_bw s = Some t \<Longrightarrow> (\<And>i. tr_month t = format_month (se_off e) (se_clk e i)) \<Longrightarrow>
       \<exists>t'. sk_bw s2 = Some t' \<and> (\<forall>v. total_of t' v = total_of t v) \<and> tr_month t' = tr_month t"
    and run: "handleConnection e s = slog [SCall SMetricActiveConns [] MDec, SCloseConn]
       (s_on_tracker (\<lambda>t. DecrementConns (se_off e) t ?u (se_clk e 9)) (socks_serve e ?s3 ?u))"
  from s2(2) [OF assms(10,11)] obtain t2 where t2: "sk_bw s2 = Some t2" "total_of t2 ?u = total_of t ?u" "tr_month t2 = tr_month t"
    by blast
  let ?t3 = "IncrementConns (se_off e) t2 ?u (se_clk e 7)"
  have req: "socks_handleRequest ?s3 = (Inr (target_host tg @ '':'' @ nat_dec port), ?s3\<lparr>sk_in := rest\<rparr>)"
    using assms(7,8) s2(1) by (intro socks_handleRequest_complete) simp_all
  have bw: "sk_bw (socks_serve e ?s3 ?u) = Some (RecordBytes (se_wr e) (se_off e) ?t3 ?u
      (fst (relay_counts (se_relay e))) (snd (relay_counts (se_relay e))) (se_clk e 8))"
    using assms(9) t2(1) by (auto simp: socks_serve_def req Let_def case_prod_beta split: option.splits)
  have "checkMonthlyReset (se_wr e) (se_off e) ?t3 (se_clk e 8) = ?t3"
    using t2(3) assms(11) by (intro checkMonthlyReset_same) (simp add: IncrementConns_month)
  then show ?thesis
    using bw t2(2) by (simp add: run DecrementConns_total RecordBytes_total IncrementConns_total relay_counts_def)
qed

theorem socks_charges_finished_directions_witness:
  "\<exists>t'. sk_bw (handleConnection demo_socks_env (demo_socks (TargetDomain (bytes_of_string ''a.b'')) 443)) = Some t' \<and>
     total_of t' ''Bob'' = 7"
proof -
  let ?tg = "TargetDomain (bytes_of_string ''a.b'')"
  have d: "se_dial demo_socks_env (target_host ?tg @ '':'' @ nat_dec 443) \<noteq> None"
    using SplitHostPort_plain [of "''a.b''" "nat_dec 443"] nat_dec_no_sep by (simp add: demo_socks_env_def)
  have bw: "sk_bw (demo_socks ?tg 443) = Some demo_tracker" by (simp add: demo_socks_def)
  have "total_of demo_tracker ''Bob'' = 0" "tr_month demo_tracker = format_month 0 0"
    by (simp_all add: total_of_def demo_tracker_def)
  then show ?thesis
    using socks_charges_finished_directions [OF demo_client_in _ _ _ _ _ _ _ d bw, of demo_user] demo_may_enter [of ?tg 443]
    by (simp add: demo_socks_env_def)
qed

text \<open>C27: no IPv6 target is reachable through the SOCKS5 server, unless it is an IPv4-mapped address
  (\<open>::ffff:a.b.c.d\<close>, which prints in dotted notation): for every other address the handler joins the text with
  colons and the port without brackets, \<^verbatim>\<open>net.Dial\<close> rejects every address that \<^verbatim>\<open>net.SplitHostPort\<close> cannot
  split (the hypothesis on \<open>se_dial\<close>), and the client is told that the host is unreachable.\<close>

theorem socks_ipv6_unreachable:
  assumes "sk_in s = client_session ms un pw (TargetIPv6 a) port @ rest" and "sk_events s = []"
    and "length ms \<le> 255" and "length un \<le> 255" and "length pw \<le> 255" and "MethodUserPass \<in> set ms"
    and "may_enter e s (string_of_bytes un) (string_of_bytes pw) user"
    and "length a = 16" and "To4 a = None" and "port < 65536"
    and "\<And>addr. SplitHostPort addr = None \<Longrightarrow> se_dial e addr = None"
  shows "sk_events (handleConnection e s) =
    [SCall SMetricActiveConns [] MInc, Sent [5, 2], Sent [1, 0], SDial (IP_String a @ '':'' @ nat_dec port),
     Sent [5, 4, 0, 1, 0, 0, 0, 0, 0, 0], SCall SMetricErrors [''dial_failed''] MInc, SCall SMetricActiveConns [] MDec, SCloseConn]"
proof -
  have "se_dial e (IP_String a @ '':'' @ nat_dec port) = None"
    using assms(11) IPv6_target_unsplittable [OF assms(8,9)] by blast
  then show ?thesis
    using handleConnection_events [OF assms(1,3-7) _ assms(10)] assms(2,8)
    by (simp add: relay_events_def reply_bytes_def) (simp add: socks_consts numeral_eq_Suc)
qed

theorem socks_ipv6_unreachable_witness:
  "Sent [5, 4, 0, 1, 0, 0, 0, 0, 0, 0] \<in>
     set (sk_events (handleConnection demo_socks_env (demo_socks (TargetIPv6 (replicate 15 0 @ [1])) 80)))"
proof -
  have t: "To4 (replicate 15 0 @ [1]) = None" by code_simp
  have d: "SplitHostPort addr = None \<Longrightarrow> se_dial demo_socks_env addr = None" for addr
    by (simp add: demo_socks_env_def)
  show ?thesis
    using socks_ipv6_unreachable [OF demo_client_in _ _ _ _ _ _ _ t _ d, of 80 demo_user]
      demo_may_enter [of "TargetIPv6 (replicate 15 0 @ [1])" 80]
    by (simp add: demo_socks_def)
qed

end
