(* ===== verification/Sni_Parser.thy ===== *)
theory Sni_Parser
  imports Go_Prelude "HOL-Library.Monad_Syntax" "HOL-Library.Sublist"
begin

text \<open>
  \<^verbatim>\<open>PeekSNI\<close> and \<^verbatim>\<open>extractSNI\<close> of \<^verbatim>\<open>internal/proxy/server.go\<close>: finding the server name in the bytes of a TLS
  ClientHello. Every index and slice expression of the Go code is a checked read here: \<open>None\<close>
  is the run-time panic of an index out of range. Positions stay far below \<open>2\<^sup>6\<^sup>3\<close>, so they are
  natural numbers; the two bytes of a length have no bit in common, so \<^verbatim>\<open>a<<8 | b\<close> is \<open>a * 256 + b\<close>.
\<close>

section \<open>Checked reads\<close>

definition rd :: "byte list \<Rightarrow> nat \<Rightarrow> nat option" where
  "rd data i = (if i < length data then Some (unat (data ! i)) else None)"

definition rd16 :: "byte list \<Rightarrow> nat \<Rightarrow> nat option" where
  "rd16 data i = do { a \<leftarrow> rd data i; b \<leftarrow> rd data (i + 1); Some (a * 256 + b) }"

definition slice :: "byte list \<Rightarrow> nat \<Rightarrow> nat \<Rightarrow> byte list option" where
  "slice data a b = (if a \<le> b \<and> b \<le> length data then Some (take (b - a) (drop a data)) else None)"

section \<open>The parser\<close>

text \<open>The loop over the extensions.\<close>

function ext_loop :: "byte list \<Rightarrow> nat \<Rightarrow> nat \<Rightarrow> string option" where
  "ext_loop data pos endPos =
     (if pos + 4 \<le> endPos then
        do { extType \<leftarrow> rd16 data pos;
             extLen \<leftarrow> rd16 data (pos + 2);
             if extType = 0 then
               if pos + 4 + 5 > endPos then Some []
               else do { nameType \<leftarrow> rd data (pos + 4 + 2);
                         if nameType \<noteq> 0 then Some []
                         else do { nameLen \<leftarrow> rd16 data (pos + 4 + 3);
                                   if pos + 4 + 5 + nameLen > endPos then Some []
                                   else do { name \<leftarrow> slice data (pos + 4 + 5) (pos + 4 + 5 + nameLen);
                                             Some (string_of_bytes name) } } }
             else ext_loop data (pos + 4 + extLen) endPos }
      else Some [])"
  by pat_completeness auto
termination by (relation "measure (\<lambda>(data, pos, endPos). endPos - pos)") auto

declare ext_loop.simps [simp del]

text \<open>The variable-length fields between the random bytes and the extensions.\<close>

definition skip_to_extensions :: "byte list \<Rightarrow> nat \<Rightarrow> string option" where
  "skip_to_extensions data pos =
     (if length data < pos + 1 then Some []
      else do { sessionIDLen \<leftarrow> rd data pos;
                let pos = pos + 1 + sessionIDLen;
                if length data < pos + 2 then Some []
                else do { cipherSuitesLen \<leftarrow> rd16 data pos;
                          let pos = pos + 2 + cipherSuitesLen;
                          if length data < pos + 1 then Some []
                          else do { compressionLen \<leftarrow> rd data pos;
                                    let pos = pos + 1 + compressionLen;
                                    if length data < pos + 2 then Some []
                                    else do { extensionsLen \<leftarrow> rd16 data pos;
                                              let pos = pos + 2;
                                              let endPos = pos + extensionsLen;
                                              let endPos = (if endPos > length data then length data else endPos);
                                              ext_loop data pos endPos } } } })"

definition extractSNI :: "byte list \<Rightarrow> string option" where
  "extractSNI data =
     (if length data < 5 then Some []
      else do { b \<leftarrow> rd data 0;
                if b \<noteq> 0x16 then Some []
                else if length data < 5 + 4 then Some []
                else do { b \<leftarrow> rd data 5;
                          if b \<noteq> 0x01 then Some []
                          else if length data < 9 + 34 then Some []
                          else skip_to_extensions data (9 + 34) } })"

text \<open>
  \<^verbatim>\<open>PeekSNI\<close>: one read into a buffer of 16384 bytes. The argument is what that read returned: the
  data that was waiting, or nothing when it failed.
\<close>

definition PeekSNI :: "byte list option \<Rightarrow> (string \<times> byte list) option option" where
  "PeekSNI r =
     (case r of
        None \<Rightarrow> Some None
      | Some waiting \<Rightarrow>
          let data = take 16384 waiting
          in do { sni \<leftarrow> extractSNI data; Some (Some (sni, data)) })"

section \<open>No panics\<close>

lemma rd_Some: "i < length data \<Longrightarrow> rd data i = Some (unat (data ! i))"
  by (simp add: rd_def)

lemma rd16_Some: "i + 1 < length data \<Longrightarrow> rd16 data i = Some (unat (data ! i) * 256 + unat (data ! (i + 1)))"
  by (simp add: rd16_def rd_Some)

lemma slice_Some: "a \<le> b \<Longrightarrow> b \<le> length data \<Longrightarrow> slice data a b = Some (take (b - a) (drop a data))"
  by (simp add: slice_def)

lemma sublist_slice: "sublist (take n (drop a xs)) xs"
  by (metis append_take_drop_id sublist_appendI)

text \<open>Every name found is a run of bytes of the input.\<close>

definition found_in :: "byte list \<Rightarrow> string option \<Rightarrow> bool" where
  "found_in data r \<longleftrightarrow> (\<exists>s. r = Some s \<and> sublist (bytes_of_string s) data)"

lemma found_empty [simp]: "found_in data (Some [])"
  by (simp add: found_in_def bytes_of_string_def)

lemma ext_loop_found: "endPos \<le> length data \<Longrightarrow> found_in data (ext_loop data pos endPos)"
proof (induction data pos endPos rule: ext_loop.induct)
  case (1 data pos endPos)
  show ?case
  proof (cases "pos + 4 \<le> endPos")
    case True
    then have in_range: "pos + 3 < length data" using "1.prems" by simp
    obtain t l where t: "rd16 data pos = Some t" and l: "rd16 data (pos + 2) = Some l"
      using in_range by (simp add: rd16_Some)
    show ?thesis
    proof (cases "t = 0")
      case False
      then show ?thesis using "1.IH" [OF True _ _ False] t l "1.prems" True by (subst ext_loop.simps) simp
    next
      case True
      then show ?thesis using "1.prems" t l \<open>pos + 4 \<le> endPos\<close>
        by (subst ext_loop.simps) (simp add: rd_Some rd16_Some slice_Some, auto simp: found_in_def sublist_slice)
    qed
  next
    case False
    then show ?thesis by (subst ext_loop.simps) simp
  qed
qed

lemma skip_to_extensions_found: "found_in data (skip_to_extensions data pos)"
  by (simp add: skip_to_extensions_def Let_def rd_Some rd16_Some ext_loop_found)

lemma extractSNI_found: "found_in data (extractSNI data)"
  by (auto simp: extractSNI_def rd_def skip_to_extensions_found)

section \<open>What a client sends\<close>

definition enc16 :: "nat \<Rightarrow> byte list" where
  "enc16 n = [of_nat (n div 256), of_nat (n mod 256)]"

definition enc_ext :: "nat \<times> byte list \<Rightarrow> byte list" where
  "enc_ext x = enc16 (fst x) @ enc16 (length (snd x)) @ snd x"

definition enc_exts :: "(nat \<times> byte list) list \<Rightarrow> byte list" where
  "enc_exts xs = concat (map enc_ext xs)"

text \<open>The body of a server name extension with one host name.\<close>

definition sni_ext :: "byte list \<Rightarrow> nat \<times> byte list" where
  "sni_ext name = (0, enc16 (length name + 3) @ [0] @ enc16 (length name) @ name)"

record client_hello =
  ch_record :: "byte list"
  ch_handshake :: "byte list"
  ch_version_random :: "byte list"
  ch_session_id :: "byte list"
  ch_cipher_suites :: "byte list"
  ch_compression :: "byte list"
  ch_extensions :: "(nat \<times> byte list) list"

text \<open>
  \<open>ch_record\<close> and \<open>ch_handshake\<close> are the rest of the record and handshake headers after the type
  byte: versions and lengths, which the parser does not look at.
\<close>

definition hello_ok :: "client_hello \<Rightarrow> bool" where
  "hello_ok h \<longleftrightarrow> length (ch_record h) = 4 \<and> length (ch_handshake h) = 3 \<and> length (ch_version_random h) = 34 \<and>
     length (ch_session_id h) < 256 \<and> length (ch_cipher_suites h) < 65536 \<and> length (ch_compression h) < 256 \<and>
     length (enc_exts (ch_extensions h)) < 65536 \<and> (\<forall>x \<in> set (ch_extensions h). fst x < 65536)"

definition enc_hello :: "client_hello \<Rightarrow> byte list" where
  "enc_hello h = [0x16] @ ch_record h @ [0x01] @ ch_handshake h @ ch_version_random h @
     [of_nat (length (ch_session_id h))] @ ch_session_id h @
     enc16 (length (ch_cipher_suites h)) @ ch_cipher_suites h @
     [of_nat (length (ch_compression h))] @ ch_compression h @
     enc16 (length (enc_exts (ch_extensions h))) @ enc_exts (ch_extensions h)"

lemma length_enc16 [simp]: "length (enc16 n) = 2"
  by (simp add: enc16_def)

lemma rd_at: "length u = i \<Longrightarrow> rd (u @ b # v) i = Some (unat b)"
  by (simp add: rd_def nth_append)

lemma rd16_at: "length u = i \<Longrightarrow> n < 65536 \<Longrightarrow> rd16 (u @ enc16 n @ v) i = Some n"
  by (simp add: rd16_def rd_def nth_append enc16_def unat_of_nat)

lemma slice_at: "length u = a \<Longrightarrow> a + length m = b \<Longrightarrow> slice (u @ m @ v) a b = Some m"
  by (auto simp: slice_def)

lemma unat_length_byte: "n < 256 \<Longrightarrow> unat (of_nat n :: byte) = n"
  by (simp add: unat_of_nat)

lemma enc_exts_Cons [simp]: "enc_exts (x # xs) = enc_ext x @ enc_exts xs"
  by (simp add: enc_exts_def)

lemma enc_exts_Nil [simp]: "enc_exts [] = []"
  by (simp add: enc_exts_def)

lemma enc_exts_append: "enc_exts (xs @ ys) = enc_exts xs @ enc_exts ys"
  by (simp add: enc_exts_def)

text \<open>The loop skips an extension of another type and stops at the server name.\<close>

lemma ext_loop_skip:
  assumes "length u = pos" "fst x \<noteq> 0" "fst x < 65536" "length (snd x) < 65536"
    "pos + length (enc_ext x) \<le> endPos"
  shows "ext_loop (u @ enc_ext x @ v) pos endPos = ext_loop (u @ enc_ext x @ v) (pos + length (enc_ext x)) endPos"
proof -
  have t: "rd16 (u @ enc_ext x @ v) pos = Some (fst x)"
    using rd16_at [OF assms(1,3), of "enc16 (length (snd x)) @ snd x @ v"] by (simp add: enc_ext_def)
  have l: "rd16 (u @ enc_ext x @ v) (pos + 2) = Some (length (snd x))"
    using rd16_at [of "u @ enc16 (fst x)" "pos + 2" "length (snd x)" "snd x @ v"] assms(1,4)
    by (simp add: enc_ext_def)
  have len: "length (enc_ext x) = 4 + length (snd x)" by (simp add: enc_ext_def)
  show ?thesis using assms(2,5) t l by (subst ext_loop.simps) (simp add: len ac_simps)
qed

lemma ext_loop_sni:
  assumes "length u = pos" "length name + 9 < 65536" "pos + length (enc_ext (sni_ext name)) \<le> endPos"
  shows "ext_loop (u @ enc_ext (sni_ext name) @ v) pos endPos = Some (string_of_bytes name)"
proof -
  let ?d = "u @ enc_ext (sni_ext name) @ v"
  define b where "b = enc16 (length name + 3) @ [0] @ enc16 (length name) @ name"
  have d: "?d = u @ enc16 0 @ enc16 (length b) @ b @ v" by (simp add: enc_ext_def sni_ext_def b_def)
  have lb: "length b = length name + 5" by (simp add: b_def)
  have t: "rd16 ?d pos = Some 0" unfolding d by (rule rd16_at [OF assms(1)]) simp
  have l: "rd16 ?d (pos + 2) = Some (length b)"
    using rd16_at [of "u @ enc16 0" "pos + 2" "length b" "b @ v"] assms(1,2) by (simp add: d lb)
  have ty: "rd ?d (pos + 4 + 2) = Some 0"
    using rd_at [of "u @ enc16 0 @ enc16 (length b) @ enc16 (length name + 3)" "pos + 4 + 2" 0 "enc16 (length name) @ name @ v"]
      assms(1) by (simp add: d b_def)
  have n: "rd16 ?d (pos + 4 + 3) = Some (length name)"
    using rd16_at [of "u @ enc16 0 @ enc16 (length b) @ enc16 (length name + 3) @ [0]" "pos + 4 + 3" "length name" "name @ v"]
      assms(1,2) by (simp add: d b_def)
  have sl: "slice ?d (pos + 4 + 5) (pos + 4 + 5 + length name) = Some name"
    using slice_at [of "u @ enc16 0 @ enc16 (length b) @ enc16 (length name + 3) @ [0] @ enc16 (length name)" "pos + 4 + 5" name
        "pos + 4 + 5 + length name" v] assms(1) by (simp add: d b_def)
  have "pos + 9 + length name \<le> endPos" using assms(3) by (simp add: enc_ext_def sni_ext_def)
  then show ?thesis using t l ty n sl by (subst ext_loop.simps) simp
qed

lemma ext_loop_finds:
  assumes "\<forall>x \<in> set pre. fst x \<noteq> 0 \<and> fst x < 65536 \<and> length (snd x) < 65536"
    and "length u = pos" "length name + 9 < 65536"
    and "pos + length (enc_exts (pre @ sni_ext name # post)) \<le> endPos"
  shows "ext_loop (u @ enc_exts (pre @ sni_ext name # post) @ v) pos endPos = Some (string_of_bytes name)"
  using assms
proof (induction pre arbitrary: u pos)
  case Nil
  then show ?case using ext_loop_sni [of u pos name endPos "enc_exts post @ v"] by simp
next
  case (Cons x pre)
  have "ext_loop ((u @ enc_ext x) @ enc_exts (pre @ sni_ext name # post) @ v) (pos + length (enc_ext x)) endPos
      = Some (string_of_bytes name)"
    using Cons.prems by (intro Cons.IH) auto
  then show ?case
    using ext_loop_skip [of u pos x endPos "enc_exts (pre @ sni_ext name # post) @ v"] Cons.prems by simp
qed

lemma skip_to_extensions_complete:
  fixes u sid cs cm ex :: "byte list"
  defines "data \<equiv> u @ [of_nat (length sid)] @ sid @ enc16 (length cs) @ cs @ [of_nat (length cm)] @ cm @ enc16 (length ex) @ ex"
  assumes "length u = pos" "length sid < 256" "length cs < 65536" "length cm < 256" "length ex < 65536"
  shows "skip_to_extensions data pos = ext_loop data (length data - length ex) (length data)"
proof -
  have 1: "rd data pos = Some (length sid)"
    using rd_at [of u pos "of_nat (length sid)"] assms(2,3) by (simp add: data_def unat_length_byte)
  have 2: "rd16 data (pos + 1 + length sid) = Some (length cs)"
    using rd16_at [of "u @ [of_nat (length sid)] @ sid" "pos + 1 + length sid" "length cs"] assms(2,4)
    by (simp add: data_def)
  have 3: "rd data (pos + 1 + length sid + 2 + length cs) = Some (length cm)"
    using rd_at [of "u @ [of_nat (length sid)] @ sid @ enc16 (length cs) @ cs" "pos + 1 + length sid + 2 + length cs" "of_nat (length cm)"]
      assms(2,5) by (simp add: data_def unat_length_byte)
  have 4: "rd16 data (pos + 1 + length sid + 2 + length cs + 1 + length cm) = Some (length ex)"
    using rd16_at [of "u @ [of_nat (length sid)] @ sid @ enc16 (length cs) @ cs @ [of_nat (length cm)] @ cm"
        "pos + 1 + length sid + 2 + length cs + 1 + length cm" "length ex" ex] assms(2,6) by (simp add: data_def)
  have len: "length data = pos + 1 + length sid + 2 + length cs + 1 + length cm + 2 + length ex"
    using assms(2) by (simp add: data_def)
  have start: "length data - length ex = pos + 1 + length sid + 2 + length cs + 1 + length cm + 2"
    using len by simp
  show ?thesis unfolding skip_to_extensions_def start using 1 2 3 4 by (simp add: len)
qed

lemma PeekSNI_returns: "\<exists>r. PeekSNI x = Some r"
proof (cases x)
  case (Some a)
  then show ?thesis using extractSNI_found [of "take 16384 a"] by (auto simp: PeekSNI_def found_in_def Let_def)
qed (simp add: PeekSNI_def)

text \<open>The parser finds the server name of every well-formed ClientHello, whatever its session
  id, cipher suites, compression methods and other extensions are.\<close>

lemma extractSNI_enc_hello:
  assumes "hello_ok h" and "ch_extensions h = pre @ sni_ext name # post" and "\<forall>x \<in> set pre. fst x \<noteq> 0"
  shows "extractSNI (enc_hello h) = Some (string_of_bytes name)"
proof -
  define u where "u = [0x16] @ ch_record h @ [0x01] @ ch_handshake h @ ch_version_random h"
  define v where "v = [of_nat (length (ch_session_id h))] @ ch_session_id h @ enc16 (length (ch_cipher_suites h)) @
    ch_cipher_suites h @ [of_nat (length (ch_compression h))] @ ch_compression h @ enc16 (length (enc_exts (ch_extensions h)))"
  let ?ex = "enc_exts (ch_extensions h)"
  have data: "enc_hello h = (u @ v) @ ?ex" by (simp add: enc_hello_def u_def v_def)
  have u: "length u = 43" using assms(1) by (simp add: u_def hello_ok_def)
  have 0: "rd (enc_hello h) 0 = Some 0x16" by (simp add: enc_hello_def rd_def)
  have 5: "rd (enc_hello h) 5 = Some 1"
    using rd_at [of "[0x16] @ ch_record h" 5 1] assms(1) by (simp add: enc_hello_def hello_ok_def)
  have big: "length (enc_hello h) > 43" using u by (simp add: data v_def)
  have small: "length (enc_ext x) < 65536" if "x \<in> set (ch_extensions h)" for x
  proof -
    have "length (enc_ext x) \<le> length ?ex"
      using that by (auto simp: enc_exts_def length_concat intro: member_le_sum_list)
    then show ?thesis using assms(1) by (simp add: hello_ok_def)
  qed
  have pre: "\<forall>x \<in> set pre. fst x \<noteq> 0 \<and> fst x < 65536 \<and> length (snd x) < 65536"
    using small assms by (force simp: hello_ok_def enc_ext_def)
  have name: "length name + 9 < 65536"
    using small [of "sni_ext name"] assms(2) by (simp add: enc_ext_def sni_ext_def)
  have "skip_to_extensions (enc_hello h) 43 = ext_loop (enc_hello h) (length (enc_hello h) - length ?ex) (length (enc_hello h))"
    using skip_to_extensions_complete [OF u, of "ch_session_id h" "ch_cipher_suites h" "ch_compression h" ?ex] assms(1)
    by (simp add: enc_hello_def u_def hello_ok_def)
  also have "\<dots> = Some (string_of_bytes name)"
    using ext_loop_finds [OF pre _ name, of "u @ v" "length (u @ v)" post "length (enc_hello h)" "[]"] assms(2)
    by (simp add: data)
  finally show ?thesis using 0 5 big by (simp add: extractSNI_def)
qed

section \<open>Properties\<close>

text \<open>C28: no input makes the parser read outside its buffer: whatever bytes a client sends,
  \<^verbatim>\<open>PeekSNI\<close> returns, without a panic, and the name it reports is a contiguous run of the first
  16384 bytes received.\<close>

theorem sni_parser_never_panics:
  "\<exists>sni. PeekSNI (Some waiting) = Some (Some (sni, take 16384 waiting)) \<and>
     sublist (bytes_of_string sni) (take 16384 waiting)"
  using extractSNI_found [of "take 16384 waiting"] by (auto simp: PeekSNI_def found_in_def Let_def)

end
