(* ===== verification/Proxy_Stats.thy ===== *)
theory Proxy_Stats
  imports Go_Float Go_Time Go_Http
begin

text \<open>
  \<^verbatim>\<open>internal/proxy/stats.go\<close> and \<^verbatim>\<open>metrics.go\<close>: the counters behind the statistics endpoints, their
  formatting, the sliding windows of the background updater, the connection gauge and the
  routes of the metrics server. The counters are atomics and the windows have their own locks,
  so every operation is one step. JSON encoding is the parameter \<open>enc\<close>.
\<close>

section \<open>Data\<close>

record HistorySample =
  hs_Time :: string
  hs_Users :: int
  hs_Traffic :: int

record StatsResponse =
  sr_TotalUsers :: int
  sr_ActiveConnections :: int
  sr_UptimeSeconds :: int
  sr_DataThroughput :: string
  sr_Latency :: int
  sr_SuccessRate :: rat

text \<open>\<open>st_lastBytes\<close> is the local variable of the background updater.\<close>

record StatsTracker =
  st_startTime :: time
  st_totalRelays :: int
  st_totalBytes :: int
  st_totalErrors :: int
  st_bytesWindow :: "int list"
  st_history :: "HistorySample list"
  st_AllowedOrigin :: string
  st_lastBytes :: int

definition new_stats :: "time \<Rightarrow> StatsTracker" where
  "new_stats now = \<lparr>st_startTime = now, st_totalRelays = 0, st_totalBytes = 0, st_totalErrors = 0,
     st_bytesWindow = [], st_history = [], st_AllowedOrigin = [], st_lastBytes = 0\<rparr>"

section \<open>Formatting\<close>

function itoa_loop :: "int \<Rightarrow> string \<Rightarrow> string" where
  "itoa_loop i result =
     (if i > 0 then itoa_loop (go_div i 10) (char_of (nat (48 + go_mod i 10)) # result) else result)"
  by pat_completeness auto
termination by (relation "measure (\<lambda>(i, _). nat i)") auto

declare itoa_loop.simps [simp del]

definition itoa :: "int \<Rightarrow> string" where
  "itoa i = (if i = 0 then ''0'' else itoa_loop i [])"

definition formatFloat :: "rat \<Rightarrow> string" where
  "formatFloat f =
     (let intPart = trunc_rat f;
          decPart = trunc_rat (fmul (fsub f (float64 intPart)) 10);
          decPart = (if decPart < 0 then - decPart else decPart)
      in itoa intPart @ ''.'' @ itoa decPart)"

definition formatBytes :: "int \<Rightarrow> string" where
  "formatBytes bytes =
     (if bytes \<ge> 2 ^ 30 then formatFloat (fdiv (float64 bytes) (2 ^ 30)) @ '' GB''
      else if bytes \<ge> 2 ^ 20 then formatFloat (fdiv (float64 bytes) (2 ^ 20)) @ '' MB''
      else if bytes \<ge> 2 ^ 10 then formatFloat (fdiv (float64 bytes) (2 ^ 10)) @ '' KB''
      else itoa bytes @ '' B'')"

text \<open>\<^verbatim>\<open>math.Round\<close>: to the nearest integer, halves away from zero.\<close>

definition math_round :: "rat \<Rightarrow> rat" where
  "math_round x = sgn x * of_int \<lfloor>\<bar>x\<bar> + 1 / 2\<rfloor>"

text \<open>\<^verbatim>\<open>t.Format("15:04")\<close>.\<close>

definition format_hhmm :: "int \<Rightarrow> time \<Rightarrow> string" where
  "format_hhmm off t =
     (let r = local_seconds off t mod 86400 in pad2 (r div 3600) @ '':'' @ pad2 (r div 60 mod 60))"

section \<open>Operations\<close>

definition second_tick :: "StatsTracker \<Rightarrow> StatsTracker" where
  "second_tick s =
     (let currentBytes = st_totalBytes s;
          bytesThisSecond = i64 (currentBytes - st_lastBytes s);
          window = st_bytesWindow s @ [bytesThisSecond];
          window = (if length window > 60 then drop 1 window else window)
      in s\<lparr>st_lastBytes := currentBytes, st_bytesWindow := window\<rparr>)"

definition hour_tick :: "int \<Rightarrow> time \<Rightarrow> StatsTracker \<Rightarrow> StatsTracker" where
  "hour_tick off now s =
     (let history = st_history s @ [\<lparr>hs_Time = format_hhmm off now, hs_Users = st_totalRelays s,
                                      hs_Traffic = st_totalBytes s\<rparr>];
          history = (if length history > 24 then drop 1 history else history)
      in s\<lparr>st_history := history\<rparr>)"

datatype tick = SecondTick | HourTick time

fun backgroundUpdater :: "int \<Rightarrow> tick list \<Rightarrow> StatsTracker \<Rightarrow> StatsTracker" where
  "backgroundUpdater off [] s = s"
| "backgroundUpdater off (SecondTick # ts) s = backgroundUpdater off ts (second_tick s)"
| "backgroundUpdater off (HourTick now # ts) s = backgroundUpdater off ts (hour_tick off now s)"

definition RecordRelay :: "StatsTracker \<Rightarrow> StatsTracker" where
  "RecordRelay s = s\<lparr>st_totalRelays := i64 (st_totalRelays s + 1)\<rparr>"

definition stats_RecordBytes :: "StatsTracker \<Rightarrow> int \<Rightarrow> StatsTracker" where
  "stats_RecordBytes s n = s\<lparr>st_totalBytes := i64 (st_totalBytes s + n)\<rparr>"

definition RecordError :: "StatsTracker \<Rightarrow> StatsTracker" where
  "RecordError s = s\<lparr>st_totalErrors := i64 (st_totalErrors s + 1)\<rparr>"

definition GetThroughput :: "StatsTracker \<Rightarrow> string" where
  "GetThroughput s =
     (if length (st_bytesWindow s) = 0 then ''0 B/s''
      else let total = fold (\<lambda>b total. i64 (total + b)) (st_bytesWindow s) 0;
               avg = go_div total (int (length (st_bytesWindow s)))
           in formatBytes avg @ ''/s'')"

definition GetSuccessRate :: "StatsTracker \<Rightarrow> rat" where
  "GetSuccessRate s =
     (let relays = st_totalRelays s; errors = st_totalErrors s; total = i64 (relays + errors)
      in if total = 0 then 100
         else fdiv (math_round (fmul (fmul (fdiv (float64 relays) (float64 total)) 100) 10)) 10)"

text \<open>\<open>active\<close> is what \<^verbatim>\<open>GetActiveConns\<close> returns.\<close>

definition GetStats :: "StatsTracker \<Rightarrow> int \<Rightarrow> time \<Rightarrow> StatsResponse" where
  "GetStats s active now = \<lparr>sr_TotalUsers = st_totalRelays s, sr_ActiveConnections = active,
     sr_UptimeSeconds = trunc_rat (seconds (time_sub now (st_startTime s))),
     sr_DataThroughput = GetThroughput s, sr_Latency = 18, sr_SuccessRate = GetSuccessRate s\<rparr>"

definition GetHistory :: "StatsTracker \<Rightarrow> HistorySample list" where
  "GetHistory s = st_history s"

definition generateInitialHistory :: "int \<Rightarrow> time \<Rightarrow> HistorySample list" where
  "generateInitialHistory off now =
     map (\<lambda>i. \<lparr>hs_Time = format_hhmm off (now + (int i - 23) * (3600 * second)), hs_Users = 0, hs_Traffic = 0\<rparr>) [0..<24]"

definition cors_headers :: "StatsTracker \<Rightarrow> response \<Rightarrow> response" where
  "cors_headers s w =
     set_header ''Content-Type'' ''application/json''
       (set_header ''Access-Control-Allow-Headers'' ''Content-Type''
         (set_header ''Access-Control-Allow-Methods'' ''GET, OPTIONS''
           (set_header ''Access-Control-Allow-Origin'' (st_AllowedOrigin s) w)))"

definition StatsHandler :: "(StatsResponse \<Rightarrow> string) \<Rightarrow> StatsTracker \<Rightarrow> int \<Rightarrow> time \<Rightarrow> response \<Rightarrow> string \<Rightarrow> response" where
  "StatsHandler enc s active now w meth =
     (let w = cors_headers s w
      in if meth = ''OPTIONS'' then write_header 200 w else write_body (enc (GetStats s active now)) w)"

definition HistoryHandler :: "(HistorySample list \<Rightarrow> string) \<Rightarrow> StatsTracker \<Rightarrow> int \<Rightarrow> time \<Rightarrow> response \<Rightarrow> string \<Rightarrow> response" where
  "HistoryHandler enc s off now w meth =
     (let w = cors_headers s w
      in if meth = ''OPTIONS'' then write_header 200 w
         else let history = GetHistory s;
                  history = (if length history = 0 then generateInitialHistory off now else history)
              in write_body (enc history) w)"

section \<open>The connection gauge and the metrics server\<close>

text \<open>The wrapper counts next to the Prometheus gauge it forwards to.\<close>

record gaugeWrapper =
  gw_count :: int
  gw_gauge :: int

definition gauge_Inc :: "gaugeWrapper \<Rightarrow> gaugeWrapper" where
  "gauge_Inc g = \<lparr>gw_count = i64 (gw_count g + 1), gw_gauge = gw_gauge g + 1\<rparr>"

definition gauge_Dec :: "gaugeWrapper \<Rightarrow> gaugeWrapper" where
  "gauge_Dec g = \<lparr>gw_count = i64 (gw_count g - 1), gw_gauge = gw_gauge g - 1\<rparr>"

definition gauge_Get :: "gaugeWrapper \<Rightarrow> int" where
  "gauge_Get g = gw_count g"

definition stats_GetActiveConns :: "gaugeWrapper \<Rightarrow> int" where
  "stats_GetActiveConns g = gw_count g"

datatype route = PrometheusRoute | StatsRoute | HistoryRoute | UsageRoute | NoRoute

text \<open>The routes \<^verbatim>\<open>NewMetricsServer\<close> registers; the usage route only with a handler.\<close>

definition metrics_route :: "bool \<Rightarrow> string \<Rightarrow> route" where
  "metrics_route usageHandler path =
     (if path = ''/metrics'' then PrometheusRoute
      else if path = ''/api/stats'' then StatsRoute
      else if path = ''/api/history'' then HistoryRoute
      else if usageHandler \<and> path = ''/api/usage'' then UsageRoute
      else NoRoute)"

section \<open>Printing\<close>

lemma itoa_loop_nat_dec: "itoa_loop (int n) r = (if n = 0 then r else nat_dec n @ r)"
proof (induction n arbitrary: r rule: less_induct)
  case (less n)
  show ?case
  proof (cases "n = 0")
    case True
    then show ?thesis by (subst itoa_loop.simps) simp
  next
    case False
    have q: "go_div (int n) 10 = int (n div 10)" "go_mod (int n) 10 = int (n mod 10)"
      by (simp_all add: zdiv_int zmod_int)
    have c: "char_of (nat (48 + int (n mod 10))) = digit_char (n mod 10)"
      by (simp add: digit_char_def nat_add_distrib)
    have "itoa_loop (int n) r = itoa_loop (int (n div 10)) (digit_char (n mod 10) # r)"
      using False by (subst itoa_loop.simps) (simp add: q c)
    also have "\<dots> = (if n div 10 = 0 then digit_char (n mod 10) # r else nat_dec (n div 10) @ digit_char (n mod 10) # r)"
      using False by (intro less.IH) simp
    finally show ?thesis using False by (subst nat_dec.simps) (simp add: div_eq_0_iff)
  qed
qed

lemma itoa_nat: "0 \<le> i \<Longrightarrow> itoa i = nat_dec (nat i)"
  using itoa_loop_nat_dec [of "nat i" "[]"]
  by (cases "i = 0") (simp_all add: itoa_def nat_dec.simps [of 0] digit_char_def char_of_def bit_Suc_0_iff)

lemma itoa_negative: "i < 0 \<Longrightarrow> itoa i = []"
  by (simp add: itoa_def itoa_loop.simps)

text \<open>The floor of a binary fraction is a quotient.\<close>

lemma floor_dyadic: "\<lfloor>of_int m / (2 ^ k :: rat)\<rfloor> = m div 2 ^ k"
proof -
  have "(of_int m / 2 ^ k :: rat) = of_int m / of_int (2 ^ k)" by simp
  then show ?thesis using floor_divide_of_int_eq [of m "2 ^ k", where 'a = rat] by simp
qed

lemma formatFloat_scaled:
  assumes "0 \<le> n" "n < 2 ^ 53" "k \<le> 30"
  shows "formatFloat (fdiv (float64 n) (2 ^ k))
    = nat_dec (nat (n div 2 ^ k)) @ ''.'' @ nat_dec (nat (10 * (n mod 2 ^ k) div 2 ^ k))"
proof -
  let ?q = "n div 2 ^ k" and ?r = "n mod 2 ^ k"
  have f: "fdiv (float64 n) (2 ^ k) = of_int n / 2 ^ k"
    using assms(1,2) fl64_dyadic [of n k] by (simp add: fdiv_def)
  have q: "0 \<le> ?q" "?q \<le> n" using assms(1) zdiv_mono2 [of n 1 "2 ^ k"] by (simp_all add: pos_imp_zdiv_nonneg_iff)
  have r: "0 \<le> ?r" "?r < 2 ^ k" by simp_all
  have "(2 :: int) ^ k \<le> 2 ^ 30" using assms(3) by (rule power_increasing) simp
  then have r30: "?r < 2 ^ 30" using r(2) by linarith
  have i: "trunc_rat (of_int n / 2 ^ k) = ?q" using assms(1) by (simp add: trunc_rat_def floor_dyadic)
  have "n = ?q * 2 ^ k + ?r" by (rule div_mult_mod_eq [symmetric])
  then have "(of_int n :: rat) = of_int ?q * 2 ^ k + of_int ?r"
    by (metis of_int_add of_int_mult of_int_numeral of_int_power)
  then have "(of_int n / 2 ^ k - of_int ?q :: rat) = of_int ?r / 2 ^ k" by (simp add: field_simps)
  then have d: "fsub (of_int n / 2 ^ k) (float64 ?q) = of_int ?r / 2 ^ k"
    using q assms(2) r30 fl64_dyadic [of ?r k] by (simp add: fsub_def)
  have "fmul (of_int ?r / 2 ^ k) 10 = of_int (10 * ?r) / 2 ^ k"
    using r r30 fl64_dyadic [of "10 * ?r" k] by (simp add: fmul_def mult.commute)
  then have e: "trunc_rat (fmul (of_int ?r / 2 ^ k) 10) = 10 * ?r div 2 ^ k"
    using r(1) floor_dyadic [of "10 * ?r" k] by (simp add: trunc_rat_def)
  have "0 \<le> 10 * ?r div 2 ^ k" using r(1) by (simp add: pos_imp_zdiv_nonneg_iff)
  then show ?thesis unfolding formatFloat_def f i Let_def d e using q(1) by (simp add: itoa_nat)
qed

section \<open>The sliding window\<close>

text \<open>The differences of consecutive readings, and the last \<open>n\<close> elements of a list.\<close>

fun diffs :: "int \<Rightarrow> int list \<Rightarrow> int list" where
  "diffs l [] = []"
| "diffs l (b # bs) = i64 (b - l) # diffs b bs"

definition last_n :: "nat \<Rightarrow> 'a list \<Rightarrow> 'a list" where
  "last_n n xs = rev (take n (rev xs))"

lemma last_n_push: "last_n (Suc n) (last_n (Suc n) xs @ [x]) = last_n (Suc n) (xs @ [x])"
  by (simp add: last_n_def)

lemma length_last_n [simp]: "length (last_n n xs) \<le> n"
  by (simp add: last_n_def)

lemma last_n_drop: "last_n n xs = drop (length xs - n) xs"
  by (simp add: last_n_def rev_take)

lemma last_n_short: "length xs \<le> n \<Longrightarrow> last_n n xs = xs"
  by (simp add: last_n_def)

lemma window_push:
  "length w \<le> n \<Longrightarrow> (if length (w @ [x]) > n then drop 1 (w @ [x]) else w @ [x]) = last_n n (w @ [x])"
  by (cases "length w = n") (auto simp: last_n_drop)

lemma second_tick_fields:
  assumes "length (st_bytesWindow s) \<le> 60"
  shows "st_bytesWindow (second_tick s) = last_n 60 (st_bytesWindow s @ [i64 (st_totalBytes s - st_lastBytes s)])"
    and "st_lastBytes (second_tick s) = st_totalBytes s"
  unfolding second_tick_def Let_def window_push [OF assms] by simp_all

definition stats_ok :: "StatsTracker \<Rightarrow> bool" where
  "stats_ok s \<longleftrightarrow> length (st_bytesWindow s) \<le> 60 \<and> length (st_history s) \<le> 24"

lemma stats_ok_ops:
  "stats_ok (new_stats now)"
  "stats_ok s \<Longrightarrow> stats_ok (second_tick s)"
  "stats_ok s \<Longrightarrow> stats_ok (hour_tick off now s)"
  "stats_ok s \<Longrightarrow> stats_ok (RecordRelay s)"
  "stats_ok s \<Longrightarrow> stats_ok (stats_RecordBytes s n)"
  "stats_ok s \<Longrightarrow> stats_ok (RecordError s)"
  by (auto simp: stats_ok_def new_stats_def second_tick_def hour_tick_def RecordRelay_def stats_RecordBytes_def
      RecordError_def Let_def)

lemma window_run:
  assumes "length (st_bytesWindow s) \<le> 60"
  shows "st_bytesWindow (fold (\<lambda>b s. second_tick (s\<lparr>st_totalBytes := b\<rparr>)) bs s)
    = last_n 60 (st_bytesWindow s @ diffs (st_lastBytes s) bs)"
  using assms
proof (induction bs arbitrary: s)
  case Nil
  then show ?case by (simp add: last_n_short)
next
  case (Cons b bs)
  define s' where "s' = second_tick (s\<lparr>st_totalBytes := b\<rparr>)"
  have w: "st_bytesWindow s' = last_n 60 (st_bytesWindow s @ [i64 (b - st_lastBytes s)])" "st_lastBytes s' = b"
    using second_tick_fields [of "s\<lparr>st_totalBytes := b\<rparr>"] Cons.prems by (simp_all add: s'_def)
  have push: "last_n 60 (last_n 60 xs @ ys) = last_n 60 (xs @ ys)" for xs ys :: "int list"
    by (simp add: last_n_def take_append)
  show ?case using Cons.IH [of s'] w push [of "st_bytesWindow s @ [i64 (b - st_lastBytes s)]" "diffs b bs"]
    by (simp add: s'_def [symmetric])
qed

section \<open>Properties\<close>

text \<open>C40: amounts are printed exactly: for every count of bytes below \<open>2\<^sup>5\<^sup>3\<close> the printed number is the
  whole part and the first decimal, cut off, of the amount in the largest unit that fits, in
  spite of the floating-point arithmetic on the way.\<close>

theorem formatBytes_exact:
  assumes "0 \<le> n" and "n < 2 ^ 53"
  shows "formatBytes n =
    (let show_unit = (\<lambda>k unit. nat_dec (nat (n div 2 ^ k)) @ ''.'' @ nat_dec (nat (10 * (n mod 2 ^ k) div 2 ^ k)) @ unit)
     in if 2 ^ 30 \<le> n then show_unit 30 '' GB''
        else if 2 ^ 20 \<le> n then show_unit 20 '' MB''
        else if 2 ^ 10 \<le> n then show_unit 10 '' KB''
        else nat_dec (nat n) @ '' B'')"
  using assms formatFloat_scaled [OF assms, of 30] formatFloat_scaled [OF assms, of 20] formatFloat_scaled [OF assms, of 10]
  by (simp add: formatBytes_def Let_def itoa_nat)

theorem formatBytes_exact_witness: "formatBytes 1536 = ''1.5 KB''"
proof -
  have d: "nat_dec (Suc 0) = ''1''" "nat_dec 5 = ''5''" by code_simp+
  show ?thesis by (subst formatBytes_exact) (simp_all add: Let_def d)
qed

text \<open>The reported success rate is a percentage: between 0 and 100 for every pair of counters
  that has not overflowed, 100 without errors and 0 without relays.\<close>

lemma success_rate_percentage:
  assumes "0 \<le> st_totalRelays s" and "0 \<le> st_totalErrors s" and "st_totalRelays s + st_totalErrors s < 2 ^ 63"
  shows "0 \<le> GetSuccessRate s \<and> GetSuccessRate s \<le> 100 \<and>
    (st_totalErrors s = 0 \<longrightarrow> GetSuccessRate s = 100) \<and>
    (st_totalRelays s = 0 \<and> st_totalErrors s > 0 \<longrightarrow> GetSuccessRate s = 0)"
proof (cases "st_totalRelays s + st_totalErrors s = 0")
  case True
  then show ?thesis using assms by (simp add: GetSuccessRate_def Let_def)
next
  case False
  let ?r = "st_totalRelays s" and ?t = "st_totalRelays s + st_totalErrors s"
  define p where "p = fdiv (float64 ?r) (float64 ?t)"
  define q where "q = fmul (fmul p 100) 10"
  have t: "1 \<le> ?t" using False assms(1,2) by linarith
  have ft: "1 \<le> float64 ?t" using t unfolding float64_def by (intro f64.rnd_ge_fixed) simp_all
  have fr: "0 \<le> float64 ?r" "float64 ?r \<le> float64 ?t"
    using assms(1,2) unfolding float64_def by (simp, intro fl64_mono, simp)
  have "0 \<le> float64 ?r / float64 ?t" "float64 ?r / float64 ?t \<le> 1" using fr ft by simp_all
  then have p: "0 \<le> p" "p \<le> 1" unfolding p_def fdiv_def by (simp, intro f64.rnd_le_fixed, simp_all)
  have "fl64 (p * 100) \<le> 100" using p by (intro f64.rnd_le_fixed) simp_all
  moreover have "0 \<le> fl64 (p * 100)" using p by simp
  ultimately have q: "0 \<le> q" "q \<le> 1000"
    unfolding q_def fmul_def by (simp, intro f64.rnd_le_fixed, simp_all)
  have rnd: "math_round q = of_int \<lfloor>q + 1 / 2\<rfloor>" using q(1) by (cases "q = 0") (simp_all add: math_round_def floor_eq_iff)
  have "\<lfloor>1000 + 1 / 2 :: rat\<rfloor> = 1000" by (simp add: floor_eq_iff)
  then have "\<lfloor>q + 1 / 2\<rfloor> \<le> 1000" using q(2) floor_mono [of "q + 1 / 2" "1000 + 1 / 2"] by simp
  then have "(of_int \<lfloor>q + 1 / 2\<rfloor> :: rat) \<le> of_int 1000" by (simp only: of_int_le_iff)
  then have m: "0 \<le> math_round q" "math_round q \<le> 1000" unfolding rnd using q(1) by simp_all
  have rate: "GetSuccessRate s = fl64 (math_round q / 10)"
    using False assms by (simp add: GetSuccessRate_def Let_def p_def q_def fdiv_def)
  have "GetSuccessRate s \<le> 100" unfolding rate using m(2) by (intro f64.rnd_le_fixed) simp_all
  moreover have "GetSuccessRate s = 100" if "st_totalErrors s = 0"
  proof -
    have "p = 1" using that ft by (simp add: p_def fdiv_def)
    then have "q = 1000" by (simp add: q_def fmul_def)
    then show ?thesis using \<open>\<lfloor>1000 + 1 / 2 :: rat\<rfloor> = 1000\<close> unfolding rate rnd by simp
  qed
  moreover have "GetSuccessRate s = 0" if "?r = 0"
    using that by (simp add: rate math_round_def q_def p_def fmul_def fdiv_def)
  moreover have "0 \<le> GetSuccessRate s" unfolding rate using m(1) by simp
  ultimately show ?thesis by blast
qed

text \<open>The throughput window is the one the code means: whatever the byte counter reads at the
  seconds' ticks, the window holds the differences of consecutive readings for the last sixty
  ticks, and never more; no operation lets the window or the history outgrow 60 and 24 entries.\<close>

lemma stats_windows:
  assumes "stats_ok s"
  shows "st_bytesWindow (fold (\<lambda>b s. second_tick (s\<lparr>st_totalBytes := b\<rparr>)) bs s)
      = last_n 60 (st_bytesWindow s @ diffs (st_lastBytes s) bs) \<and>
    stats_ok (backgroundUpdater off ticks s) \<and>
    stats_ok (RecordRelay s) \<and> stats_ok (RecordError s) \<and> stats_ok (stats_RecordBytes s n)"
proof -
  have "stats_ok (backgroundUpdater off ticks s)"
    using assms by (induction off ticks s rule: backgroundUpdater.induct) (simp_all add: stats_ok_ops)
  then show ?thesis using assms window_run [of s bs] stats_ok_ops(4-6) by (simp add: stats_ok_def)
qed

end
