(* ===== verification/Sni_Server.thy ===== *)
theory Sni_Server
  imports Sni_Parser Proxy_Stats Env_Config Prometheus
begin

text \<open>
  \<^verbatim>\<open>internal/proxy/server.go\<close> without the parser: the SNI server, which relays a connection to the
  back end configured for the server name it finds, answers its own API requests otherwise, and
  bounds the number of connections. \<open>sni_env\<close> holds what the network and the library calls answer;
  \<open>None\<close> as a result is a run-time panic. The accept loop with its slots, handlers and shutdown is
  the step relation \<open>srv_step\<close>.
\<close>

section \<open>Certificates\<close>

text \<open>\<open>loaded\<close> is the result of \<^verbatim>\<open>tls.LoadX509KeyPair\<close>; the certificate in use stays when it fails.\<close>

definition Reload :: "'cert option \<Rightarrow> 'cert option \<Rightarrow> bool \<times> 'cert option" where
  "Reload loaded current = (case loaded of None \<Rightarrow> (False, current) | Some c \<Rightarrow> (True, Some c))"

definition getCertificate :: "'cert option \<Rightarrow> 'cert option" where
  "getCertificate current = current"

section \<open>Answering API requests\<close>

record simpleResponseWriter =
  sw_out :: string
  sw_header :: header
  sw_wroteHeader :: bool
  sw_status :: int

definition crlf :: string where
  "crlf = map char_of [13, 10 :: nat]"

text \<open>\<^verbatim>\<open>http.StatusText\<close> for the codes the API answers with.\<close>

definition status_text :: "int \<Rightarrow> string" where
  "status_text code = (if code = 200 then ''OK'' else if code = 404 then ''Not Found'' else [])"

definition header_lines :: "header \<Rightarrow> string list \<Rightarrow> string" where
  "header_lines h keys =
     concat (map (\<lambda>k. concat (map (\<lambda>v. k @ '': '' @ v @ crlf) (case h k of None \<Rightarrow> [] | Some vv \<Rightarrow> vv))) keys)"

text \<open>\<open>date\<close> is the formatted time; \<open>order\<close> the order in which Go ranges over the header map.\<close>

definition srw_WriteHeader :: "string \<Rightarrow> (header \<Rightarrow> string list) \<Rightarrow> int \<Rightarrow> simpleResponseWriter \<Rightarrow> simpleResponseWriter" where
  "srw_WriteHeader date order status w =
     (if sw_wroteHeader w then w
      else let h = header_set (header_set (sw_header w) ''Date'' date) ''Connection'' ''close''
           in w\<lparr>sw_wroteHeader := True, sw_status := status, sw_header := h,
                sw_out := sw_out w @ ''HTTP/1.1 '' @ int_dec status @ '' '' @ status_text status @ crlf @
                  header_lines h (order h) @ crlf\<rparr>)"

definition srw_Write :: "string \<Rightarrow> (header \<Rightarrow> string list) \<Rightarrow> string \<Rightarrow> simpleResponseWriter \<Rightarrow> simpleResponseWriter" where
  "srw_Write date order b w =
     (let w = (if \<not> sw_wroteHeader w then srw_WriteHeader date order 200 w else w)
      in w\<lparr>sw_out := sw_out w @ b\<rparr>)"

text \<open>
  A handler's response on this writer: the headers it set, its status line and its body, in the
  order in which the handlers make the calls.
\<close>

definition replay :: "string \<Rightarrow> (header \<Rightarrow> string list) \<Rightarrow> response \<Rightarrow> simpleResponseWriter \<Rightarrow> simpleResponseWriter" where
  "replay date order r w =
     (let w = w\<lparr>sw_header := rs_header r\<rparr>;
          w = (case rs_status r of None \<Rightarrow> w | Some code \<Rightarrow> srw_WriteHeader date order code w)
      in if rs_body r = [] then w else srw_Write date order (rs_body r) w)"

record api_env =
  ae_request :: "byte list \<Rightarrow> (string \<times> string) option"
  ae_enc_stats :: "StatsResponse \<Rightarrow> string"
  ae_enc_history :: "HistorySample list \<Rightarrow> string"
  ae_date :: string
  ae_order :: "header \<Rightarrow> string list"
  ae_off :: int
  ae_now :: time

text \<open>\<open>ae_request\<close> is \<^verbatim>\<open>http.ReadRequest\<close>: method and path, or nothing when it fails. The result is what is sent.\<close>

definition handleInternalAPI :: "api_env \<Rightarrow> StatsTracker \<Rightarrow> gaugeWrapper \<Rightarrow> byte list \<Rightarrow> string" where
  "handleInternalAPI a st g initialData =
     (case ae_request a initialData of
        None \<Rightarrow> []
      | Some (meth, path) \<Rightarrow>
          let w = \<lparr>sw_out = [], sw_header = Map.empty, sw_wroteHeader = False, sw_status = 0\<rparr>;
              r = (if path = ''/api/stats'' then StatsHandler (ae_enc_stats a) st (stats_GetActiveConns g) (ae_now a) new_response meth
                   else if path = ''/api/history'' then HistoryHandler (ae_enc_history a) st (ae_off a) (ae_now a) new_response meth
                   else http_error ''Not Found'' 404 new_response);
              w = replay (ae_date a) (ae_order a) r w;
              w = (if \<not> sw_wroteHeader w then srw_WriteHeader (ae_date a) (ae_order a) 200 w else w)
          in sw_out w)"

section \<open>One connection\<close>

datatype sni_metric =
    NMetricRelayTotal | NMetricActiveConns | NMetricBytesTotal | NMetricErrorsTotal | NMetricConnectionDuration
  | NMetricConnectionsRejected

datatype sni_event =
    NCall sni_metric "string list" metric_op
  | NDial string
  | NForward "byte list"
  | NApi string
  | NCloseUp
  | NCloseClient

record sni_state =
  sn_stats :: StatsTracker
  sn_gauge :: gaugeWrapper
  sn_events :: "sni_event list"

text \<open>One turn of a copy loop: cancelled or not, what the read returned, what the write returned.\<close>

record copy_turn =
  ct_cancelled :: bool
  ct_nr :: int
  ct_rerr :: bool
  ct_nw :: int
  ct_werr :: bool

text \<open>The bytes a copy has counted, and whether it has ended.\<close>

fun copyData :: "copy_turn list \<Rightarrow> int \<Rightarrow> int \<times> bool" where
  "copyData [] bytes = (bytes, False)"
| "copyData (t # ts) bytes =
     (if ct_cancelled t then (bytes, True)
      else let bytes = (if ct_nr t > 0 \<and> ct_nw t > 0 then i64 (bytes + ct_nw t) else bytes)
           in if ct_nr t > 0 \<and> ct_werr t then (bytes, True)
              else if ct_rerr t then (bytes, True)
              else copyData ts bytes)"

record sni_env =
  ne_uni :: "string \<Rightarrow> string"
  ne_read :: "byte list option"
  ne_dial :: "string \<Rightarrow> bool"
  ne_write :: "byte list \<Rightarrow> bool"
  ne_up :: "copy_turn list"
  ne_down :: "copy_turn list"
  ne_api :: api_env

definition nlog :: "sni_event list \<Rightarrow> sni_state \<Rightarrow> sni_state" where
  "nlog es s = s\<lparr>sn_events := sn_events s @ es\<rparr>"

definition count_error :: "string \<Rightarrow> sni_state \<Rightarrow> sni_state" where
  "count_error kind s = (nlog [NCall NMetricErrorsTotal [kind] MInc] s)\<lparr>sn_stats := RecordError (sn_stats s)\<rparr>"

text \<open>The relay to a back end, from the dial on.\<close>

definition sni_relay :: "sni_env \<Rightarrow> sni_state \<Rightarrow> string \<Rightarrow> byte list \<Rightarrow> string \<Rightarrow> sni_state" where
  "sni_relay e s sni initialData target =
     (let s = nlog [NDial target] s
      in if \<not> ne_dial e target then count_error ''dial_failed'' s
         else if length initialData > 0 \<and> \<not> ne_write e initialData
         then nlog [NCall NMetricErrorsTotal [''write_failed''] MInc, NCloseUp] s
         else
           let s = (if length initialData > 0 then nlog [NForward initialData] s else s);
               s = (nlog [NCall NMetricRelayTotal [sni] MInc] s)\<lparr>sn_stats := RecordRelay (sn_stats s)\<rparr>;
               upBytes = fst (copyData (ne_up e) 0);
               downBytes = fst (copyData (ne_down e) 0);
               s = nlog [NCall NMetricConnectionDuration [] MObserve, NCall NMetricBytesTotal [sni, ''upstream''] (MAdd upBytes), NCall NMetricBytesTotal [sni, ''downstream''] (MAdd downBytes)] s;
               s = s\<lparr>sn_stats := stats_RecordBytes (sn_stats s) (i64 (upBytes + downBytes))\<rparr>
           in nlog [NCloseUp] s)"

definition sni_route :: "sni_env \<Rightarrow> Config \<Rightarrow> sni_state \<Rightarrow> string \<Rightarrow> byte list \<Rightarrow> sni_state" where
  "sni_route e cfg s sni initialData =
     (case map_of (cfg_Hosts cfg) (ToLower (ne_uni e) sni) of
        Some target \<Rightarrow>
          if sni = [] then
            if length initialData > 0 \<and> initialData ! 0 \<noteq> 0x16
            then nlog [NApi (handleInternalAPI (ne_api e) (sn_stats s) (sn_gauge s) initialData)] s
            else count_error ''unauthorized_sni'' s
          else sni_relay e s sni initialData target
      | None \<Rightarrow>
          if length initialData > 0 \<and> initialData ! 0 \<noteq> 0x16
          then nlog [NApi (handleInternalAPI (ne_api e) (sn_stats s) (sn_gauge s) initialData)] s
          else count_error ''unauthorized_sni'' s)"

definition HandleConnection :: "sni_env \<Rightarrow> Config \<Rightarrow> sni_state \<Rightarrow> sni_state option" where
  "HandleConnection e cfg s =
     (let s = (nlog [NCall NMetricActiveConns [] MInc] s)\<lparr>sn_gauge := gauge_Inc (sn_gauge s)\<rparr>
      in do { r \<leftarrow> PeekSNI (ne_read e);
              let s = (case r of
                         None \<Rightarrow> count_error ''peek_failed'' s
                       | Some (sni, initialData) \<Rightarrow> sni_route e cfg s sni initialData);
              let s = (nlog [NCall NMetricActiveConns [] MDec] s)\<lparr>sn_gauge := gauge_Dec (sn_gauge s)\<rparr>;
              Some (nlog [NCloseClient] s) })"

section \<open>The accept loop, its slots and shutdown\<close>

text \<open>
  \<open>sv_slots\<close> is the number of elements in the channel \<^verbatim>\<open>connSem\<close>, \<open>sv_holding\<close> the handlers that hold a
  slot and \<open>sv_leaving\<close> those that gave it back and have yet to call \<^verbatim>\<open>wg.Done\<close> (deferred calls run
  in reverse order); \<open>sv_wg\<close> is the wait group's counter and \<open>sv_events\<close> what the loop did to connections it rejected.
\<close>

datatype srv_phase = Accepting | Draining | ReturnedDrained | ReturnedTimeout | ReturnedError

record srv =
  sv_max :: nat
  sv_slots :: nat
  sv_holding :: nat
  sv_leaving :: nat
  sv_wg :: nat
  sv_events :: "sni_event list"
  sv_closed :: bool
  sv_phase :: srv_phase

definition NewSniServer :: "Config \<Rightarrow> srv option" where
  "NewSniServer cfg =
     (if cfg_MaxConns cfg < 0 then None
      else Some \<lparr>sv_max = nat (cfg_MaxConns cfg), sv_slots = 0, sv_holding = 0, sv_leaving = 0, sv_wg = 0,
                 sv_events = [], sv_closed = False, sv_phase = Accepting\<rparr>)"

text \<open>
  The part of \<^verbatim>\<open>Start\<close> before the accept loop: \<open>loaded\<close> is the key pair read from disk, \<open>listens\<close> whether
  the listener could be opened. The result says whether the loop is entered, with the
  certificate in use, the statistics and the lines logged.
\<close>

definition sni_Start :: "'cert option \<Rightarrow> bool \<Rightarrow> Config \<Rightarrow> 'cert option \<Rightarrow> StatsTracker \<Rightarrow>
    bool \<times> 'cert option \<times> StatsTracker \<times> (string \<times> string) list" where
  "sni_Start loaded listens cfg cert st =
     (let (ok, cert) = Reload loaded cert
      in if \<not> ok then (False, cert, st, [])
         else let msgs = [(''success'', ''Certificates reloaded from disk'')]
              in if \<not> listens then (False, cert, st, msgs)
                 else let metricsAddr = cfg_MetricsListen cfg;
                          metricsAddr = (if prefix '':'' metricsAddr then ''localhost'' @ metricsAddr else metricsAddr)
                      in (True, cert, st\<lparr>st_AllowedOrigin := ec_AllowedOrigin (cfg_Env cfg)\<rparr>,
                          msgs @ [(''info'', ''Metrics: http://'' @ metricsAddr @ ''/metrics''),
                                  (''info'', ''Stats API: https://'' @ ec_APIDomain (cfg_Env cfg) @ ''/api/stats'')]))"

inductive srv_step :: "srv \<Rightarrow> srv \<Rightarrow> bool" where
  Admit: "sv_phase s = Accepting \<Longrightarrow> sv_slots s < sv_max s \<Longrightarrow>
    srv_step s (s\<lparr>sv_slots := sv_slots s + 1, sv_wg := sv_wg s + 1, sv_holding := sv_holding s + 1\<rparr>)"
| Reject: "sv_phase s = Accepting \<Longrightarrow> \<not> sv_slots s < sv_max s \<Longrightarrow>
    srv_step s (s\<lparr>sv_events := sv_events s @ [NCall NMetricConnectionsRejected [] MInc, NCloseClient]\<rparr>)"
| AcceptFails: "sv_phase s = Accepting \<Longrightarrow> \<not> sv_closed s \<Longrightarrow> srv_step s (s\<lparr>sv_phase := ReturnedError\<rparr>)"
| FreeSlot: "0 < sv_holding s \<Longrightarrow>
    srv_step s (s\<lparr>sv_slots := sv_slots s - 1, sv_holding := sv_holding s - 1, sv_leaving := sv_leaving s + 1\<rparr>)"
| Leave: "0 < sv_leaving s \<Longrightarrow> srv_step s (s\<lparr>sv_leaving := sv_leaving s - 1, sv_wg := sv_wg s - 1\<rparr>)"
| WatchShutdown: "\<not> sv_closed s \<Longrightarrow> srv_step s (s\<lparr>sv_closed := True\<rparr>)"
| BeginDrain: "sv_phase s = Accepting \<Longrightarrow> sv_closed s \<Longrightarrow> srv_step s (s\<lparr>sv_phase := Draining\<rparr>)"
| Drained: "sv_phase s = Draining \<Longrightarrow> sv_wg s = 0 \<Longrightarrow> srv_step s (s\<lparr>sv_phase := ReturnedDrained\<rparr>)"
| DrainTimeout: "sv_phase s = Draining \<Longrightarrow> srv_step s (s\<lparr>sv_phase := ReturnedTimeout\<rparr>)"

inductive_cases srv_stepE: "srv_step s s'"

inductive srv_reach :: "srv \<Rightarrow> srv \<Rightarrow> bool" for s0 where
  Init: "srv_reach s0 s0"
| Step: "srv_reach s0 s \<Longrightarrow> srv_step s s' \<Longrightarrow> srv_reach s0 s'"


section \<open>Lemmas\<close>

lemma nlog_simps [simp]:
  "sn_events (nlog es s) = sn_events s @ es" "sn_stats (nlog es s) = sn_stats s" "sn_gauge (nlog es s) = sn_gauge s"
  by (simp_all add: nlog_def)

lemma count_error_simps [simp]:
  "sn_events (count_error k s) = sn_events s @ [NCall NMetricErrorsTotal [k] MInc]" "sn_stats (count_error k s) = RecordError (sn_stats s)"
  "sn_gauge (count_error k s) = sn_gauge s"
  by (simp_all add: count_error_def)

lemma gauge_balanced [simp]: "in_i64 (gw_count g) \<Longrightarrow> gauge_Dec (gauge_Inc g) = g"
  using i64_add_left [of "gw_count g + 1" "- 1"] by (simp add: gauge_Dec_def gauge_Inc_def i64_id)

lemma sni_relay_gauge [simp]: "sn_gauge (sni_relay e s sni d target) = sn_gauge s"
  by (simp add: sni_relay_def Let_def)

lemma sni_route_gauge [simp]: "sn_gauge (sni_route e cfg s sni d) = sn_gauge s"
  by (simp add: sni_route_def split: option.splits)

text \<open>The statistics that match a list of events.\<close>

fun is_relay :: "sni_event \<Rightarrow> bool" where
  "is_relay (NCall m labels op) = (m = NMetricRelayTotal)"
| "is_relay _ = False"

fun is_counted_error :: "sni_event \<Rightarrow> bool" where
  "is_counted_error (NCall m labels op) = (m = NMetricErrorsTotal \<and> labels \<noteq> [''write_failed''])"
| "is_counted_error _ = False"

fun event_bytes :: "sni_event \<Rightarrow> int" where
  "event_bytes (NCall m labels (MAdd n)) = (if m = NMetricBytesTotal then n else 0)"
| "event_bytes _ = 0"

definition counted :: "StatsTracker \<Rightarrow> sni_event list \<Rightarrow> StatsTracker" where
  "counted st es = st\<lparr>st_totalRelays := i64 (st_totalRelays st + int (length (filter is_relay es))),
     st_totalErrors := i64 (st_totalErrors st + int (length (filter is_counted_error es))),
     st_totalBytes := i64 (st_totalBytes st + sum_list (map event_bytes es))\<rparr>"

definition counters_ok :: "StatsTracker \<Rightarrow> bool" where
  "counters_ok st \<longleftrightarrow> in_i64 (st_totalRelays st) \<and> in_i64 (st_totalErrors st) \<and> in_i64 (st_totalBytes st)"

lemma counters_ok_same:
  assumes "counters_ok st"
  shows "i64 (st_totalRelays st) = st_totalRelays st" "i64 (st_totalErrors st) = st_totalErrors st"
    "i64 (st_totalBytes st) = st_totalBytes st"
  using assms by (simp_all add: counters_ok_def i64_id)

text \<open>What a connection may do: \<open>target\<close> is the only back end, \<open>d\<close> the only data forwarded.\<close>

fun event_ok :: "string option \<Rightarrow> byte list \<Rightarrow> sni_event \<Rightarrow> bool" where
  "event_ok target d (NDial t) = (target = Some t)"
| "event_ok target d (NForward x) = (target \<noteq> None \<and> x = d)"
| "event_ok target d (NCall m labels op) = (m = NMetricRelayTotal \<longrightarrow> target \<noteq> None)"
| "event_ok target d _ = True"

text \<open>\<open>extends\<close>: the events appended by a connection, with the statistics they amount to.\<close>

definition extends :: "string option \<Rightarrow> byte list \<Rightarrow> sni_state \<Rightarrow> sni_state \<Rightarrow> bool" where
  "extends target d s s' \<longleftrightarrow> (\<exists>es. sn_events s' = sn_events s @ es \<and> list_all (event_ok target d) es \<and>
     sn_stats s' = counted (sn_stats s) es \<and> length (filter (\<lambda>x. \<exists>t. x = NDial t) es) \<le> 1)"

lemma sni_relay_extends:
  assumes "counters_ok (sn_stats s)"
  shows "extends (Some target) d s (sni_relay e s sni d target)"
  using counters_ok_same [OF assms] unfolding extends_def sni_relay_def Let_def
  by (auto simp: counted_def RecordError_def RecordRelay_def stats_RecordBytes_def i64_add_right)

definition sni_target :: "sni_env \<Rightarrow> Config \<Rightarrow> string \<Rightarrow> string option" where
  "sni_target e cfg sni = (if sni = [] then None else map_of (cfg_Hosts cfg) (ToLower (ne_uni e) sni))"

lemma sni_route_extends:
  assumes "counters_ok (sn_stats s)"
  shows "extends (sni_target e cfg sni) d s (sni_route e cfg s sni d)"
proof (cases "sni_target e cfg sni")
  case None
  then show ?thesis using counters_ok_same [OF assms]
    by (auto simp: sni_target_def sni_route_def extends_def counted_def RecordError_def split: if_splits option.splits)
next
  case (Some target)
  then show ?thesis using sni_relay_extends [OF assms]
    by (auto simp: sni_target_def sni_route_def split: if_splits)
qed

text \<open>The connections of the accept loop: what the slots and the wait group count.\<close>

definition srv_ok :: "nat \<Rightarrow> srv \<Rightarrow> bool" where
  "srv_ok m s \<longleftrightarrow> sv_max s = m \<and> sv_slots s = sv_holding s \<and> sv_holding s \<le> m \<and>
     sv_wg s = sv_holding s + sv_leaving s \<and> (sv_phase s = ReturnedDrained \<longrightarrow> sv_wg s = 0) \<and>
     (sv_phase s = Draining \<longrightarrow> sv_closed s)"

lemma srv_ok_init: "NewSniServer cfg = Some s \<Longrightarrow> srv_ok (nat (cfg_MaxConns cfg)) s"
  by (auto simp: NewSniServer_def srv_ok_def split: if_splits)

lemma srv_ok_step: "srv_step s s' \<Longrightarrow> srv_ok m s \<Longrightarrow> srv_ok m s'"
  by (erule srv_stepE) (auto simp: srv_ok_def)

lemma srv_ok_reach: "srv_reach s0 s \<Longrightarrow> srv_ok m s0 \<Longrightarrow> srv_ok m s"
  by (induction rule: srv_reach.induct) (auto intro: srv_ok_step)

lemma srv_reach_trans: "srv_reach s1 s2 \<Longrightarrow> srv_reach s0 s1 \<Longrightarrow> srv_reach s0 s2"
  by (induction rule: srv_reach.induct) (auto intro: srv_reach.Step)

text \<open>Once it drains, every handler can finish and the server then returns with all of them done.\<close>

lemma srv_can_drain:
  assumes "srv_ok m s" "sv_phase s = Draining"
  shows "\<exists>s'. srv_reach s s' \<and> sv_phase s' = ReturnedDrained"
  using assms
proof (induction "2 * sv_holding s + sv_leaving s" arbitrary: s rule: less_induct)
  case less
  have on: "\<exists>s'. srv_reach s s' \<and> sv_phase s' = ReturnedDrained"
    if "srv_step s t" "2 * sv_holding t + sv_leaving t < 2 * sv_holding s + sv_leaving s" "sv_phase t = Draining" for t
    using less.hyps [of t] that srv_ok_step [OF that(1) less.prems(1)]
      srv_reach_trans [OF _ srv_reach.Step [OF srv_reach.Init that(1)]] by blast
  consider "0 < sv_holding s" | "0 < sv_leaving s" | "sv_wg s = 0"
    using less.prems(1) by (auto simp: srv_ok_def)
  then show ?case
  proof cases
    case 1
    then show ?thesis using on [OF srv_step.FreeSlot [OF 1]] less.prems(2) by simp
  next
    case 2
    then show ?thesis using on [OF srv_step.Leave [OF 2]] less.prems(2) by simp
  next
    case 3
    then show ?thesis using srv_reach.Step [OF srv_reach.Init srv_step.Drained [OF less.prems(2) 3]] by force
  qed
qed

section \<open>Properties\<close>

definition demo_hello :: client_hello where
  "demo_hello = \<lparr>ch_record = [3, 1, 0, 0], ch_handshake = [0, 0, 0], ch_version_random = replicate 34 0,
     ch_session_id = [], ch_cipher_suites = [0, 47], ch_compression = [0],
     ch_extensions = [(10, [1]), sni_ext (bytes_of_string ''a.b''), (0, [])]\<rparr>"

definition demo_sni_env :: sni_env where
  "demo_sni_env = \<lparr>ne_uni = id, ne_read = Some (enc_hello demo_hello), ne_dial = (\<lambda>_. True), ne_write = (\<lambda>_. True),
     ne_up = [\<lparr>ct_cancelled = False, ct_nr = 5, ct_rerr = True, ct_nw = 5, ct_werr = False\<rparr>], ne_down = [],
     ne_api = \<lparr>ae_request = (\<lambda>_. None), ae_enc_stats = (\<lambda>_. []), ae_enc_history = (\<lambda>_. []), ae_date = [],
       ae_order = (\<lambda>_. []), ae_off = 0, ae_now = 0\<rparr>\<rparr>"

definition demo_file :: ConfigFile where
  "demo_file = \<lparr>cf_Listen = None, cf_CertFile = None, cf_KeyFile = None, cf_TimeoutSec = None, cf_MaxConns = Some 2,
     cf_MetricsListen = None, cf_Hosts = [('' a.B '', ''10.0.0.1:443'')]\<rparr>"

definition demo_sni_state :: sni_state where
  "demo_sni_state = \<lparr>sn_stats = new_stats 0, sn_gauge = \<lparr>gw_count = 0, gw_gauge = 0\<rparr>, sn_events = []\<rparr>"


text \<open>C29: whatever a client sends, a connection is handled without a panic. It dials at most one
  address, the one configured for the lower-cased, non-empty name found in the first bytes, and
  forwards exactly the bytes read; nothing is relayed otherwise. The active connection gauge is
  given back, and the relay, error and byte statistics move by what happened (a failed write to
  the back end is the one error they leave out).\<close>

theorem sni_connection_contract:
  assumes "counters_ok (sn_stats s)" and "in_i64 (gw_count (sn_gauge s))"
  shows "\<exists>r s' es. PeekSNI (ne_read e) = Some r \<and> HandleConnection e cfg s = Some s' \<and> sn_events s' = sn_events s @ es \<and>
    list_all (event_ok (case r of None \<Rightarrow> None | Some (sni, d) \<Rightarrow> sni_target e cfg sni)
                       (case r of None \<Rightarrow> [] | Some (sni, d) \<Rightarrow> d)) es \<and>
    length (filter (\<lambda>x. \<exists>t. x = NDial t) es) \<le> 1 \<and>
    sn_gauge s' = sn_gauge s \<and> sn_stats s' = counted (sn_stats s) es"
proof -
  obtain r where r: "PeekSNI (ne_read e) = Some r"
    using PeekSNI_returns by blast
  let ?up = "NCall NMetricActiveConns [] MInc" and ?down = "NCall NMetricActiveConns [] MDec"
  let ?s = "(nlog [?up] s)\<lparr>sn_gauge := gauge_Inc (sn_gauge s)\<rparr>"
  let ?t = "case r of None \<Rightarrow> count_error ''peek_failed'' ?s | Some (sni, d) \<Rightarrow> sni_route e cfg ?s sni d"
  have "extends (case r of None \<Rightarrow> None | Some (sni, d) \<Rightarrow> sni_target e cfg sni)
      (case r of None \<Rightarrow> [] | Some (sni, d) \<Rightarrow> d) ?s ?t \<and> sn_gauge ?t = sn_gauge ?s"
  proof (cases r)
    case None
    then show ?thesis using counters_ok_same [OF assms(1)]
      by (simp add: extends_def counted_def RecordError_def)
  next
    case (Some p)
    then show ?thesis using sni_route_extends [of ?s e cfg "fst p" "snd p"] assms(1)
      by (simp add: case_prod_beta)
  qed
  then obtain es where "sn_events ?t = sn_events s @ ?up # es" "sn_stats ?t = counted (sn_stats s) es"
    "list_all (event_ok (case r of None \<Rightarrow> None | Some (sni, d) \<Rightarrow> sni_target e cfg sni)
       (case r of None \<Rightarrow> [] | Some (sni, d) \<Rightarrow> d)) es"
    "length (filter (\<lambda>x. \<exists>t. x = NDial t) es) \<le> 1" "sn_gauge ?t = gauge_Inc (sn_gauge s)"
    by (auto simp: extends_def)
  then show ?thesis using r assms(2)
    by (intro exI [of _ r] exI [of _ "nlog [NCloseClient] ((nlog [?down] ?t)\<lparr>sn_gauge := gauge_Dec (sn_gauge ?t)\<rparr>)"]
        exI [of _ "?up # es @ [?down, NCloseClient]"]) (simp add: HandleConnection_def Let_def counted_def)
qed

theorem sni_connection_contract_witness:
  "\<exists>s'. HandleConnection demo_sni_env (Load id (\<lambda>_. []) (Some demo_file)) demo_sni_state = Some s' \<and>
     sn_gauge s' = \<lparr>gw_count = 0, gw_gauge = 0\<rparr>"
  using sni_connection_contract [of demo_sni_state demo_sni_env "Load id (\<lambda>_. []) (Some demo_file)"]
  by (auto simp: demo_sni_state_def counters_ok_def new_stats_def in_i64_def)

text \<open>C30: a client whose ClientHello (in one read) names a host of the configuration file, in any
  spelling the loader's lower-casing identifies, is relayed to that host's back end: the hello is
  forwarded verbatim and the connection counted as a relay.\<close>

theorem sni_routes_configured_host:
  assumes "hello_ok h" and "ch_extensions h = pre @ sni_ext name # post" and "\<forall>x \<in> set pre. fst x \<noteq> 0"
    and "ne_read e = Some (enc_hello h)" and "length (enc_hello h) \<le> 16384" and "name \<noteq> []"
    and "cfg = Load (ne_uni e) getenv (Some cf)"
    and "List.find (\<lambda>(k, v). clean_host (ne_uni e) k = ToLower (ne_uni e) (string_of_bytes name)) (rev (cf_Hosts cf))
      = Some (host, target)"
    and "ne_dial e target" and "ne_write e (enc_hello h)"
  shows "\<exists>s' up down. HandleConnection e cfg s = Some s' \<and>
    sn_events s' = sn_events s @ [NCall NMetricActiveConns [] MInc, NDial target, NForward (enc_hello h), NCall NMetricRelayTotal [string_of_bytes name] MInc, NCall NMetricConnectionDuration [] MObserve,
      NCall NMetricBytesTotal [string_of_bytes name, ''upstream''] (MAdd up), NCall NMetricBytesTotal [string_of_bytes name, ''downstream''] (MAdd down), NCloseUp,
       NCall NMetricActiveConns [] MDec, NCloseClient] \<and>
    st_totalRelays (sn_stats s') = i64 (st_totalRelays (sn_stats s) + 1)"
proof -
  have "extractSNI (enc_hello h) = Some (string_of_bytes name)"
    by (rule extractSNI_enc_hello [OF assms(1-3)])
  then have "PeekSNI (ne_read e) = Some (Some (string_of_bytes name, enc_hello h))"
    using assms(4,5) by (simp add: PeekSNI_def)
  moreover have "map_of (cfg_Hosts cfg) (ToLower (ne_uni e) (string_of_bytes name)) = Some target"
    using assms(7,8) by (simp add: Load_hosts_lookup)
  moreover have "string_of_bytes name \<noteq> []" "enc_hello h \<noteq> []" using assms(6) by (auto simp: string_of_bytes_def enc_hello_def)
  ultimately show ?thesis using assms(9,10)
    by (simp add: HandleConnection_def sni_route_def sni_relay_def Let_def RecordRelay_def stats_RecordBytes_def)
qed

theorem sni_routes_configured_host_witness:
  "\<exists>s' up down. HandleConnection demo_sni_env (Load id (\<lambda>_. []) (Some demo_file)) demo_sni_state = Some s' \<and>
     sn_events s' = [NCall NMetricActiveConns [] MInc, NDial ''10.0.0.1:443'', NForward (enc_hello demo_hello), NCall NMetricRelayTotal [''a.b''] MInc, NCall NMetricConnectionDuration [] MObserve,
       NCall NMetricBytesTotal [''a.b'', ''upstream''] (MAdd up), NCall NMetricBytesTotal [''a.b'', ''downstream''] (MAdd down), NCloseUp,
       NCall NMetricActiveConns [] MDec, NCloseClient] \<and>
     st_totalRelays (sn_stats s') = 1"
proof -
  have ok: "hello_ok demo_hello" by (simp add: hello_ok_def demo_hello_def enc_ext_def sni_ext_def)
  have exts: "ch_extensions demo_hello = [(10, [1])] @ sni_ext (bytes_of_string ''a.b'') # [(0, [])]"
    by (simp add: demo_hello_def)
  have len: "length (enc_hello demo_hello) \<le> 16384"
    by (simp add: enc_hello_def demo_hello_def enc_ext_def sni_ext_def)
  have c: "clean_host id '' a.B '' = ''a.b''" "ToLower id ''a.b'' = ''a.b''" by code_simp+
  have env: "ne_uni demo_sni_env = id" "ne_read demo_sni_env = Some (enc_hello demo_hello)" "\<And>x. ne_dial demo_sni_env x" "\<And>x. ne_write demo_sni_env x"
    by (simp_all add: demo_sni_env_def)
  have found: "List.find (\<lambda>(k, v). clean_host (ne_uni demo_sni_env) k = ToLower (ne_uni demo_sni_env) (string_of_bytes (bytes_of_string ''a.b'')))
      (rev (cf_Hosts demo_file)) = Some ('' a.B '', ''10.0.0.1:443'')"
    by (simp add: env demo_file_def c)
  have ne: "bytes_of_string ''a.b'' \<noteq> []" by (simp add: bytes_of_string_def)
  have "sn_events demo_sni_state = []" "st_totalRelays (sn_stats demo_sni_state) = 0" by (simp_all add: demo_sni_state_def new_stats_def)
  then show ?thesis
    using sni_routes_configured_host [OF ok exts _ env(2) len ne refl found env(3,4), of "\<lambda>_. []" demo_sni_state]
    by (simp add: env)
qed

text \<open>C31: the accept loop never serves more connections than \<^verbatim>\<open>max_conns\<close>: the semaphore holds one
  element per running handler and the wait group one count per handler that has not returned, so
  a return with everything drained leaves none behind; and a draining server can always get there.\<close>

theorem sni_capacity_and_drain:
  assumes "NewSniServer cfg = Some s0" and "srv_reach s0 s"
  shows "sv_slots s = sv_holding s \<and> int (sv_holding s) \<le> cfg_MaxConns cfg \<and> sv_wg s = sv_holding s + sv_leaving s \<and>
    (sv_phase s = ReturnedDrained \<longrightarrow> sv_holding s = 0 \<and> sv_leaving s = 0) \<and>
    (sv_phase s = Draining \<longrightarrow> sv_closed s \<and> (\<exists>s'. srv_reach s s' \<and> sv_phase s' = ReturnedDrained))"
proof -
  have ok: "srv_ok (nat (cfg_MaxConns cfg)) s" using assms srv_ok_init srv_ok_reach by blast
  then have "int (sv_holding s) \<le> cfg_MaxConns cfg"
    using assms(1) by (auto simp: srv_ok_def NewSniServer_def split: if_splits)
  then show ?thesis using ok srv_can_drain [OF ok] by (auto simp: srv_ok_def)
qed

theorem sni_capacity_and_drain_witness:
  "\<exists>s0 s. NewSniServer (Load id (\<lambda>_. []) (Some demo_file)) = Some s0 \<and> srv_reach s0 s \<and> sv_phase s = Draining \<and>
     sv_holding s = 1 \<and> (\<exists>s'. srv_reach s s' \<and> sv_phase s' = ReturnedDrained)"
proof -
  let ?cfg = "Load id (\<lambda>_. []) (Some demo_file)"
  have "cfg_MaxConns ?cfg = 2" by (simp add: Load_def Let_def demo_file_def decode_config_def or_else_def)
  then obtain s0 where s0: "NewSniServer ?cfg = Some s0" "sv_max s0 = 2" "sv_slots s0 = 0" "sv_phase s0 = Accepting"
    "\<not> sv_closed s0" "sv_holding s0 = 0" "sv_wg s0 = 0" "sv_leaving s0 = 0"
    by (simp add: NewSniServer_def)
  let ?s1 = "s0\<lparr>sv_slots := sv_slots s0 + 1, sv_wg := sv_wg s0 + 1, sv_holding := sv_holding s0 + 1\<rparr>"
  let ?s2 = "?s1\<lparr>sv_closed := True\<rparr>"
  let ?s3 = "?s2\<lparr>sv_phase := Draining\<rparr>"
  have "srv_step s0 ?s1" using s0 by (intro srv_step.Admit) simp_all
  moreover have "srv_step ?s1 ?s2" using s0 by (intro srv_step.WatchShutdown) simp
  moreover have "srv_step ?s2 ?s3" using s0 by (intro srv_step.BeginDrain) simp_all
  ultimately have r: "srv_reach s0 ?s3" by (meson srv_reach.intros)
  then show ?thesis using sni_capacity_and_drain [OF s0(1) r] s0
    by (intro exI [of _ s0] exI [of _ ?s3]) simp
qed

end
