(* ===== verification/Metrics.thy ===== *)
theory Metrics
  imports Http_Proxy Socks5 Sni_Server
begin

text \<open>
  The Prometheus metrics of the three servers (\<^verbatim>\<open>httpproxy/metrics.go\<close>, \<^verbatim>\<open>socks5/metrics.go\<close> and \<^verbatim>\<open>proxy/metrics.go\<close>) and the
  metrics server. The models of the servers log every call they make on a metric, with its label values and
  its operation; here are the declarations, and the proof that the calls agree with them. The library
  refuses (by a panic) a metric declared twice, a call with another number of label values than the metric
  has labels, and a counter that is to go down; every new combination of label values is a time series
  the process keeps for good.
\<close>

section \<open>Declarations\<close>

definition http_MetricRequests :: metric_desc where
  "http_MetricRequests = \<lparr>md_Name = ''httpproxy_requests_total'', md_Help = ''Total HTTP proxy requests by user and method'', md_kind = Counter,
     md_labels = [''user'', ''method''], md_Buckets = []\<rparr>"

definition http_MetricBytes :: metric_desc where
  "http_MetricBytes = \<lparr>md_Name = ''httpproxy_bytes_total'', md_Help = ''Total bytes transferred by user and direction'', md_kind = Counter,
     md_labels = [''user'', ''direction''], md_Buckets = []\<rparr>"

definition http_MetricActiveConns :: metric_desc where
  "http_MetricActiveConns = \<lparr>md_Name = ''httpproxy_active_connections'', md_Help = ''Current active HTTP proxy connections'', md_kind = Gauge,
     md_labels = [], md_Buckets = []\<rparr>"

definition http_MetricAuthFailures :: metric_desc where
  "http_MetricAuthFailures = \<lparr>md_Name = ''httpproxy_auth_failures_total'', md_Help = ''Total authentication failures by type'', md_kind = Counter,
     md_labels = [''type''], md_Buckets = []\<rparr>"

definition http_MetricRateLimited :: metric_desc where
  "http_MetricRateLimited = \<lparr>md_Name = ''httpproxy_rate_limited_total'', md_Help = ''Total rate limited requests by user'', md_kind = Counter,
     md_labels = [''user''], md_Buckets = []\<rparr>"

definition http_MetricErrors :: metric_desc where
  "http_MetricErrors = \<lparr>md_Name = ''httpproxy_errors_total'', md_Help = ''Total proxy errors by type'', md_kind = Counter,
     md_labels = [''type''], md_Buckets = []\<rparr>"

definition http_MetricDuration :: metric_desc where
  "http_MetricDuration = \<lparr>md_Name = ''httpproxy_request_duration_seconds'', md_Help = ''HTTP proxy request duration in seconds'', md_kind = Histogram,
     md_labels = [], md_Buckets = [1 / 10, 1 / 2, 1, 5, 10, 30, 60, 120, 300]\<rparr>"

definition socks_MetricConnections :: metric_desc where
  "socks_MetricConnections = \<lparr>md_Name = ''socks5_connections_total'', md_Help = ''Total SOCKS5 connections by user'', md_kind = Counter,
     md_labels = [''user''], md_Buckets = []\<rparr>"

definition socks_MetricBytes :: metric_desc where
  "socks_MetricBytes = \<lparr>md_Name = ''socks5_bytes_total'', md_Help = ''Total bytes transferred by user and direction'', md_kind = Counter,
     md_labels = [''user'', ''direction''], md_Buckets = []\<rparr>"

definition socks_MetricActiveConns :: metric_desc where
  "socks_MetricActiveConns = \<lparr>md_Name = ''socks5_active_connections'', md_Help = ''Current active SOCKS5 connections'', md_kind = Gauge,
     md_labels = [], md_Buckets = []\<rparr>"

definition socks_MetricAuthFailures :: metric_desc where
  "socks_MetricAuthFailures = \<lparr>md_Name = ''socks5_auth_failures_total'', md_Help = ''Total SOCKS5 authentication failures by type'', md_kind = Counter,
     md_labels = [''type''], md_Buckets = []\<rparr>"

definition socks_MetricRateLimited :: metric_desc where
  "socks_MetricRateLimited = \<lparr>md_Name = ''socks5_rate_limited_total'', md_Help = ''Total SOCKS5 rate limited requests by user'', md_kind = Counter,
     md_labels = [''user''], md_Buckets = []\<rparr>"

definition socks_MetricErrors :: metric_desc where
  "socks_MetricErrors = \<lparr>md_Name = ''socks5_errors_total'', md_Help = ''Total SOCKS5 errors by type'', md_kind = Counter,
     md_labels = [''type''], md_Buckets = []\<rparr>"

definition socks_MetricDuration :: metric_desc where
  "socks_MetricDuration = \<lparr>md_Name = ''socks5_connection_duration_seconds'', md_Help = ''SOCKS5 connection duration in seconds'', md_kind = Histogram,
     md_labels = [], md_Buckets = [1, 5, 10, 30, 60, 120, 300, 600]\<rparr>"

definition sni_MetricRelayTotal :: metric_desc where
  "sni_MetricRelayTotal = \<lparr>md_Name = ''multiproxy_relay_total'', md_Help = ''Total relayed connections by SNI'', md_kind = Counter,
     md_labels = [''sni''], md_Buckets = []\<rparr>"

definition sni_MetricActiveConns :: metric_desc where
  "sni_MetricActiveConns = \<lparr>md_Name = ''multiproxy_active_conns'', md_Help = ''Current active connections'', md_kind = Gauge,
     md_labels = [], md_Buckets = []\<rparr>"

definition sni_MetricBytesTotal :: metric_desc where
  "sni_MetricBytesTotal = \<lparr>md_Name = ''multiproxy_bytes_total'', md_Help = ''Total bytes transferred'', md_kind = Counter,
     md_labels = [''sni'', ''direction''], md_Buckets = []\<rparr>"

definition sni_MetricErrorsTotal :: metric_desc where
  "sni_MetricErrorsTotal = \<lparr>md_Name = ''multiproxy_errors_total'', md_Help = ''Total errors by type'', md_kind = Counter,
     md_labels = [''type''], md_Buckets = []\<rparr>"

definition sni_MetricConnectionDuration :: metric_desc where
  "sni_MetricConnectionDuration = \<lparr>md_Name = ''multiproxy_connection_duration_seconds'', md_Help = ''Connection duration in seconds'', md_kind = Histogram,
     md_labels = [], md_Buckets = [1, 5, 15, 30, 60, 120, 300, 600]\<rparr>"

definition sni_MetricConnectionsRejected :: metric_desc where
  "sni_MetricConnectionsRejected = \<lparr>md_Name = ''multiproxy_connections_rejected_total'', md_Help = ''Total connections rejected due to capacity'', md_kind = Counter,
     md_labels = [], md_Buckets = []\<rparr>"

definition program_metrics :: "metric_desc list" where
  "program_metrics =
     [http_MetricRequests, http_MetricBytes, http_MetricActiveConns, http_MetricAuthFailures, http_MetricRateLimited, http_MetricErrors, http_MetricDuration,
      socks_MetricConnections, socks_MetricBytes, socks_MetricActiveConns, socks_MetricAuthFailures, socks_MetricRateLimited, socks_MetricErrors, socks_MetricDuration,
      sni_MetricRelayTotal, sni_MetricActiveConns, sni_MetricBytesTotal, sni_MetricErrorsTotal, sni_MetricConnectionDuration, sni_MetricConnectionsRejected]"

lemmas metric_defs = http_MetricRequests_def http_MetricBytes_def http_MetricActiveConns_def http_MetricAuthFailures_def http_MetricRateLimited_def http_MetricErrors_def http_MetricDuration_def
  socks_MetricConnections_def socks_MetricBytes_def socks_MetricActiveConns_def socks_MetricAuthFailures_def socks_MetricRateLimited_def socks_MetricErrors_def socks_MetricDuration_def
  sni_MetricRelayTotal_def sni_MetricActiveConns_def sni_MetricBytesTotal_def sni_MetricErrorsTotal_def sni_MetricConnectionDuration_def sni_MetricConnectionsRejected_def

text \<open>The declaration behind each variable of the three packages.\<close>

fun http_declared :: "http_metric \<Rightarrow> metric_desc" where
  "http_declared HMetricRequests = http_MetricRequests"
| "http_declared HMetricBytes = http_MetricBytes"
| "http_declared HMetricActiveConns = http_MetricActiveConns"
| "http_declared HMetricAuthFailures = http_MetricAuthFailures"
| "http_declared HMetricRateLimited = http_MetricRateLimited"
| "http_declared HMetricErrors = http_MetricErrors"
| "http_declared HMetricDuration = http_MetricDuration"

fun socks_declared :: "socks_metric \<Rightarrow> metric_desc" where
  "socks_declared SMetricConnections = socks_MetricConnections"
| "socks_declared SMetricBytes = socks_MetricBytes"
| "socks_declared SMetricActiveConns = socks_MetricActiveConns"
| "socks_declared SMetricAuthFailures = socks_MetricAuthFailures"
| "socks_declared SMetricRateLimited = socks_MetricRateLimited"
| "socks_declared SMetricErrors = socks_MetricErrors"
| "socks_declared SMetricDuration = socks_MetricDuration"

fun sni_declared :: "sni_metric \<Rightarrow> metric_desc" where
  "sni_declared NMetricRelayTotal = sni_MetricRelayTotal"
| "sni_declared NMetricActiveConns = sni_MetricActiveConns"
| "sni_declared NMetricBytesTotal = sni_MetricBytesTotal"
| "sni_declared NMetricErrorsTotal = sni_MetricErrorsTotal"
| "sni_declared NMetricConnectionDuration = sni_MetricConnectionDuration"
| "sni_declared NMetricConnectionsRejected = sni_MetricConnectionsRejected"

text \<open>The gauge of open connections after \<^verbatim>\<open>init\<close> has wrapped it.\<close>

definition active_conns_init :: gaugeWrapper where
  "active_conns_init = \<lparr>gw_count = 0, gw_gauge = 0\<rparr>"

section \<open>The metrics server\<close>

datatype metrics_phase = NotStarted | Serving | ListenError | ShutDown

record MetricsServer =
  ms_Addr :: string
  ms_usageHandler :: bool
  ms_phase :: metrics_phase

definition NewMetricsServer :: "string \<Rightarrow> bool \<Rightarrow> MetricsServer" where
  "NewMetricsServer addr usageHandler = \<lparr>ms_Addr = addr, ms_usageHandler = usageHandler, ms_phase = NotStarted\<rparr>"

text \<open>
  \<^verbatim>\<open>Start\<close> runs \<^verbatim>\<open>ListenAndServe\<close> in the background: an error is logged and goes no further; after a shutdown
  the server is not served again, and \<^verbatim>\<open>ErrServerClosed\<close> is not logged. \<open>listens\<close> is whether the address is free.
\<close>

definition metrics_Start :: "bool \<Rightarrow> MetricsServer \<Rightarrow> MetricsServer \<times> string list" where
  "metrics_Start listens m =
     (if ms_phase m = ShutDown then (m, [])
      else if listens then (m\<lparr>ms_phase := Serving\<rparr>, [])
      else (m\<lparr>ms_phase := ListenError\<rparr>, [''Metrics server error: '']))"

definition metrics_Shutdown :: "MetricsServer \<Rightarrow> MetricsServer" where
  "metrics_Shutdown m = m\<lparr>ms_phase := ShutDown\<rparr>"

text \<open>The handler that answers a path, while the server serves.\<close>

definition metrics_answers :: "MetricsServer \<Rightarrow> string \<Rightarrow> route option" where
  "metrics_answers m path = (if ms_phase m = Serving then Some (metrics_route (ms_usageHandler m) path) else None)"

lemma metrics_lifecycle:
  "ms_phase (fst (metrics_Start True (NewMetricsServer addr u))) = Serving"
  "metrics_answers (metrics_Shutdown m) path = None"
  "fst (metrics_Start l (metrics_Shutdown m)) = metrics_Shutdown m" "snd (metrics_Start l (metrics_Shutdown m)) = []"
  by (simp_all add: metrics_Start_def NewMetricsServer_def metrics_Shutdown_def metrics_answers_def)

lemma usage_route: "metrics_answers m ''/api/usage'' = Some UsageRoute \<longleftrightarrow> ms_phase m = Serving \<and> ms_usageHandler m"
  by (simp add: metrics_answers_def metrics_route_def)

section \<open>Well-formed declarations\<close>

definition name_start :: "char \<Rightarrow> bool" where
  "name_start c \<longleftrightarrow> c = CHR ''_'' \<or> c = CHR '':'' \<or> 97 \<le> (of_char c :: nat) \<and> of_char c \<le> (122 :: nat) \<or> 65 \<le> (of_char c :: nat) \<and> of_char c \<le> (90 :: nat)"

definition metric_name_ok :: "string \<Rightarrow> bool" where
  "metric_name_ok n \<longleftrightarrow> n \<noteq> [] \<and> name_start (hd n) \<and> list_all (\<lambda>c. name_start c \<or> is_digit c) n"

definition desc_ok :: "metric_desc \<Rightarrow> bool" where
  "desc_ok m \<longleftrightarrow> metric_name_ok (md_Name m) \<and> list_all metric_name_ok (md_labels m) \<and> distinct (md_labels m) \<and>
     sorted_wrt (<) (md_Buckets m) \<and> (md_kind m = Histogram \<longleftrightarrow> md_Buckets m \<noteq> [])"

definition registry_ok :: "metric_desc list \<Rightarrow> bool" where
  "registry_ok ms \<longleftrightarrow> distinct (map md_Name ms) \<and> list_all desc_ok ms"

lemma program_metrics_registry: "registry_ok program_metrics"
  by code_simp

section \<open>Calls\<close>

text \<open>
  A call is accepted when the operation fits the kind of the metric and there is one value for each
  label; \<open>lbl l v\<close> says that \<open>v\<close> is among the values expected for the label \<open>l\<close>.
\<close>

definition call_ok :: "(string \<Rightarrow> string \<Rightarrow> bool) \<Rightarrow> metric_desc \<Rightarrow> string list \<Rightarrow> metric_op \<Rightarrow> bool" where
  "call_ok lbl m vs op \<longleftrightarrow> m \<in> set program_metrics \<and> op_fits (md_kind m) op \<and> list_all2 lbl (md_labels m) vs"

fun http_event_ok :: "(string \<Rightarrow> string \<Rightarrow> bool) \<Rightarrow> http_event \<Rightarrow> bool" where
  "http_event_ok lbl (HCall m vs op) = call_ok lbl (http_declared m) vs op"
| "http_event_ok lbl _ = True"

fun socks_event_ok :: "(string \<Rightarrow> string \<Rightarrow> bool) \<Rightarrow> socks_event \<Rightarrow> bool" where
  "socks_event_ok lbl (SCall m vs op) = call_ok lbl (socks_declared m) vs op"
| "socks_event_ok lbl _ = True"

fun sni_event_ok :: "(string \<Rightarrow> string \<Rightarrow> bool) \<Rightarrow> sni_event \<Rightarrow> bool" where
  "sni_event_ok lbl (NCall m vs op) = call_ok lbl (sni_declared m) vs op"
| "sni_event_ok lbl _ = True"

abbreviation http_typed :: "(string \<Rightarrow> string \<Rightarrow> bool) \<Rightarrow> http_event list \<Rightarrow> bool" where
  "http_typed lbl evs \<equiv> list_all (http_event_ok lbl) evs"

abbreviation socks_typed :: "(string \<Rightarrow> string \<Rightarrow> bool) \<Rightarrow> socks_event list \<Rightarrow> bool" where
  "socks_typed lbl evs \<equiv> list_all (socks_event_ok lbl) evs"

abbreviation sni_typed :: "(string \<Rightarrow> string \<Rightarrow> bool) \<Rightarrow> sni_event list \<Rightarrow> bool" where
  "sni_typed lbl evs \<equiv> list_all (sni_event_ok lbl) evs"

section \<open>Label values\<close>

text \<open>The fixed values of the labels \<^verbatim>\<open>type\<close> and \<^verbatim>\<open>direction\<close>.\<close>

definition failure_types :: "string set" where
  "failure_types = {''ip_blocked'', ''no_credentials'', ''no_auth_method'', ''invalid_credentials'', ''dial_failed'', ''hijack_failed'',
     ''request_failed'', ''peek_failed'', ''unauthorized_sni'', ''write_failed''}"

definition fixed_label :: "string \<Rightarrow> string \<Rightarrow> bool" where
  "fixed_label l v \<longleftrightarrow> l = ''type'' \<and> v \<in> failure_types \<or> l = ''direction'' \<and> v \<in> {''upstream'', ''downstream''}"

text \<open>A name that belongs to a user of the store: it finds the user, or the users file has it.\<close>

definition known_name :: "deps \<Rightarrow> UserStore \<Rightarrow> string \<Rightarrow> bool" where
  "known_name d st v \<longleftrightarrow> GetUser d st v \<noteq> None \<or> (\<exists>user \<in> ran (us_users st). Username user = v)"

definition http_label :: "deps \<Rightarrow> UserStore \<Rightarrow> string \<Rightarrow> string \<Rightarrow> string \<Rightarrow> bool" where
  "http_label d st meth l v \<longleftrightarrow> fixed_label l v \<or> l = ''user'' \<and> known_name d st v \<or> l = ''method'' \<and> v = meth"

definition socks_label :: "deps \<Rightarrow> UserStore \<Rightarrow> string \<Rightarrow> string \<Rightarrow> bool" where
  "socks_label d st l v \<longleftrightarrow> fixed_label l v \<or> l = ''user'' \<and> known_name d st v"

definition sni_label :: "(string \<Rightarrow> string) \<Rightarrow> Config \<Rightarrow> string \<Rightarrow> string \<Rightarrow> bool" where
  "sni_label uni cfg l v \<longleftrightarrow> fixed_label l v \<or> l = ''sni'' \<and> v \<noteq> [] \<and> ToLower uni v \<in> fst ` set (cfg_Hosts cfg)"

lemma http_shapes [simp]:
  "md_kind (http_declared HMetricRequests) = Counter" "md_labels (http_declared HMetricRequests) = [''user'', ''method'']"
  "md_kind (http_declared HMetricBytes) = Counter" "md_labels (http_declared HMetricBytes) = [''user'', ''direction'']"
  "md_kind (http_declared HMetricActiveConns) = Gauge" "md_labels (http_declared HMetricActiveConns) = []"
  "md_kind (http_declared HMetricAuthFailures) = Counter" "md_labels (http_declared HMetricAuthFailures) = [''type'']"
  "md_kind (http_declared HMetricRateLimited) = Counter" "md_labels (http_declared HMetricRateLimited) = [''user'']"
  "md_kind (http_declared HMetricErrors) = Counter" "md_labels (http_declared HMetricErrors) = [''type'']"
  "md_kind (http_declared HMetricDuration) = Histogram" "md_labels (http_declared HMetricDuration) = []"
  by (simp_all add: metric_defs)

lemma socks_shapes [simp]:
  "md_kind (socks_declared SMetricConnections) = Counter" "md_labels (socks_declared SMetricConnections) = [''user'']"
  "md_kind (socks_declared SMetricBytes) = Counter" "md_labels (socks_declared SMetricBytes) = [''user'', ''direction'']"
  "md_kind (socks_declared SMetricActiveConns) = Gauge" "md_labels (socks_declared SMetricActiveConns) = []"
  "md_kind (socks_declared SMetricAuthFailures) = Counter" "md_labels (socks_declared SMetricAuthFailures) = [''type'']"
  "md_kind (socks_declared SMetricRateLimited) = Counter" "md_labels (socks_declared SMetricRateLimited) = [''user'']"
  "md_kind (socks_declared SMetricErrors) = Counter" "md_labels (socks_declared SMetricErrors) = [''type'']"
  "md_kind (socks_declared SMetricDuration) = Histogram" "md_labels (socks_declared SMetricDuration) = []"
  by (simp_all add: metric_defs)

lemma sni_shapes [simp]:
  "md_kind (sni_declared NMetricRelayTotal) = Counter" "md_labels (sni_declared NMetricRelayTotal) = [''sni'']"
  "md_kind (sni_declared NMetricActiveConns) = Gauge" "md_labels (sni_declared NMetricActiveConns) = []"
  "md_kind (sni_declared NMetricBytesTotal) = Counter" "md_labels (sni_declared NMetricBytesTotal) = [''sni'', ''direction'']"
  "md_kind (sni_declared NMetricErrorsTotal) = Counter" "md_labels (sni_declared NMetricErrorsTotal) = [''type'']"
  "md_kind (sni_declared NMetricConnectionDuration) = Histogram" "md_labels (sni_declared NMetricConnectionDuration) = []"
  "md_kind (sni_declared NMetricConnectionsRejected) = Counter" "md_labels (sni_declared NMetricConnectionsRejected) = []"
  by (simp_all add: metric_defs)

declare http_declared.simps [simp del] socks_declared.simps [simp del] sni_declared.simps [simp del]

lemma http_known: "http_declared m \<in> set program_metrics"
  by (cases m) (simp_all add: program_metrics_def http_declared.simps)

lemma socks_known: "socks_declared m \<in> set program_metrics"
  by (cases m) (simp_all add: program_metrics_def socks_declared.simps)

lemma sni_known: "sni_declared m \<in> set program_metrics"
  by (cases m) (simp_all add: program_metrics_def sni_declared.simps)

lemma http_calls [simp]:
  "call_ok lbl (http_declared h) vs op \<longleftrightarrow> op_fits (md_kind (http_declared h)) op \<and> list_all2 lbl (md_labels (http_declared h)) vs"
  by (simp add: call_ok_def http_known)

lemma socks_calls [simp]:
  "call_ok lbl (socks_declared h) vs op \<longleftrightarrow> op_fits (md_kind (socks_declared h)) op \<and> list_all2 lbl (md_labels (socks_declared h)) vs"
  by (simp add: call_ok_def socks_known)

lemma sni_calls [simp]:
  "call_ok lbl (sni_declared h) vs op \<longleftrightarrow> op_fits (md_kind (sni_declared h)) op \<and> list_all2 lbl (md_labels (sni_declared h)) vs"
  by (simp add: call_ok_def sni_known)

lemma fixed_labels [simp]:
  "fixed_label ''type'' v = (v \<in> failure_types)" "fixed_label ''direction'' v = (v = ''upstream'' \<or> v = ''downstream'')"
  "\<not> fixed_label ''user'' v" "\<not> fixed_label ''method'' v" "\<not> fixed_label ''sni'' v"
  by (simp_all add: fixed_label_def)

section \<open>The calls of the servers\<close>

lemma known_validated:
  assumes "store_inv d st" "fst (ValidateCredentials d st n p t t') = Some user"
  shows "known_name d st n" "known_name d st (Username user)"
  using validated_user(1) [OF assms] by (auto simp: known_name_def GetUser_def ran_def)

lemma http_quota_calls:
  assumes "http_typed lbl (hp_events s)" "lbl ''user'' n"
  shows "http_typed lbl (hp_events (snd (http_quota e s n user)))"
  using assms by (simp add: http_quota_def Let_def case_prod_beta)

lemma serve_admitted_calls:
  assumes "http_typed (http_label d st (rq_Method r)) (hp_events s)" "known_name d st (Username user)"
    and "0 \<le> fst (he_relay e)" "0 \<le> snd (he_relay e)"
  shows "http_typed (http_label d st (rq_Method r)) (hp_events (snd (serve_admitted e s w r user)))"
  using assms by (cases "rq_Method r = ''CONNECT''")
    (simp_all add: serve_admitted_def handleConnect_def handleHTTP_def Let_def case_prod_beta http_label_def failure_types_def
      split: option.splits)

lemma http_calls_ok:
  assumes "store_inv (he_deps e) (hp_store s)" "hp_events s = []" "0 \<le> fst (he_relay e)" "0 \<le> snd (he_relay e)"
  shows "http_typed (http_label (he_deps e) (hp_store s) (rq_Method r)) (hp_events (snd (handleRequest e s new_response r)))"
proof (cases "for_pac s r")
  case True
  then have "hp_events (snd (handleRequest e s new_response r)) = []"
    using assms(2) by (auto simp: for_pac_def handleRequest_def case_prod_beta Let_def)
  then show ?thesis by simp
next
  case False
  let ?l = "http_label (he_deps e) (hp_store s) (rq_Method r)"
  have h: "handleRequest e s new_response r = handle_proxied e s new_response r" by (rule handleRequest_not_pac [OF False])
  show ?thesis
  proof (cases rule: handle_proxied_cases [of s r e])
    case (valid n p user s1)
    note known = known_validated [OF assms(1) valid(3)]
    define q where "q = (if exempt (hp_store s1) (rq_RemoteAddr r) user then (None, s1) else http_quota e s1 n user)"
    have "http_typed ?l (hp_events s1)" using assms(2) by (simp add: valid(4))
    then have q: "http_typed ?l (hp_events (snd q))"
      using http_quota_calls [of ?l s1 n e user] known(1) by (simp add: q_def http_label_def)
    have "hp_events (snd (handleRequest e s new_response r)) =
        hp_events (case fst q of Some _ \<Rightarrow> snd q | None \<Rightarrow> snd (serve_admitted e (snd q) new_response r user))"
      unfolding h valid(5) q_def by (simp add: case_prod_beta split: option.splits)
    then show ?thesis using q serve_admitted_calls [OF q known(2) assms(3,4)] by (simp split: option.splits)
  qed (simp_all add: h assms(2) http_label_def failure_types_def)
qed

text \<open>The SOCKS5 server. The failures of the negotiation are logged before a name is known.\<close>

definition socks_calls_ok :: "(string \<Rightarrow> string \<Rightarrow> bool) \<Rightarrow> socks \<Rightarrow> bool" where
  "socks_calls_ok lbl s \<longleftrightarrow> socks_typed lbl (sk_events s)"

lemma socks_calls_steps [simp]:
  "socks_calls_ok lbl (s\<lparr>sk_in := x\<rparr>) = socks_calls_ok lbl s" "socks_calls_ok lbl (s\<lparr>sk_store := st\<rparr>) = socks_calls_ok lbl s"
  "socks_calls_ok lbl (send bs s) = socks_calls_ok lbl s" "socks_calls_ok lbl (sendReply a b s) = socks_calls_ok lbl s"
  "socks_calls_ok lbl (s_on_tracker f s) = socks_calls_ok lbl s" "socks_calls_ok lbl (snd (s_ask_tracker g s)) = socks_calls_ok lbl s"
  "socks_calls_ok lbl (slog es s) \<longleftrightarrow> socks_calls_ok lbl s \<and> socks_typed lbl es"
  by (simp_all add: socks_calls_ok_def)

lemma authenticateUser_calls:
  assumes "socks_calls_ok lbl s" "lbl ''type'' ''invalid_credentials''"
  shows "socks_calls_ok lbl (snd (authenticateUser e s))"
  unfolding authenticateUser_def using assms
  by - (rule read_full_keeps, assumption, simp, rename_tac b1 s1, case_tac "b1 ! 0 \<noteq> UserPassVersion",
      simp, simp only: if_False, (rule read_full_keeps, assumption, simp)+, simp add: Let_def case_prod_beta)

lemma negotiation_calls:
  assumes "socks_calls_ok lbl s" "lbl ''type'' ''invalid_credentials''" "lbl ''type'' ''no_auth_method''"
  shows "socks_calls_ok lbl (snd (handleMethodNegotiation e s))"
  unfolding handleMethodNegotiation_def using assms
  by - (rule read_full_keeps, assumption, simp, rename_tac b1 s1, case_tac "b1 ! 0 \<noteq> Version5",
      simp, simp only: if_False, rule read_full_keeps, assumption, simp, simp add: authenticateUser_calls)

lemma socks_serve_calls:
  assumes "socks_calls_ok (socks_label d st) s" "known_name d st u" "0 \<le> ro_up (se_relay e)" "0 \<le> ro_down (se_relay e)"
  shows "socks_calls_ok (socks_label d st) (socks_serve e s u)"
proof -
  obtain x s1 where h: "socks_handleRequest s = (x, s1)" by fastforce
  have "socks_calls_ok (socks_label d st) (snd (socks_handleRequest s))"
    by (rule socks_handleRequest_keeps) (use assms(1) in simp_all)
  then show ?thesis using assms(2-4)
    by (cases x) (simp_all add: socks_serve_def h Let_def case_prod_beta relay_counts_def socks_label_def failure_types_def split: option.splits)
qed

lemma socks_quota_calls:
  assumes "socks_calls_ok lbl s" "lbl ''user'' n"
  shows "socks_calls_ok lbl (snd (socks_quota e s n user))"
  using assms by (simp add: socks_quota_def Let_def case_prod_beta split: option.splits)

lemma socks_calls_all:
  assumes "store_inv (se_deps e) (sk_store s)" "sk_events s = []" "0 \<le> ro_up (se_relay e)" "0 \<le> ro_down (se_relay e)"
  shows "socks_typed (socks_label (se_deps e) (sk_store s)) (sk_events (handleConnection e s))"
proof -
  let ?l = "socks_label (se_deps e) (sk_store s)"
  define s0 where "s0 = slog [SCall SMetricActiveConns [] MInc] s"
  have types: "?l ''type'' ''invalid_credentials''" "?l ''type'' ''no_auth_method''" by (simp_all add: socks_label_def failure_types_def)
  have start: "socks_calls_ok ?l s0" using assms(2) by (simp add: s0_def) (simp add: socks_calls_ok_def)
  obtain x s1 where neg: "handleMethodNegotiation e s0 = (x, s1)" by fastforce
  have s1: "socks_calls_ok ?l s1" using negotiation_calls [OF start types, of e] by (simp add: neg)
  have "socks_calls_ok ?l (socks_session e s0)"
  proof (cases x)
    case (Inl err)
    then show ?thesis using s1 by (simp add: socks_session_Inl neg)
  next
    case (Inr n)
    from neg [unfolded Inr] obtain ms un pw rest where n: "sk_in s0 = client_greeting ms @ client_auth un pw @ rest"
      "MethodUserPass \<in> set ms" "n = string_of_bytes un"
      "fst (ValidateCredentials (se_deps e) (sk_store s0) n (string_of_bytes pw) (se_clk e 1) (se_clk e 2)) \<noteq> None"
      "s1 = s0\<lparr>sk_in := rest, sk_store := snd (ValidateCredentials (se_deps e) (sk_store s0) n (string_of_bytes pw) (se_clk e 1) (se_clk e 2)),
         sk_events := sk_events s0 @ [Sent [Version5, MethodUserPass], Sent [UserPassVersion, 0]]\<rparr>"
      by (rule negotiation_Inr)
    then obtain user where v: "fst (ValidateCredentials (se_deps e) (sk_store s) n (string_of_bytes pw) (se_clk e 1) (se_clk e 2)) = Some user"
      by (auto simp: s0_def)
    have known: "known_name (se_deps e) (sk_store s) n" by (rule known_validated(1) [OF assms(1) v])
    have gu: "GetUser (se_deps e) (sk_store s1) n = Some user"
      using validated_user(1) [OF assms(1) v] by (simp add: n(5) s0_def)
    define q where "q = (if exempt (sk_store s1) (se_remote e) user then (True, s1) else socks_quota e s1 n (Some user))"
    have q: "socks_calls_ok ?l (snd q)"
      using s1 known socks_quota_calls [OF s1, of n e "Some user"] by (simp add: q_def socks_label_def)
    show ?thesis
      using q socks_serve_calls [OF _ known assms(3,4)] socks_session_Inr [OF neg [unfolded Inr] gu]
      by (simp add: q_def [symmetric] case_prod_beta)
  qed
  moreover have "socks_typed ?l [SCall SMetricAuthFailures [''ip_blocked''] MInc]" by (simp add: socks_label_def failure_types_def)
  ultimately show ?thesis using assms(2) by (simp add: handleConnection_def s0_def) (simp add: socks_calls_ok_def)
qed

lemma sni_calls_all:
  assumes "HandleConnection e cfg s = Some s'" "sn_events s = []" "0 \<le> fst (copyData (ne_up e) 0)" "0 \<le> fst (copyData (ne_down e) 0)"
  shows "sni_typed (sni_label (ne_uni e) cfg) (sn_events s')"
proof -
  have relay: "sni_typed (sni_label (ne_uni e) cfg) (sn_events (sni_relay e t sni d target))"
    if "sni_typed (sni_label (ne_uni e) cfg) (sn_events t)" "sni \<noteq> []" "map_of (cfg_Hosts cfg) (ToLower (ne_uni e) sni) = Some target"
    for t sni d target
    using that assms(3,4) by (auto simp: sni_relay_def Let_def sni_label_def failure_types_def dest!: map_of_SomeD intro: rev_image_eqI)
  have route: "sni_typed (sni_label (ne_uni e) cfg) (sn_events (sni_route e cfg t sni d))"
    if "sni_typed (sni_label (ne_uni e) cfg) (sn_events t)" for t sni d
    using that relay [OF that] by (auto simp: sni_route_def sni_label_def failure_types_def split: option.splits)
  show ?thesis using assms(1,2) route
    by (auto simp: HandleConnection_def Let_def sni_label_def failure_types_def split: option.splits Option.bind_splits)
qed

text \<open>The accept loop of the SNI server counts the connections it has no slot for.\<close>

lemma srv_calls_all: "srv_reach s0 s \<Longrightarrow> sv_events s0 = [] \<Longrightarrow> sni_typed lbl (sv_events s)"
proof (induction rule: srv_reach.induct)
  case (Step s s')
  then have "sni_typed lbl (sv_events s)" by simp
  with Step.hyps(2) show ?case by (cases rule: srv_step.cases) simp_all
qed simp

section \<open>Properties\<close>

definition demo_sni_conf :: "int \<Rightarrow> Config" where
  "demo_sni_conf n = (Load id (\<lambda>_. []) (Some demo_file))\<lparr>cfg_MaxConns := n\<rparr>"



end
