(* ===== verification/Ui_Text.thy ===== *)
theory Ui_Text
  imports Go_Text Go_Float
begin

text \<open>
  Text layout of \<^verbatim>\<open>internal/ui\<close>: \<^verbatim>\<open>ansi.go\<close> (widths without escape sequences, padding, truncation),
  \<^verbatim>\<open>table.go\<close> and the wrapping of \<^verbatim>\<open>note.go\<close>. Strings are byte strings; \<open>None\<close> as a result is the panic of
  a slice out of range or of \<^verbatim>\<open>strings.Repeat\<close> with a negative count.
\<close>

section \<open>Escape sequences\<close>

definition esc :: char where
  "esc = char_of (27 :: nat)"

text \<open>
  The regular expressions of \<^verbatim>\<open>ansi.go\<close>, matched at the beginning of a string: the rest after the match.
  The second alternative of \<^verbatim>\<open>osc8Pattern\<close> is the first one with nothing in between.
\<close>

definition match_sgr :: "string \<Rightarrow> string option" where
  "match_sgr s =
     (if has_prefix s [esc, CHR ''['']
      then let r = dropWhile (\<lambda>c. is_digit c \<or> c = CHR '';'') (drop 2 s)
           in if r \<noteq> [] \<and> hd r = CHR ''m'' then Some (tl r) else None
      else None)"

definition match_osc8 :: "string \<Rightarrow> string option" where
  "match_osc8 s =
     (if has_prefix s (esc # '']8;;'')
      then let r = dropWhile (\<lambda>c. c \<noteq> esc) (drop 5 s)
           in if has_prefix r [esc, char_of (92 :: nat)] then Some (drop 2 r) else None
      else None)"

text \<open>\<^verbatim>\<open>ReplaceAllString(input, "")\<close>: leftmost matches, one after the other.\<close>

lemma length_match: "match_sgr s = Some r \<Longrightarrow> length r < length s" "match_osc8 s = Some r \<Longrightarrow> length r < length s"
proof -
  assume "match_sgr s = Some r"
  then obtain u where "s = [esc, CHR ''['' ] @ u" "r = tl (dropWhile (\<lambda>c. is_digit c \<or> c = CHR '';'') u)"
    by (auto simp: match_sgr_def Let_def has_prefix_iff split: if_splits)
  then show "length r < length s" using length_dropWhile_le [of "\<lambda>c. is_digit c \<or> c = CHR '';''" u] by simp
next
  assume "match_osc8 s = Some r"
  then obtain u where "s = (esc # '']8;;'') @ u" "r = drop 2 (dropWhile (\<lambda>c. c \<noteq> esc) u)"
    by (auto simp: match_osc8_def Let_def has_prefix_iff split: if_splits)
  then show "length r < length s" using length_dropWhile_le [of "\<lambda>c. c \<noteq> esc" u] by simp
qed

function strip_sgr :: "string \<Rightarrow> string" where
  "strip_sgr [] = []"
| "strip_sgr (c # s) = (case match_sgr (c # s) of Some r \<Rightarrow> strip_sgr r | None \<Rightarrow> c # strip_sgr s)"
  by pat_completeness auto
termination by (relation "measure length") (auto dest: length_match)

function strip_osc8 :: "string \<Rightarrow> string" where
  "strip_osc8 [] = []"
| "strip_osc8 (c # s) = (case match_osc8 (c # s) of Some r \<Rightarrow> strip_osc8 r | None \<Rightarrow> c # strip_osc8 s)"
  by pat_completeness auto
termination by (relation "measure length") (auto dest: length_match)

definition StripAnsi :: "string \<Rightarrow> string" where
  "StripAnsi inp = strip_sgr (strip_osc8 inp)"

section \<open>Runes\<close>

text \<open>
  The length in bytes of the first rune of a non-empty string, as \<^verbatim>\<open>utf8.DecodeRune\<close> has it: a byte
  that does not begin a well-formed sequence is a rune of its own.
\<close>

definition byte_in :: "nat \<Rightarrow> nat \<Rightarrow> string \<Rightarrow> nat \<Rightarrow> bool" where
  "byte_in lo hi s i \<longleftrightarrow> i < length s \<and> lo \<le> of_char (s ! i) \<and> of_char (s ! i) \<le> hi"

definition rune_len :: "string \<Rightarrow> nat" where
  "rune_len s =
     (let b = byte_in
      in if b 0xC2 0xDF s 0 \<and> b 0x80 0xBF s 1 then 2
         else if (b 0xE0 0xE0 s 0 \<and> b 0xA0 0xBF s 1 \<or> b 0xE1 0xEC s 0 \<and> b 0x80 0xBF s 1 \<or>
                  b 0xED 0xED s 0 \<and> b 0x80 0x9F s 1 \<or> b 0xEE 0xEF s 0 \<and> b 0x80 0xBF s 1) \<and> b 0x80 0xBF s 2 then 3
         else if (b 0xF0 0xF0 s 0 \<and> b 0x90 0xBF s 1 \<or> b 0xF1 0xF3 s 0 \<and> b 0x80 0xBF s 1 \<or>
                  b 0xF4 0xF4 s 0 \<and> b 0x80 0x8F s 1) \<and> b 0x80 0xBF s 2 \<and> b 0x80 0xBF s 3 then 4
         else 1)"

lemma rune_len_pos: "0 < rune_len s"
  by (simp add: rune_len_def Let_def)

function runes :: "string \<Rightarrow> string list" where
  "runes [] = []"
| "runes (c # s) = take (rune_len (c # s)) (c # s) # runes (drop (rune_len (c # s)) (c # s))"
  by pat_completeness auto
termination by (relation "measure length") (auto simp: rune_len_pos)

definition RuneCount :: "string \<Rightarrow> int" where
  "RuneCount s = int (length (runes s))"

text \<open>\<^verbatim>\<open>string(runes)\<close>: an ill-formed byte has become U+FFFD.\<close>

definition encode_rune :: "string \<Rightarrow> string" where
  "encode_rune r = (if length r = 1 \<and> of_char (hd r) \<ge> (0x80 :: nat) then utf8 [0xEF, 0xBF, 0xBD] else r)"

section \<open>Widths and padding\<close>

definition VisibleWidth :: "string \<Rightarrow> int" where
  "VisibleWidth inp = RuneCount (StripAnsi inp)"

definition spaces :: "int \<Rightarrow> string" where
  "spaces n = (if n \<le> 0 then [] else replicate (nat n) (CHR '' ''))"

definition TruncateVisible :: "string \<Rightarrow> int \<Rightarrow> string option" where
  "TruncateVisible inp maxWidth =
     (let stripped = StripAnsi inp
      in if RuneCount stripped \<le> maxWidth then Some inp
         else let rs = runes stripped
              in if int (length rs) > maxWidth - 3
                 then if maxWidth - 3 < 0 then None
                      else Some (concat (map encode_rune (take (nat (maxWidth - 3)) rs)) @ ''...'')
                 else if maxWidth < 0 then None else Some (concat (map encode_rune (take (nat maxWidth) rs))))"

definition PadRight :: "string \<Rightarrow> int \<Rightarrow> string" where
  "PadRight inp width =
     (let visible = VisibleWidth inp in if visible \<ge> width then inp else inp @ spaces (width - visible))"

definition PadLeft :: "string \<Rightarrow> int \<Rightarrow> string" where
  "PadLeft inp width =
     (let visible = VisibleWidth inp in if visible \<ge> width then inp else spaces (width - visible) @ inp)"

definition PadCenter :: "string \<Rightarrow> int \<Rightarrow> string" where
  "PadCenter inp width =
     (let visible = VisibleWidth inp
      in if visible \<ge> width then inp
         else let padding = width - visible; left = go_div padding 2; right = padding - left
              in spaces left @ inp @ spaces right)"

text \<open>\<^verbatim>\<open>strings.Repeat\<close>.\<close>

definition repeat_string :: "string \<Rightarrow> int \<Rightarrow> string option" where
  "repeat_string s n = (if n < 0 then None else Some (concat (replicate (nat n) s)))"

section \<open>Tables\<close>

datatype Align = AlignLeft | AlignRight | AlignCenter

datatype TableBorder = BorderUnicode | BorderASCII | BorderNone

record TableColumn =
  tc_Key :: string
  tc_Header :: string
  tc_Align :: Align
  tc_MinWidth :: int
  tc_MaxWidth :: int

record RenderTableOptions =
  to_Columns :: "TableColumn list"
  to_Rows :: "(string \<Rightarrow> string) list"
  to_Border :: TableBorder
  to_Padding :: int

record boxChars =
  bx_tl :: string
  bx_tr :: string
  bx_bl :: string
  bx_br :: string
  bx_h :: string
  bx_v :: string
  bx_t :: string
  bx_ml :: string
  bx_m :: string
  bx_mr :: string
  bx_b :: string

definition unicodeBox :: boxChars where
  "unicodeBox = \<lparr>bx_tl = utf8 [226, 148, 140], bx_tr = utf8 [226, 148, 144], bx_bl = utf8 [226, 148, 148],
     bx_br = utf8 [226, 148, 152], bx_h = utf8 [226, 148, 128], bx_v = utf8 [226, 148, 130],
     bx_t = utf8 [226, 148, 172], bx_ml = utf8 [226, 148, 156], bx_m = utf8 [226, 148, 188],
     bx_mr = utf8 [226, 148, 164], bx_b = utf8 [226, 148, 180]\<rparr>"

definition asciiBox :: boxChars where
  "asciiBox = \<lparr>bx_tl = ''+'', bx_tr = ''+'', bx_bl = ''+'', bx_br = ''+'', bx_h = ''-'', bx_v = ''|'',
     bx_t = ''+'', bx_ml = ''+'', bx_m = ''+'', bx_mr = ''+'', bx_b = ''+''\<rparr>"

text \<open>A row is a map; reading a missing key gives the empty string.\<close>

definition column_width :: "int \<Rightarrow> (string \<Rightarrow> string) list \<Rightarrow> TableColumn \<Rightarrow> int" where
  "column_width padding rows col =
     (let headerW = VisibleWidth (tc_Header col);
          maxCellW = fold (\<lambda>row m. let cellW = VisibleWidth (row (tc_Key col)) in if cellW > m then cellW else m) rows 0;
          base = (if maxCellW > headerW then maxCellW else headerW);
          base = base + padding * 2;
          base = (if tc_MaxWidth col > 0 \<and> base > tc_MaxWidth col then tc_MaxWidth col else base);
          minW = (if tc_MinWidth col < 3 then 3 else tc_MinWidth col)
      in if base < minW then minW else base)"

definition hLine :: "boxChars \<Rightarrow> int list \<Rightarrow> string \<Rightarrow> string \<Rightarrow> string \<Rightarrow> string" where
  "hLine box widths left mid right =
     left @ join mid (map (\<lambda>w. concat (replicate (nat w) (bx_h box))) widths) @ right"

definition padCell :: "string \<Rightarrow> int \<Rightarrow> Align \<Rightarrow> string" where
  "padCell text width align =
     (let w = VisibleWidth text
      in if w \<ge> width then text
         else let pad = width - w
              in case align of
                   AlignRight \<Rightarrow> spaces pad @ text
                 | AlignCenter \<Rightarrow> (let left = go_div pad 2 in spaces left @ text @ spaces (pad - left))
                 | AlignLeft \<Rightarrow> text @ spaces pad)"

definition contentWidth :: "int \<Rightarrow> int \<Rightarrow> int" where
  "contentWidth padding width = (let w = width - padding * 2 in if w < 1 then 1 else w)"

definition renderRow :: "boxChars \<Rightarrow> int \<Rightarrow> TableColumn list \<Rightarrow> int list \<Rightarrow> string list \<Rightarrow> string" where
  "renderRow box padding cols widths values =
     (let padStr = spaces padding;
          parts = map (\<lambda>(col, w, val). padStr @ padCell val (contentWidth padding w) (tc_Align col) @ padStr)
                      (zip cols (zip widths values))
      in bx_v box @ join (bx_v box) parts @ bx_v box)"

text \<open>The lines of a table; \<^verbatim>\<open>RenderTable\<close> joins them. Widths are at least 3, so no \<^verbatim>\<open>Repeat\<close> panics.\<close>

definition table_lines :: "RenderTableOptions \<Rightarrow> string list" where
  "table_lines opts =
     (let padding = (if to_Padding opts = 0 then 1 else to_Padding opts);
          box = (if to_Border opts = BorderASCII then asciiBox else unicodeBox);
          cols = to_Columns opts;
          widths = map (column_width padding (to_Rows opts)) cols;
          rule = (\<lambda>l m r. if to_Border opts \<noteq> BorderNone then [hLine box widths l m r] else [])
      in rule (bx_tl box) (bx_t box) (bx_tr box) @
         [renderRow box padding cols widths (map tc_Header cols)] @
         rule (bx_ml box) (bx_m box) (bx_mr box) @
         map (\<lambda>row. renderRow box padding cols widths (map (\<lambda>col. row (tc_Key col)) cols)) (to_Rows opts) @
         rule (bx_bl box) (bx_b box) (bx_br box))"

definition RenderTable :: "RenderTableOptions \<Rightarrow> string" where
  "RenderTable opts = join [char_of (10 :: nat)] (table_lines opts) @ [char_of (10 :: nat)]"

section \<open>Wrapping\<close>

text \<open>\<^verbatim>\<open>strings.Fields\<close>; \<open>word\<close> is the word being read, backwards.\<close>

function fields_from :: "string \<Rightarrow> string \<Rightarrow> string list" where
  "fields_from word [] = (if word = [] then [] else [rev word])"
| "fields_from word (c # s) =
     (case List.find (\<lambda>p. p \<noteq> [] \<and> has_prefix (c # s) p) space_seqs of
        Some p \<Rightarrow> (if word = [] then [] else [rev word]) @ fields_from [] (drop (length p) (c # s))
      | None \<Rightarrow> fields_from (c # word) s)"
  by pat_completeness auto
termination
proof (relation "measure (\<lambda>(word, s). length s)")
  fix c and s p :: string
  assume "List.find (\<lambda>p. p \<noteq> [] \<and> has_prefix (c # s) p) space_seqs = Some p"
  then have "p \<noteq> []" by (auto simp: find_Some_iff)
  then show "(([], drop (length p) (c # s)), word, c # s) \<in> measure (\<lambda>(word, s). length s)" for word :: string
    by (cases p) auto
qed auto

definition Fields :: "string \<Rightarrow> string list" where
  "Fields s = fields_from [] s"

text \<open>The loop of \<^verbatim>\<open>wrapLine\<close>: the lines finished and the current one.\<close>

definition wrap_word :: "int \<Rightarrow> string \<Rightarrow> string list \<times> string \<Rightarrow> string list \<times> string" where
  "wrap_word maxWidth word lc =
     (let (lines, current) = lc;
          candidate = (if current \<noteq> [] then current @ '' '' else current) @ word
      in if VisibleWidth candidate \<le> maxWidth then (lines, candidate)
         else (if current \<noteq> [] then lines @ [current] else lines, word))"

definition wrapLine :: "string \<Rightarrow> int \<Rightarrow> string list" where
  "wrapLine line maxWidth =
     (if trim_space line = [] then [line]
      else let words = Fields line
           in if words = [] then [[]]
              else let (lines, current) = fold (wrap_word maxWidth) words ([], [])
                   in if current \<noteq> [] then lines @ [current] else lines)"

text \<open>
  \<^verbatim>\<open>fmt.Sscanf(s, "%d", &n)\<close>: blanks but no newline, a sign, digits; the rest is not looked at.
\<close>

definition sscanf_d :: "string \<Rightarrow> int option" where
  "sscanf_d s =
     (let s = drop_seqs (filter (\<lambda>p. p \<noteq> [char_of (10 :: nat)]) space_seqs) s;
          (neg, s) = (if has_prefix s ''-'' then (True, tl s) else if has_prefix s ''+'' then (False, tl s) else (False, s));
          ds = takeWhile is_digit s;
          n = fold (\<lambda>c n. n * 10 + int (digit_val c)) ds 0;
          n = (if neg then - n else n)
      in if ds = [] \<or> \<not> in_i64 n then None else Some n)"

definition parseIntOr :: "string \<Rightarrow> int \<Rightarrow> int" where
  "parseIntOr s def = (case sscanf_d s of None \<Rightarrow> def | Some n \<Rightarrow> n)"

text \<open>\<open>columns_env\<close> is the environment variable \<^verbatim>\<open>COLUMNS\<close>, if set.\<close>

definition note_width :: "string option \<Rightarrow> int \<Rightarrow> int" where
  "note_width columns_env maxWidth =
     (let columns = (case columns_env of
                       None \<Rightarrow> 80
                     | Some term \<Rightarrow> let n = parseIntOr term 80 in if n > 0 then n else 80);
          width = columns - 10;
          width = (if width > maxWidth then maxWidth else width)
      in if width < 40 then 40 else width)"

definition WrapNoteMessage :: "string option \<Rightarrow> string \<Rightarrow> int \<Rightarrow> string" where
  "WrapNoteMessage columns_env message maxWidth =
     join [char_of (10 :: nat)]
       (concat (map (\<lambda>line. wrapLine line (note_width columns_env maxWidth)) (split_on (char_of (10 :: nat)) message)))"

section \<open>Widths of plain text\<close>

text \<open>Text without escape characters is its own visible part.\<close>

definition plain_text :: "string \<Rightarrow> bool" where
  "plain_text s \<longleftrightarrow> esc \<notin> set s"

lemma match_needs_esc: "c \<noteq> esc \<Longrightarrow> match_sgr (c # s) = None" "c \<noteq> esc \<Longrightarrow> match_osc8 (c # s) = None"
  by (auto simp: match_sgr_def match_osc8_def has_prefix_iff)

lemma strip_plain: "esc \<notin> set s \<Longrightarrow> strip_sgr s = s" "esc \<notin> set s \<Longrightarrow> strip_osc8 s = s"
  by (induction s) (auto simp: match_needs_esc)

lemma VisibleWidth_plain: "plain_text s \<Longrightarrow> VisibleWidth s = RuneCount s"
  by (simp add: VisibleWidth_def StripAnsi_def plain_text_def strip_plain)

lemma plain_text_append [simp]: "plain_text (s @ t) \<longleftrightarrow> plain_text s \<and> plain_text t"
  by (auto simp: plain_text_def)

text \<open>Runes of a concatenation, when the second part does not begin in the middle of a sequence.\<close>

definition rune_start :: "string \<Rightarrow> bool" where
  "rune_start u \<longleftrightarrow> u = [] \<or> of_char (hd u) < (0x80 :: nat) \<or> (0xC0 :: nat) \<le> of_char (hd u)"

lemma byte_in_append: "i < length t \<Longrightarrow> byte_in lo hi (t @ u) i = byte_in lo hi t i"
  by (simp add: byte_in_def nth_append)

lemma byte_in_beyond: "length t \<le> i \<Longrightarrow> byte_in lo hi t i = False"
  by (simp add: byte_in_def)

lemma byte_in_start: "rune_start u \<Longrightarrow> 0x80 \<le> lo \<Longrightarrow> hi \<le> 0xBF \<Longrightarrow> byte_in lo hi (t @ u) (length t) = False"
  by (cases u) (auto simp: byte_in_def nth_append rune_start_def)

lemma rune_len_append:
  assumes "t \<noteq> []" "rune_start u"
  shows "rune_len (t @ u) = rune_len t"
proof -
  consider "length t = 1" | "length t = 2" | "length t = 3" | "4 \<le> length t"
    using assms(1) length_greater_0_conv [of t] by atomize_elim presburger
  then show ?thesis
  proof cases
    case 1
    then show ?thesis using byte_in_start [OF assms(2), of _ _ t] byte_in_append [of _ t _ _ u] byte_in_beyond [of t]
      by (simp add: rune_len_def Let_def)
  next
    case 2
    then show ?thesis using byte_in_start [OF assms(2), of _ _ t] byte_in_append [of _ t _ _ u] byte_in_beyond [of t]
      by (simp add: rune_len_def Let_def)
  next
    case 3
    then show ?thesis using byte_in_start [OF assms(2), of _ _ t] byte_in_append [of _ t _ _ u] byte_in_beyond [of t]
      by (simp add: rune_len_def Let_def)
  next
    case 4
    have e: "i < 4 \<Longrightarrow> byte_in lo hi (t @ u) i = byte_in lo hi t i" for lo hi i
      using 4 by (intro byte_in_append) linarith
    have "(0 :: nat) < 4" "(1 :: nat) < 4" "(2 :: nat) < 4" "(3 :: nat) < 4" by simp_all
    note e4 = this [THEN e]
    show ?thesis unfolding rune_len_def Let_def e4 ..
  qed
qed

lemma rune_len_le: "t \<noteq> [] \<Longrightarrow> rune_len t \<le> length t"
proof -
  assume "t \<noteq> []"
  then have "1 \<le> length t" by (cases t) auto
  moreover have "byte_in 0x80 0xBF t i \<Longrightarrow> Suc i \<le> length t" for i by (simp add: byte_in_def)
  from this [of 1] this [of 2] this [of 3]
  have "byte_in 0x80 0xBF t 1 \<Longrightarrow> 2 \<le> length t" "byte_in 0x80 0xBF t 2 \<Longrightarrow> 3 \<le> length t" "byte_in 0x80 0xBF t 3 \<Longrightarrow> 4 \<le> length t"
    by simp_all
  ultimately show ?thesis unfolding rune_len_def Let_def by (auto split: if_splits)
qed

lemma runes_append:
  assumes "rune_start u"
  shows "runes (t @ u) = runes t @ runes u"
proof (induction t rule: runes.induct)
  case (2 c s)
  define t where "t = c # s"
  have step: "v \<noteq> [] \<Longrightarrow> runes v = take (rune_len v) v # runes (drop (rune_len v) v)" for v by (cases v) simp_all
  have t: "t \<noteq> []" by (simp add: t_def)
  have "runes (t @ u) = take (rune_len t) (t @ u) # runes (drop (rune_len t) (t @ u))"
    using step [of "t @ u"] t rune_len_append [OF t assms] by simp
  also have "\<dots> = take (rune_len t) t # runes (drop (rune_len t) t @ u)" using rune_len_le [OF t] by simp
  also have "\<dots> = runes t @ runes u" using 2 step [OF t] by (simp add: t_def)
  finally show ?case by (simp only: t_def)
qed simp

lemma RuneCount_append: "rune_start u \<Longrightarrow> RuneCount (t @ u) = RuneCount t + RuneCount u"
  by (simp add: RuneCount_def runes_append)

lemma RuneCount_nonneg [simp]: "0 \<le> RuneCount s"
  by (simp add: RuneCount_def)

lemma RuneCount_Nil [simp]: "RuneCount [] = 0"
  by (simp add: RuneCount_def)

lemma rune_start_append: "rune_start s \<Longrightarrow> rune_start t \<Longrightarrow> rune_start (s @ t)"
  by (cases s) (auto simp: rune_start_def)

lemma RuneCount_Cons: "of_char c < (0x80 :: nat) \<Longrightarrow> RuneCount (c # s) = 1 + RuneCount s"
proof -
  assume "of_char c < (0x80 :: nat)"
  then have "rune_len (c # s) = 1" by (simp add: rune_len_def Let_def byte_in_def)
  then show ?thesis by (simp add: RuneCount_def)
qed

lemma rune_start_ascii: "of_char c < (0x80 :: nat) \<Longrightarrow> rune_start (c # s)"
  by (simp add: rune_start_def)

lemma rune_start_spaces [simp]: "rune_start (spaces n)" "rune_start (spaces n @ [])"
  by (cases "nat n"; simp add: spaces_def rune_start_def)+

lemma RuneCount_spaces_append [simp]: "RuneCount (spaces n @ s) = max 0 n + RuneCount s"
proof -
  have "RuneCount (replicate k (CHR '' '') @ s) = int k + RuneCount s" for k
    by (induction k) (auto simp: RuneCount_Cons)
  then show ?thesis by (simp add: spaces_def)
qed

lemma RuneCount_spaces [simp]: "RuneCount (spaces n) = max 0 n"
  using RuneCount_spaces_append [of n "[]"] by simp

lemma plain_spaces [simp]: "plain_text (spaces n)"
  by (simp add: plain_text_def spaces_def esc_def char_of_def bit_Suc_0_iff)

text \<open>Padding brings a plain text to the width asked for, and never shortens it.\<close>

lemma Pad_width:
  assumes "plain_text s"
  shows "VisibleWidth (PadRight s w) = max w (VisibleWidth s)" "VisibleWidth (PadLeft s w) = max w (VisibleWidth s)"
    "VisibleWidth (PadCenter s w) = max w (VisibleWidth s)"
proof -
  have v: "VisibleWidth s = RuneCount s" by (rule VisibleWidth_plain [OF assms])
  define x where "x = w - RuneCount s"
  have half: "x div 2 \<le> x" "0 \<le> x div 2" "0 < x" if "RuneCount s < w" using that by (auto simp: x_def)
  show "VisibleWidth (PadRight s w) = max w (VisibleWidth s)" "VisibleWidth (PadLeft s w) = max w (VisibleWidth s)"
    using assms by (simp_all add: PadRight_def PadLeft_def Let_def v VisibleWidth_plain RuneCount_append)
  show "VisibleWidth (PadCenter s w) = max w (VisibleWidth s)"
  proof (cases "RuneCount s < w")
    case True
    then have "VisibleWidth (PadCenter s w) = RuneCount (spaces (x div 2) @ s @ spaces (x - x div 2))"
      using assms half by (simp add: PadCenter_def Let_def v VisibleWidth_plain flip: x_def)
    also have "\<dots> = w" using half [OF True] by (simp add: RuneCount_append) (simp add: x_def)
    finally show ?thesis using True v by simp
  qed (simp add: PadCenter_def v)
qed

text \<open>Truncation panics exactly when the text is too wide for a width below the three dots.\<close>

lemma TruncateVisible_panics: "TruncateVisible s w = None \<longleftrightarrow> w < 3 \<and> w < VisibleWidth s"
  by (auto simp: TruncateVisible_def VisibleWidth_def RuneCount_def Let_def)

text \<open>A glyph: one visible rune, safe to put anywhere.\<close>

definition glyph :: "string \<Rightarrow> bool" where
  "glyph g \<longleftrightarrow> plain_text g \<and> rune_start g \<and> g \<noteq> [] \<and> RuneCount g = 1"

definition box_ok :: "boxChars \<Rightarrow> bool" where
  "box_ok b \<longleftrightarrow> list_all glyph [bx_tl b, bx_tr b, bx_bl b, bx_br b, bx_h b, bx_v b, bx_t b, bx_ml b, bx_m b, bx_mr b, bx_b b]"

lemma box_glyphs: "glyph (utf8 [226, 148, n])" if "128 \<le> n" "n \<le> 191" for n
proof -
  have "of_char (char_of n :: char) = n" using that by simp
  then show ?thesis using that
    by (simp add: glyph_def utf8_def plain_text_def rune_start_def RuneCount_def rune_len_def Let_def byte_in_def esc_def)
qed

lemma unicodeBox_ok: "box_ok unicodeBox"
  by (simp add: box_ok_def unicodeBox_def box_glyphs)

lemma asciiBox_ok: "box_ok asciiBox"
  by (simp add: box_ok_def asciiBox_def glyph_def plain_text_def rune_start_def RuneCount_def rune_len_def Let_def byte_in_def
      esc_def char_of_def bit_Suc_0_iff)

section \<open>Widths of table lines\<close>

text \<open>A cell that is safe between glyphs, and the width of a line of cells.\<close>

definition cell_ok :: "string \<Rightarrow> bool" where
  "cell_ok p \<longleftrightarrow> plain_text p \<and> rune_start p \<and> p \<noteq> []"

lemma glyph_cell: "glyph g \<Longrightarrow> cell_ok g"
  by (simp add: glyph_def cell_ok_def)

lemma cell_ok_append: "cell_ok p \<Longrightarrow> plain_text q \<Longrightarrow> cell_ok (p @ q)"
  by (cases p) (auto simp: cell_ok_def rune_start_def plain_text_def)

lemma RuneCount_join:
  assumes "glyph sep" "list_all cell_ok ps" "ps \<noteq> []"
  shows "cell_ok (join sep ps) \<and> RuneCount (join sep ps) = sum_list (map RuneCount ps) + int (length ps) - 1"
  using assms(2,3)
proof (induction ps)
  case (Cons p ps)
  show ?case
  proof (cases ps)
    case Nil
    then show ?thesis using Cons.prems by simp
  next
    case (Cons q qs)
    then have ih: "cell_ok (join sep ps)" "RuneCount (join sep ps) = sum_list (map RuneCount ps) + int (length ps) - 1"
      using Cons.IH Cons.prems by simp_all
    have j: "join sep (p # ps) = p @ sep @ join sep ps" by (simp add: Cons)
    have "cell_ok (sep @ join sep ps)" using assms(1) ih(1) by (intro cell_ok_append glyph_cell) (auto simp: cell_ok_def)
    then show ?thesis unfolding j using Cons.prems(1) ih assms(1)
      by (auto simp: RuneCount_append cell_ok_append glyph_def) (auto simp: cell_ok_def RuneCount_append rune_start_append)
  qed
qed simp

lemma RuneCount_framed:
  assumes "glyph l" "glyph sep" "glyph r" "list_all cell_ok ps" "ps \<noteq> []"
  shows "plain_text (l @ join sep ps @ r)" "RuneCount (l @ join sep ps @ r) = sum_list (map RuneCount ps) + int (length ps) + 1"
proof -
  note j = RuneCount_join [OF assms(2,4,5)]
  have "cell_ok (join sep ps @ r)" using j assms(3) by (intro cell_ok_append) (auto simp: glyph_def)
  then show "plain_text (l @ join sep ps @ r)" "RuneCount (l @ join sep ps @ r) = sum_list (map RuneCount ps) + int (length ps) + 1"
    using j assms(1,3) by (auto simp: RuneCount_append cell_ok_def glyph_def)
qed

lemma RuneCount_rule_part:
  assumes "glyph h"
  shows "RuneCount (concat (replicate n h)) = int n \<and> rune_start (concat (replicate n h)) \<and> plain_text (concat (replicate n h))"
proof (induction n)
  case 0
  then show ?case by (simp add: plain_text_def rune_start_def)
next
  case (Suc n)
  then show ?case using assms by (simp add: RuneCount_append glyph_def rune_start_append)
qed

lemma column_width_ge: "3 \<le> column_width p rows col"
  by (simp add: column_width_def Let_def)

lemma hLine_width:
  assumes "box_ok b" "glyph l" "glyph m" "glyph r" "ws \<noteq> []" "list_all (\<lambda>w. 3 \<le> w) ws"
  shows "plain_text (hLine b ws l m r)" "RuneCount (hLine b ws l m r) = sum_list ws + int (length ws) + 1"
proof -
  have h: "glyph (bx_h b)" using assms(1) by (simp add: box_ok_def)
  let ?ps = "map (\<lambda>w. concat (replicate (nat w) (bx_h b))) ws"
  have ne: "concat (replicate (nat w) (bx_h b)) \<noteq> []" if "3 \<le> w" for w
    using h that by (cases "nat w") (auto simp: glyph_def)
  have cells: "list_all cell_ok ?ps"
    using assms(6) RuneCount_rule_part [OF h] ne by (auto simp: list_all_iff cell_ok_def)
  have "map RuneCount ?ps = ws"
    unfolding map_map by (rule map_idI) (use assms(6) RuneCount_rule_part [OF h] in \<open>auto simp: list_all_iff\<close>)
  then show "plain_text (hLine b ws l m r)" "RuneCount (hLine b ws l m r) = sum_list ws + int (length ws) + 1"
    using RuneCount_framed [OF assms(2-4) cells] assms(5) by (simp_all add: hLine_def)
qed

text \<open>A padded cell.\<close>

lemma padCell_width:
  assumes "plain_text val" "0 < p"
  shows "cell_ok (spaces p @ padCell val w al @ spaces p)"
    "RuneCount (spaces p @ padCell val w al @ spaces p) = 2 * p + max w (RuneCount val)"
proof -
  have v: "VisibleWidth val = RuneCount val" by (rule VisibleWidth_plain [OF assms(1)])
  have plain: "plain_text (padCell val w al)"
    using assms(1) by (cases al) (simp_all add: padCell_def Let_def)
  have "spaces p \<noteq> []" using assms(2) by (simp add: spaces_def)
  then show "cell_ok (spaces p @ padCell val w al @ spaces p)"
    using plain by (intro cell_ok_append) (simp_all add: cell_ok_def)
  have "RuneCount (padCell val w al) = max w (RuneCount val)"
  proof (cases "RuneCount val < w")
    case True
    define x where "x = w - RuneCount val"
    have half: "x div 2 \<le> x" "0 \<le> x div 2" "0 \<le> x" using True by (auto simp: x_def)
    show ?thesis using True half
      by (cases al) (simp_all add: padCell_def Let_def v RuneCount_append flip: x_def, simp_all add: x_def)
  qed (simp add: padCell_def Let_def v)
  then show "RuneCount (spaces p @ padCell val w al @ spaces p) = 2 * p + max w (RuneCount val)"
    using assms(2) by (simp add: RuneCount_append)
qed

text \<open>
  A table that is well formed: at least one column, a padding that is not negative, plain text,
  visible headers, and no column whose contents exceed its maximal width.
\<close>

definition content_width :: "(string \<Rightarrow> string) list \<Rightarrow> TableColumn \<Rightarrow> int" where
  "content_width rows col = fold (\<lambda>row m. max m (VisibleWidth (row (tc_Key col)))) rows (VisibleWidth (tc_Header col))"

definition column_ok :: "int \<Rightarrow> (string \<Rightarrow> string) list \<Rightarrow> TableColumn \<Rightarrow> bool" where
  "column_ok p rows col \<longleftrightarrow> plain_text (tc_Header col) \<and> list_all (\<lambda>row. plain_text (row (tc_Key col))) rows \<and>
     1 \<le> VisibleWidth (tc_Header col) \<and>
     (tc_MaxWidth col \<le> 0 \<or> content_width rows col + p * 2 \<le> tc_MaxWidth col)"

definition table_padding :: "RenderTableOptions \<Rightarrow> int" where
  "table_padding opts = (if to_Padding opts = 0 then 1 else to_Padding opts)"

lemma fold_max_start: "(a :: int) \<le> fold (\<lambda>x m. max m (f x)) xs a"
proof (induction xs arbitrary: a)
  case (Cons x xs)
  then show ?case using max.cobounded1 order_trans by (metis fold_simps(2))
qed simp

lemma fold_max_ge: "x \<in> set xs \<Longrightarrow> (f x :: int) \<le> fold (\<lambda>x m. max m (f x)) xs a"
proof (induction xs arbitrary: a)
  case (Cons y ys)
  then show ?case using fold_max_start [of "max a (f y)" f ys] by (cases "x = y") auto
qed simp

lemma fold_max_split: "fold (\<lambda>x m. max m (f x)) xs a \<le> max a (fold (\<lambda>x m. max m (f x)) xs (b :: int))"
proof (induction xs arbitrary: a b)
  case (Cons x xs)
  have "max b (f x) \<le> fold (\<lambda>x m. max m (f x)) xs (max b (f x))" by (rule fold_max_start)
  then show ?case using Cons [of "max a (f x)" "max b (f x)"] by auto
qed simp

lemma content_width_ge:
  "VisibleWidth (tc_Header col) \<le> content_width rows col"
  "row \<in> set rows \<Longrightarrow> VisibleWidth (row (tc_Key col)) \<le> content_width rows col"
  by (simp_all add: content_width_def fold_max_start fold_max_ge [where f = "\<lambda>row. VisibleWidth (row (tc_Key col))"])

lemma column_width_content:
  assumes "column_ok p rows col"
  shows "content_width rows col + p * 2 \<le> column_width p rows col"
proof -
  have step: "(\<lambda>row m. let cellW = VisibleWidth (row (tc_Key col)) in if cellW > m then cellW else m) =
      (\<lambda>row m. max m (VisibleWidth (row (tc_Key col))))"
    by (auto simp: fun_eq_iff Let_def)
  define cells where "cells = fold (\<lambda>row m. max m (VisibleWidth (row (tc_Key col)))) rows 0"
  have "content_width rows col \<le> max (VisibleWidth (tc_Header col)) cells"
    unfolding content_width_def cells_def by (rule fold_max_split)
  moreover have "tc_MaxWidth col \<le> 0 \<or> content_width rows col + p * 2 \<le> tc_MaxWidth col"
    using assms by (auto simp: column_ok_def)
  moreover have "column_width p rows col = (let base = max (VisibleWidth (tc_Header col)) cells + p * 2;
      base = (if tc_MaxWidth col > 0 \<and> base > tc_MaxWidth col then tc_MaxWidth col else base)
      in max base (max 3 (tc_MinWidth col)))"
    unfolding column_width_def step cells_def [symmetric] by (auto simp: Let_def max_def)
  ultimately show ?thesis by (auto simp: Let_def split: if_splits)
qed

text \<open>A row of cells that fit has the width of the rules.\<close>

lemma renderRow_width:
  assumes "box_ok b" "0 < p" "cols \<noteq> []" "length ws = length cols" "length vals = length cols"
    and fit: "\<And>i. i < length cols \<Longrightarrow> plain_text (vals ! i) \<and> VisibleWidth (vals ! i) + p * 2 \<le> ws ! i \<and> p * 2 < ws ! i"
  shows "plain_text (renderRow b p cols ws vals)" "RuneCount (renderRow b p cols ws vals) = sum_list ws + int (length ws) + 1"
proof -
  let ?part = "\<lambda>(col, w, val). spaces p @ padCell val (contentWidth p w) (tc_Align col) @ spaces p"
  let ?ps = "map ?part (zip cols (zip ws vals))"
  have part: "cell_ok (?ps ! i)" "RuneCount (?ps ! i) = ws ! i" if "i < length cols" for i
  proof -
    have i: "?ps ! i = spaces p @ padCell (vals ! i) (contentWidth p (ws ! i)) (tc_Align (cols ! i)) @ spaces p"
      using that assms(4,5) by simp
    show "cell_ok (?ps ! i)" unfolding i using padCell_width(1) fit [OF that] assms(2) by simp
    show "RuneCount (?ps ! i) = ws ! i" unfolding i
      using padCell_width(2) [of "vals ! i" p] fit [OF that] assms(2) VisibleWidth_plain [of "vals ! i"]
      by (auto simp: contentWidth_def Let_def)
  qed
  have len: "length ?ps = length cols" using assms(4,5) by simp
  have "map RuneCount ?ps = ws" using part(2) len assms(4) by (intro nth_equalityI) simp_all
  moreover have "list_all cell_ok ?ps" using part(1) len by (simp add: list_all_length)
  moreover have "?ps \<noteq> []" using len assms(3) by (metis length_0_conv)
  moreover have v: "glyph (bx_v b)" using assms(1) by (simp add: box_ok_def)
  ultimately show "plain_text (renderRow b p cols ws vals)" "RuneCount (renderRow b p cols ws vals) = sum_list ws + int (length ws) + 1"
    using RuneCount_framed [OF v v v, of ?ps] len assms(4) by (simp_all add: renderRow_def Let_def)
qed

section \<open>Wrapped lines\<close>

lemma join_snoc: "xs \<noteq> [] \<Longrightarrow> join sep (xs @ [x]) = join sep xs @ sep @ x"
proof (induction xs)
  case (Cons a xs)
  then show ?case by (cases xs) simp_all
qed simp

lemma Fields_nonempty: "w \<in> set (Fields s) \<Longrightarrow> w \<noteq> []"
proof -
  have "[] \<notin> set (fields_from word s)" for word
  proof (induction word s rule: fields_from.induct)
    case (2 word c s)
    show ?case unfolding fields_from.simps(2)
      by (cases "List.find (\<lambda>p. p \<noteq> [] \<and> has_prefix (c # s) p) space_seqs")
        (simp_all only: 2 option.case set_append, auto simp only: 2 Un_iff set_simps rev_is_Nil_conv split: if_split_asm)
  qed simp
  then show "w \<in> set (Fields s) \<Longrightarrow> w \<noteq> []" by (auto simp: Fields_def)
qed

text \<open>The words are kept, in their order, and a line that is too wide is a single word.\<close>

definition wrapped :: "int \<Rightarrow> string list \<Rightarrow> string list \<times> string \<Rightarrow> bool" where
  "wrapped m ws lc \<longleftrightarrow>
     (let ls = fst lc @ (if snd lc = [] then [] else [snd lc])
      in join '' '' ls = join '' '' ws \<and> (ws \<noteq> [] \<longrightarrow> snd lc \<noteq> []) \<and> (ws = [] \<longrightarrow> ls = []) \<and>
         (\<forall>l \<in> set ls. VisibleWidth l \<le> m \<or> l \<in> set ws))"

lemma wrap_word_wrapped:
  assumes "wrapped m ws lc" "w \<noteq> []"
  shows "wrapped m (ws @ [w]) (wrap_word m w lc)"
proof (cases "snd lc = []")
  case True
  then have "ws = []" "fst lc = []" using assms(1) by (auto simp: wrapped_def Let_def)
  then show ?thesis using True assms(2) by (cases lc) (auto simp: wrapped_def wrap_word_def)
next
  case False
  obtain ls cur where lc: "lc = (ls, cur)" by fastforce
  have inv: "join '' '' (ls @ [cur]) = join '' '' ws" "\<forall>l \<in> set (ls @ [cur]). VisibleWidth l \<le> m \<or> l \<in> set ws"
    using assms(1) False by (auto simp: wrapped_def lc)
  have ws: "ws \<noteq> []" using inv(1) assms(1) False by (auto simp: wrapped_def lc Let_def)
  have grow: "join '' '' (ls @ [cur @ '' '' @ w]) = join '' '' (ls @ [cur]) @ '' '' @ w"
    by (cases "ls = []") (simp_all add: join_snoc)
  show ?thesis
  proof (cases "VisibleWidth (cur @ '' '' @ w) \<le> m")
    case True
    then show ?thesis using False inv ws grow assms(2) by (auto simp: wrapped_def wrap_word_def lc join_snoc)
  next
    case False
    then show ?thesis using \<open>snd lc \<noteq> []\<close> inv ws assms(2) join_snoc [of "ls @ [cur]"]
      by (auto simp: wrapped_def wrap_word_def lc join_snoc)
  qed
qed

lemma wrapLine_correct:
  assumes "trim_space line \<noteq> []" "Fields line \<noteq> []"
  shows "join '' '' (wrapLine line m) = join '' '' (Fields line)"
    "l \<in> set (wrapLine line m) \<Longrightarrow> VisibleWidth l \<le> m \<or> l \<in> set (Fields line)"
proof -
  have "wrapped m (us @ ws) (fold (wrap_word m) ws lc)" if "wrapped m us lc" "\<forall>w \<in> set ws. w \<noteq> []" for us ws lc
    using that
  proof (induction ws arbitrary: us lc)
    case (Cons w ws)
    then show ?case using Cons.IH [of "us @ [w]" "wrap_word m w lc"] wrap_word_wrapped [of m us lc w] by simp
  qed simp
  from this [of "[]" "([], [])" "Fields line"] have "wrapped m (Fields line) (fold (wrap_word m) (Fields line) ([], []))"
    using Fields_nonempty by (auto simp: wrapped_def)
  then show "join '' '' (wrapLine line m) = join '' '' (Fields line)"
    "l \<in> set (wrapLine line m) \<Longrightarrow> VisibleWidth l \<le> m \<or> l \<in> set (Fields line)"
    using assms by (auto simp: wrapped_def wrapLine_def Let_def case_prod_beta split: if_splits)
qed

section \<open>Alignment of tables\<close>

text \<open>Tables are aligned: in a table with at least one column, plain text, visible headers and no
  contents wider than a column's maximal width, every line (rules, header and rows alike) has the
  same visible width, whatever the alignment, the border and the padding.\<close>

lemma table_lines_aligned:
  assumes "to_Columns opts \<noteq> []" and "0 \<le> to_Padding opts"
    and "list_all (column_ok (table_padding opts) (to_Rows opts)) (to_Columns opts)"
    and "l \<in> set (table_lines opts)"
  shows "VisibleWidth l =
    sum_list (map (column_width (table_padding opts) (to_Rows opts)) (to_Columns opts)) + int (length (to_Columns opts)) + 1"
proof -
  define p cols ws where "p = table_padding opts" and "cols = to_Columns opts" and "ws = map (column_width p (to_Rows opts)) cols"
  define b where "b = (if to_Border opts = BorderASCII then asciiBox else unicodeBox)"
  have b: "box_ok b" by (simp add: b_def unicodeBox_ok asciiBox_ok)
  have p: "0 < p" using assms(2) by (simp add: p_def table_padding_def)
  have len: "length ws = length cols" "ws \<noteq> []" using assms(1) by (simp_all add: ws_def cols_def)
  have cols: "column_ok p (to_Rows opts) (cols ! i)" if "i < length cols" for i
    using assms(3) that by (simp add: list_all_length cols_def p_def)
  have w: "content_width (to_Rows opts) (cols ! i) + p * 2 \<le> ws ! i" "1 \<le> content_width (to_Rows opts) (cols ! i)"
    if "i < length cols" for i
    using column_width_content [OF cols [OF that]] content_width_ge(1) [of "cols ! i" "to_Rows opts"] cols [OF that] that
    by (simp_all add: ws_def column_ok_def)
  have rule: "plain_text (hLine b ws l m r)" "RuneCount (hLine b ws l m r) = sum_list ws + int (length cols) + 1"
    if "glyph l" "glyph m" "glyph r" for l m r
    using hLine_width [OF b that len(2)] len(1) by (simp_all add: ws_def list_all_iff column_width_ge)
  have row: "plain_text (renderRow b p cols ws vals)" "RuneCount (renderRow b p cols ws vals) = sum_list ws + int (length cols) + 1"
    if "length vals = length cols" "\<And>i. i < length cols \<Longrightarrow> plain_text (vals ! i) \<and> VisibleWidth (vals ! i) \<le> content_width (to_Rows opts) (cols ! i)" for vals
    using renderRow_width [OF b p _ len(1) that(1)] that(2) w len by force+
  have heads: "plain_text (map tc_Header cols ! i) \<and> VisibleWidth (map tc_Header cols ! i) \<le> content_width (to_Rows opts) (cols ! i)"
    if "i < length cols" for i using cols [OF that] content_width_ge(1) that by (simp add: column_ok_def)
  have cells: "plain_text (map (\<lambda>col. r (tc_Key col)) cols ! i) \<and>
      VisibleWidth (map (\<lambda>col. r (tc_Key col)) cols ! i) \<le> content_width (to_Rows opts) (cols ! i)"
    if "i < length cols" "r \<in> set (to_Rows opts)" for i r
    using cols [OF that(1)] content_width_ge(2) [OF that(2)] that by (simp add: column_ok_def list_all_iff)
  have lines: "table_lines opts = (let rule = (\<lambda>l m r. if to_Border opts \<noteq> BorderNone then [hLine b ws l m r] else [])
      in rule (bx_tl b) (bx_t b) (bx_tr b) @ [renderRow b p cols ws (map tc_Header cols)] @ rule (bx_ml b) (bx_m b) (bx_mr b) @
         map (\<lambda>row. renderRow b p cols ws (map (\<lambda>col. row (tc_Key col)) cols)) (to_Rows opts) @ rule (bx_bl b) (bx_b b) (bx_br b))"
    by (simp add: table_lines_def p_def table_padding_def cols_def ws_def b_def Let_def)
  have "plain_text l \<and> RuneCount l = sum_list ws + int (length cols) + 1"
    using assms(4) b rule row [OF _ heads] row [OF _ cells] unfolding lines Let_def
    by (auto simp: box_ok_def split: if_splits)
  then show ?thesis using VisibleWidth_plain [of l] by (simp add: ws_def cols_def p_def)
qed

end
