(* ===== verification/Ui_Console.thy ===== *)
theory Ui_Console
  imports Ui_Text Go_Time
begin

text \<open>
  The terminal output of \<^verbatim>\<open>internal/ui\<close>: \<^verbatim>\<open>theme.go\<close> (colours), \<^verbatim>\<open>links.go\<close>, \<^verbatim>\<open>tagline.go\<close>, \<^verbatim>\<open>banner.go\<close>,
  \<^verbatim>\<open>logger.go\<close> and the boxes of \<^verbatim>\<open>note.go\<close>. What is printed is the text appended to the standard output;
  an operation that may panic (a slice or a \<^verbatim>\<open>strings.Repeat\<close> out of range) also says whether it returned.
  The colour library, the environment and the kind of terminal are parameters, in \<open>ui_env\<close>.
\<close>

section \<open>Colours\<close>

text \<open>The attributes of \<^verbatim>\<open>fatih/color\<close> the program uses.\<close>

datatype Attribute = FgRed | FgGreen | FgYellow | FgMagenta | FgCyan | FgWhite | FgHiBlack | FgHiRed | FgHiYellow
  | BgMagenta | AttrBold

text \<open>
  \<open>ue_Sprint as\<close> is \<^verbatim>\<open>color.New(as...).Sprint\<close>, \<open>ue_NoColor\<close> the variable \<^verbatim>\<open>color.NoColor\<close>, \<open>ue_getenv\<close> the environment
  (the empty string for an absent variable), \<open>ue_columns\<close> the value of \<^verbatim>\<open>COLUMNS\<close> when it is set, \<open>ue_tty\<close> whether
  the standard output is a character device, \<open>ue_args\<close> the command line,
  \<open>ue_off\<close> the offset of the local time zone in seconds.
\<close>

record ui_env =
  ue_Sprint :: "Attribute list \<Rightarrow> string \<Rightarrow> string"
  ue_NoColor :: bool
  ue_getenv :: "string \<Rightarrow> string"
  ue_columns :: "string option"
  ue_tty :: bool
  ue_args :: "string list"
  ue_off :: int

definition isForceColor :: "ui_env \<Rightarrow> bool" where
  "isForceColor u = (let fc = trim_space (ue_getenv u ''FORCE_COLOR'') in fc \<noteq> [] \<and> fc \<noteq> ''0'')"

definition IsRich :: "ui_env \<Rightarrow> bool" where
  "IsRich u = (if ue_getenv u ''NO_COLOR'' \<noteq> [] \<and> \<not> isForceColor u then False else ue_NoColor u = False)"

definition Accent :: "ui_env \<Rightarrow> string \<Rightarrow> string" where "Accent u = ue_Sprint u [FgHiRed]"
definition AccentBright :: "ui_env \<Rightarrow> string \<Rightarrow> string" where "AccentBright u = ue_Sprint u [FgHiRed, AttrBold]"
definition AccentDim :: "ui_env \<Rightarrow> string \<Rightarrow> string" where "AccentDim u = ue_Sprint u [FgRed]"
definition Info :: "ui_env \<Rightarrow> string \<Rightarrow> string" where "Info u = ue_Sprint u [FgHiYellow]"
definition Success :: "ui_env \<Rightarrow> string \<Rightarrow> string" where "Success u = ue_Sprint u [FgGreen]"
definition Warn :: "ui_env \<Rightarrow> string \<Rightarrow> string" where "Warn u = ue_Sprint u [FgYellow]"
definition Error :: "ui_env \<Rightarrow> string \<Rightarrow> string" where "Error u = ue_Sprint u [FgRed]"
definition Muted :: "ui_env \<Rightarrow> string \<Rightarrow> string" where "Muted u = ue_Sprint u [FgHiBlack]"
definition Heading :: "ui_env \<Rightarrow> string \<Rightarrow> string" where "Heading u = ue_Sprint u [FgHiRed, AttrBold]"
definition Command :: "ui_env \<Rightarrow> string \<Rightarrow> string" where "Command u = ue_Sprint u [FgCyan, AttrBold]"
definition Option :: "ui_env \<Rightarrow> string \<Rightarrow> string" where "Option u = ue_Sprint u [FgYellow]"
definition Subtle :: "ui_env \<Rightarrow> string \<Rightarrow> string" where "Subtle u = ue_Sprint u [FgWhite]"
definition Bold :: "ui_env \<Rightarrow> string \<Rightarrow> string" where "Bold u = ue_Sprint u [FgWhite, AttrBold]"
definition Primary :: "ui_env \<Rightarrow> string \<Rightarrow> string" where "Primary u = ue_Sprint u [FgMagenta, AttrBold]"
definition Secondary :: "ui_env \<Rightarrow> string \<Rightarrow> string" where "Secondary u = ue_Sprint u [FgCyan]"

definition Colorize :: "bool \<Rightarrow> (string \<Rightarrow> string) \<Rightarrow> string \<Rightarrow> string" where
  "Colorize rich colorFn msg = (if rich then colorFn msg else msg)"

lemmas colour_defs = Accent_def AccentBright_def AccentDim_def Info_def Success_def Warn_def Error_def Muted_def
  Heading_def Command_def Option_def Subtle_def Bold_def Primary_def Secondary_def

section \<open>Links\<close>

definition SupportsHyperlinks :: "ui_env \<Rightarrow> bool" where
  "SupportsHyperlinks u =
     (let termProgram = ue_getenv u ''TERM_PROGRAM''; term = ue_getenv u ''TERM''; wtSession = ue_getenv u ''WT_SESSION''
      in if contains termProgram ''iTerm'' \<or> contains termProgram ''WezTerm'' \<or> contains termProgram ''vscode'' \<or>
            contains termProgram ''Hyper'' \<or> wtSession \<noteq> [] then True
         else if contains term ''xterm-256color'' then True
         else False)"

definition FormatTerminalLink :: "ui_env \<Rightarrow> string \<Rightarrow> string \<Rightarrow> string" where
  "FormatTerminalLink u label url =
     (if \<not> SupportsHyperlinks u then label @ '' ('' @ url @ '')''
      else [esc] @ '']8;;'' @ url @ [esc, char_of (92 :: nat)] @ label @ [esc] @ '']8;;'' @ [esc, char_of (92 :: nat)])"

definition DOCS_ROOT :: string where "DOCS_ROOT = ''https://signal.org/docs''"

definition FormatDocsLink :: "ui_env \<Rightarrow> string \<Rightarrow> string \<Rightarrow> string" where
  "FormatDocsLink u path label =
     (let url = (if \<not> has_prefix path ''http''
                 then DOCS_ROOT @ (if \<not> has_prefix path ''/'' then ''/'' @ path else path)
                 else path);
          label = (if label = [] then url else label)
      in FormatTerminalLink u label url)"

definition FormatURLWithStyle :: "ui_env \<Rightarrow> string \<Rightarrow> string \<Rightarrow> string" where
  "FormatURLWithStyle u label url =
     (let link = FormatTerminalLink u label url in if IsRich u then Secondary u link else link)"

definition FormatEmail :: "ui_env \<Rightarrow> string \<Rightarrow> string" where
  "FormatEmail u email = FormatTerminalLink u email (''mailto:'' @ email)"

section \<open>Taglines\<close>

definition defaultTagline :: string where "defaultTagline = ''Trusted Proxy Service''"

definition taglines :: "string list" where
  "taglines =
     [''Trusted Proxy Service'', ''Your Packets, Relayed Securely'', ''Privacy-first proxy routing'',
      ''Connecting you securely, anywhere'', ''Secure relay for the modern era'', ''Routing trust, one packet at a time'',
      ''Making censorship obsolete since 2024'', ''Where privacy meets performance'', ''Silent guardian of your privacy'',
      ''Tunneling through barriers'']"

record taglineRule =
  tl_month :: int
  tl_day :: int
  tl_tagline :: string

text \<open>
  The groups of the map \<^verbatim>\<open>holidayTaglines\<close>. Go visits them in an unspecified order; no two rules have the
  same date, so the order does not matter (\<open>holiday_order\<close> below).
\<close>

definition holidayTaglines :: "taglineRule list list" where
  "holidayTaglines =
     [[\<lparr>tl_month = 12, tl_day = 25, tl_tagline = (utf8 [240, 159, 142, 132] @ '' Ho ho ho'' @ utf8 [226, 128, 148] @ ''relaying holiday cheer!'')\<rparr>,
       \<lparr>tl_month = 12, tl_day = 24, tl_tagline = (utf8 [240, 159, 142, 132] @ '' Santa's favorite proxy service'')\<rparr>],
      [\<lparr>tl_month = 10, tl_day = 31, tl_tagline = (utf8 [240, 159, 142, 131] @ '' Boo! Your packets are haunted'')\<rparr>,
       \<lparr>tl_month = 10, tl_day = 30, tl_tagline = (utf8 [240, 159, 142, 131] @ '' Spooky secure connections'')\<rparr>],
      [\<lparr>tl_month = 2, tl_day = 14, tl_tagline = (utf8 [240, 159, 146, 152] @ '' Sending love through encrypted channels'')\<rparr>],
      [\<lparr>tl_month = 1, tl_day = 1, tl_tagline = (utf8 [240, 159, 142, 137] @ '' Happy New Year! Fresh connections await'')\<rparr>]]"

text \<open>\<open>groups\<close> is the order in which the map is visited and \<open>n\<close> the number \<^verbatim>\<open>r.Intn(len(taglines))\<close> draws.\<close>

definition PickTagline :: "taglineRule list list \<Rightarrow> int \<times> int \<Rightarrow> nat \<Rightarrow> string" where
  "PickTagline groups date n =
     (case List.find (\<lambda>rule. tl_month rule = fst date \<and> tl_day rule = snd date) (concat groups) of
        Some rule \<Rightarrow> tl_tagline rule
      | None \<Rightarrow> if length taglines = 0 then defaultTagline else taglines ! n)"

definition GetAllTaglines :: "string list" where
  "GetAllTaglines = [] @ taglines"

definition FormatTagline :: "ui_env \<Rightarrow> string \<Rightarrow> string" where
  "FormatTagline u tagline =
     (if \<not> IsRich u then tagline
      else if list_ex (has_prefix tagline) [(utf8 [240, 159, 142, 132]), (utf8 [240, 159, 142, 131]), (utf8 [240, 159, 146, 152]), (utf8 [240, 159, 142, 137])]
      then tagline
      else AccentDim u tagline)"

section \<open>Printing\<close>

text \<open>The standard output and the variable \<^verbatim>\<open>bannerEmitted\<close>.\<close>

record console_state =
  co_out :: string
  co_bannerEmitted :: bool

definition Print :: "string \<Rightarrow> console_state \<Rightarrow> console_state" where
  "Print s c = c\<lparr>co_out := co_out c @ s\<rparr>"

definition nl :: string where "nl = [char_of (10 :: nat)]"

definition Println :: "string \<Rightarrow> console_state \<Rightarrow> console_state" where
  "Println s = Print (s @ nl)"

text \<open>The box drawing characters of \<^verbatim>\<open>logger.go\<close>.\<close>

definition boxTopLeft :: string where "boxTopLeft = (utf8 [226, 149, 173])"
definition boxTopRight :: string where "boxTopRight = (utf8 [226, 149, 174])"
definition boxBottomLeft :: string where "boxBottomLeft = (utf8 [226, 149, 176])"
definition boxBottomRight :: string where "boxBottomRight = (utf8 [226, 149, 175])"
definition boxHorizontal :: string where "boxHorizontal = (utf8 [226, 148, 128])"
definition boxVertical :: string where "boxVertical = (utf8 [226, 148, 130])"

lemmas box_defs = boxTopLeft_def boxTopRight_def boxBottomLeft_def boxBottomRight_def boxHorizontal_def boxVertical_def

text \<open>A rule of a constant, non-negative length.\<close>

definition rule_of :: "nat \<Rightarrow> string" where
  "rule_of n = concat (replicate n boxHorizontal)"

section \<open>Banner\<close>

text \<open>The art of \<^verbatim>\<open>simpleBanner\<close>, each drawing character written as one letter.\<close>

definition banner_glyph :: "char \<Rightarrow> string" where
  "banner_glyph c =
     (if c = CHR ''#'' then (utf8 [226, 150, 136]) else if c = CHR ''7'' then (utf8 [226, 149, 151]) else if c = CHR ''r'' then (utf8 [226, 149, 148])
      else if c = CHR ''L'' then (utf8 [226, 149, 154]) else if c = CHR ''J'' then (utf8 [226, 149, 157]) else if c = CHR ''I'' then (utf8 [226, 149, 145])
      else if c = CHR ''='' then (utf8 [226, 149, 144]) else [c])"

definition simpleBanner :: "string list" where
  "simpleBanner = map (\<lambda>l. concat (map banner_glyph l))
     [''######7 ######7  ######7 ##7  ##7##7   ##7'',
      ''##r==##7##r==##7##r===##7L##7##rJL##7 ##rJ'',
      ''######rJ######rJ##I   ##I L###rJ  L####rJ '',
      ''##r===J ##r==##7##I   ##I ##r##7   L##rJ  '',
      ''##I     ##I  ##IL######rJ##rJL##7   ##I   '',
      ''L=J     L=J  L=J L=====J L=J  L=J   L=J   '']"

definition FormatBannerArt :: "ui_env \<Rightarrow> string" where
  "FormatBannerArt u =
     (if \<not> IsRich u then join nl simpleBanner
      else let accent = ue_Sprint u [FgHiRed, AttrBold]; accentDim = ue_Sprint u [FgRed];
               colour = (\<lambda>ch. if ch \<in> {(utf8 [226, 150, 136]), (utf8 [226, 149, 151]), (utf8 [226, 149, 148]), (utf8 [226, 149, 154]), (utf8 [226, 149, 157]), (utf8 [226, 149, 145])}
                              then accent ch
                              else if ch \<in> {(utf8 [226, 150, 145]), (utf8 [226, 149, 144]), (utf8 [226, 149, 163]), (utf8 [226, 149, 160])}
                              then accentDim ch
                              else Muted u ch)
           in join nl (map (\<lambda>line. concat (map colour (runes line))) simpleBanner))"

definition FormatBannerLine :: "ui_env \<Rightarrow> string \<Rightarrow> string \<Rightarrow> string" where
  "FormatBannerLine u version tagline =
     (let title = (utf8 [226, 151, 134] @ '' MULTI-PROTOCOL PROXY'')
      in if IsRich u
         then Heading u title @ '' '' @ Info u version @ '' '' @ Muted u (utf8 [226, 128, 148]) @ '' '' @ AccentDim u tagline
         else title @ '' '' @ version @ ('' '' @ utf8 [226, 128, 148] @ '' '') @ tagline)"

definition EmitBanner :: "ui_env \<Rightarrow> string \<Rightarrow> string \<Rightarrow> console_state \<Rightarrow> console_state" where
  "EmitBanner u version tagline c =
     (if co_bannerEmitted c then c
      else if \<not> ue_tty u then c
      else if list_ex (\<lambda>arg. arg = ''--json'' \<or> arg = ''--version'' \<or> arg = ''-v'') (ue_args u) then c
      else (fold Println [[], FormatBannerArt u, [], FormatBannerLine u version tagline, []] c)\<lparr>co_bannerEmitted := True\<rparr>)"

text \<open>The second rule of spaces is \<^verbatim>\<open>strings.Repeat(" ", 60-2-len(tagline))\<close>, which panics for a long tagline.\<close>

definition EmitSimpleBanner :: "ui_env \<Rightarrow> string \<Rightarrow> string \<Rightarrow> console_state \<Rightarrow> console_state \<times> bool" where
  "EmitSimpleBanner u version tagline c =
     (if co_bannerEmitted c then (c, True)
      else if \<not> ue_tty u then (c, True)
      else let badge = ue_Sprint u [BgMagenta, FgWhite, AttrBold] ('' '' @ utf8 [226, 151, 134] @ '' PROXY '');
               ver = Muted u version;
               topBorder = Muted u (boxTopLeft @ rule_of 60 @ boxTopRight);
               titleLine = Muted u boxVertical @ ''  '' @ badge @ '' '' @ ver @ ''  '' @ Muted u (spaces 38 @ boxVertical);
               c = fold Println [[], topBorder, titleLine] c
           in case repeat_string '' '' (60 - 2 - int (length tagline)) of
                None \<Rightarrow> (c, False)
              | Some pad \<Rightarrow>
                  let subtitleLine = Muted u boxVertical @ ''  '' @ Subtle u tagline @ Muted u (pad @ boxVertical);
                      bottomBorder = Muted u (boxBottomLeft @ rule_of 60 @ boxBottomRight)
                  in ((fold Println [subtitleLine, bottomBorder, []] c)\<lparr>co_bannerEmitted := True\<rparr>, True))"

definition ResetBanner :: "console_state \<Rightarrow> console_state" where
  "ResetBanner c = c\<lparr>co_bannerEmitted := False\<rparr>"

definition VERSION :: string where "VERSION = ''v1.0.0''"

definition PrintBanner :: "ui_env \<Rightarrow> taglineRule list list \<Rightarrow> int \<times> int \<Rightarrow> nat \<Rightarrow> console_state \<Rightarrow> console_state \<times> bool" where
  "PrintBanner u groups date n = EmitSimpleBanner u VERSION (PickTagline groups date n)"

section \<open>Log lines\<close>

text \<open>\<^verbatim>\<open>time.Now().Format("15:04:05")\<close>.\<close>

definition clock_text :: "int \<Rightarrow> time \<Rightarrow> string" where
  "clock_text off t =
     (let r = local_seconds off t mod 86400
      in pad2 (r div 3600) @ '':'' @ pad2 (r div 60 mod 60) @ '':'' @ pad2 (r mod 60))"

definition log_ts :: "ui_env \<Rightarrow> time \<Rightarrow> string" where
  "log_ts u now = Muted u (clock_text (ue_off u) now)"

definition LogThinking :: "ui_env \<Rightarrow> time \<Rightarrow> string \<Rightarrow> console_state \<Rightarrow> console_state" where
  "LogThinking u now message = Println (log_ts u now @ ''  '' @ Primary u (utf8 [226, 151, 144]) @ ''  '' @ Subtle u message)"

definition status_style :: "ui_env \<Rightarrow> string \<Rightarrow> string \<Rightarrow> string \<times> string" where
  "status_style u category message =
     (if category = ''success'' then (Success u (utf8 [226, 156, 147]), Success u message)
      else if category = ''error'' then (Error u (utf8 [226, 156, 151]), Error u message)
      else if category = ''warning'' \<or> category = ''warn'' then (Warn u (utf8 [226, 154, 160]), Warn u message)
      else if category = ''info'' then (Info u (utf8 [226, 132, 185]), Subtle u message)
      else (Muted u (utf8 [226, 151, 143]), Subtle u message))"

definition LogStatus :: "ui_env \<Rightarrow> time \<Rightarrow> string \<Rightarrow> string \<Rightarrow> console_state \<Rightarrow> console_state" where
  "LogStatus u now category message =
     (let (icon, styledMsg) = status_style u category message
      in Println (log_ts u now @ ''  '' @ icon @ ''  '' @ styledMsg))"

text \<open>
  The rules after a title have the length \<^verbatim>\<open>50-len(title)\<close>, in bytes: a longer title panics, after the empty
  line was printed.
\<close>

definition LogSection :: "ui_env \<Rightarrow> string \<Rightarrow> console_state \<Rightarrow> console_state \<times> bool" where
  "LogSection u title c =
     (let c = Println [] c
      in case repeat_string boxHorizontal (50 - int (length title)) of
           None \<Rightarrow> (c, False)
         | Some r \<Rightarrow> (Println (Muted u (utf8 [226, 148, 128, 226, 148, 128]) @ '' '' @ Heading u title @ '' '' @ Muted u r) c, True))"

definition LogGroup :: "ui_env \<Rightarrow> string \<Rightarrow> console_state \<Rightarrow> console_state \<times> bool" where
  "LogGroup u title c =
     (let c = Println [] c
      in case repeat_string boxHorizontal (50 - int (length title)) of
           None \<Rightarrow> (c, False)
         | Some r \<Rightarrow> (Println (Muted u boxTopLeft @ Muted u (rule_of 2) @ '' '' @ Primary u title @ '' '' @ Muted u r @
                              Muted u boxTopRight) c, True))"

definition LogGroupEnd :: "ui_env \<Rightarrow> console_state \<Rightarrow> console_state" where
  "LogGroupEnd u c = Println [] (Println (Muted u (boxBottomLeft @ rule_of 56 @ boxBottomRight)) c)"

definition LogGroupItem :: "ui_env \<Rightarrow> string \<Rightarrow> string \<Rightarrow> console_state \<Rightarrow> console_state" where
  "LogGroupItem u label value =
     Println (Muted u boxVertical @ ''  '' @ Muted u (label @ '':'') @ '' '' @ Secondary u value)"

text \<open>The verbs \<^verbatim>\<open>%-8s\<close> (padded by runes) and \<^verbatim>\<open>%.1f\<close> (correctly rounded, ties to even) of \<^verbatim>\<open>fmt\<close>.\<close>

definition fmt_left :: "int \<Rightarrow> string \<Rightarrow> string" where
  "fmt_left w s = s @ spaces (w - RuneCount s)"

definition fmt_f1 :: "rat \<Rightarrow> string" where
  "fmt_f1 x =
     (let n = round_half_even (x * 10)
      in int_dec (n div 10) @ ''.'' @ nat_dec (nat (n mod 10)))"

definition ui_formatBytes :: "int \<Rightarrow> string" where
  "ui_formatBytes b =
     (let KB = 1024; MB = KB * 1024; GB = MB * 1024
      in if b < KB then int_dec b @ ''B''
         else if b < MB then fmt_f1 (fdiv (float64 b) (of_int KB)) @ ''KB''
         else if b < GB then fmt_f1 (fdiv (float64 b) (of_int MB)) @ ''MB''
         else fmt_f1 (fdiv (float64 b) (of_int GB)) @ ''GB'')"

definition LogRelay :: "ui_env \<Rightarrow> time \<Rightarrow> string \<Rightarrow> string \<Rightarrow> int \<Rightarrow> int \<Rightarrow> console_state \<Rightarrow> console_state" where
  "LogRelay u now sni clientIP up down =
     Println (log_ts u now @ ''  '' @ Success u (utf8 [226, 134, 146]) @ ''  '' @ Secondary u (fmt_left 28 sni) @ ''  '' @
       Muted u (fmt_left 16 clientIP) @ ''  '' @ Muted u (utf8 [226, 134, 145]) @ '' '' @ Subtle u (fmt_left 8 (ui_formatBytes up)) @ ''  '' @
       Muted u (utf8 [226, 134, 147]) @ '' '' @ Subtle u (fmt_left 8 (ui_formatBytes down)))"

definition LogConnection :: "ui_env \<Rightarrow> time \<Rightarrow> string \<Rightarrow> string \<Rightarrow> console_state \<Rightarrow> console_state" where
  "LogConnection u now event target =
     (let icon = (if event = ''connect'' then Primary u (utf8 [226, 151, 134])
                  else if event = ''disconnect'' then Muted u (utf8 [226, 151, 135])
                  else Muted u (utf8 [226, 151, 143]))
      in Println (log_ts u now @ ''  '' @ icon @ ''  '' @ Secondary u target))"

text \<open>\<open>value\<close> is the rendering of the value by \<^verbatim>\<open>%v\<close>.\<close>

definition LogMetric :: "ui_env \<Rightarrow> time \<Rightarrow> string \<Rightarrow> string \<Rightarrow> string \<Rightarrow> console_state \<Rightarrow> console_state" where
  "LogMetric u now name value unit =
     Println (log_ts u now @ ''  '' @ Muted u (utf8 [226, 151, 136]) @ ''  '' @ Subtle u name @ '': '' @ AccentBright u value @ '' '' @ Muted u unit)"

definition PrintSeparator :: "ui_env \<Rightarrow> console_state \<Rightarrow> console_state" where
  "PrintSeparator u = Println (Muted u (''  '' @ rule_of 56))"

definition PrintFooter :: "ui_env \<Rightarrow> string \<Rightarrow> console_state \<Rightarrow> console_state" where
  "PrintFooter u message c = Println (''  '' @ Muted u (utf8 [226, 150, 184]) @ '' '' @ Muted u message) (Println [] c)"

definition FormatError :: "ui_env \<Rightarrow> string \<Rightarrow> string list \<Rightarrow> string" where
  "FormatError u err solutions =
     (let lines = [Error u ((utf8 [226, 156, 151] @ '' Error: '') @ err), []];
          lines = (if solutions \<noteq> []
                   then lines @ [Muted u ''Possible solutions:''] @ map (\<lambda>s. Muted u ((''  '' @ utf8 [226, 128, 162] @ '' '') @ s)) solutions @ [[]]
                   else lines)
      in join nl (lines @ [Muted u (''Docs: '' @ FormatDocsLink u ''/troubleshooting'' ''signal.org/docs'')]))"

definition LogGracefulShutdown :: "ui_env \<Rightarrow> console_state \<Rightarrow> console_state" where
  "LogGracefulShutdown u c = Println (''  '' @ Muted u (utf8 [226, 156, 139]) @ '' '' @ Muted u ''Cancelled'') (Println [] c)"

section \<open>Notes\<close>

text \<open>
  \<^verbatim>\<open>Note\<close>: the wrapped message in a box. The rule after the title has the length
  \<^verbatim>\<open>boxWidth-4-VisibleWidth(title)\<close> and panics when the title is wider than the message.
\<close>

definition note_lines :: "ui_env \<Rightarrow> string \<Rightarrow> string list" where
  "note_lines u message = split_on (char_of (10 :: nat)) (WrapNoteMessage (ue_columns u) message 80)"

definition note_maxWidth :: "string list \<Rightarrow> int" where
  "note_maxWidth lines = fold (\<lambda>line m. let w = VisibleWidth line in if w > m then w else m) lines 0"

definition note_top :: "ui_env \<Rightarrow> string \<Rightarrow> int \<Rightarrow> string option" where
  "note_top u title boxWidth =
     (if title \<noteq> []
      then let styledTitle = (if IsRich u then Heading u title else title)
           in case repeat_string boxHorizontal (boxWidth - 4 - VisibleWidth title) of
                None \<Rightarrow> None
              | Some r \<Rightarrow> Some (Muted u boxTopLeft @ Muted u (rule_of 2) @ '' '' @ styledTitle @ '' '' @ Muted u r @
                               Muted u boxTopRight)
      else case repeat_string boxHorizontal boxWidth of
             None \<Rightarrow> None
           | Some r \<Rightarrow> Some (Muted u (boxTopLeft @ r @ boxTopRight)))"

definition note_row :: "ui_env \<Rightarrow> int \<Rightarrow> string \<Rightarrow> string" where
  "note_row u boxWidth line =
     (let padding = boxWidth - VisibleWidth line - 2; padding = (if padding < 0 then 0 else padding)
      in Muted u boxVertical @ '' '' @ line @ spaces padding @ '' '' @ Muted u boxVertical)"

definition Note :: "ui_env \<Rightarrow> string \<Rightarrow> string \<Rightarrow> console_state \<Rightarrow> console_state \<times> bool" where
  "Note u message title c =
     (let lines = note_lines u message;
          c = Println [] c;
          boxWidth = note_maxWidth lines + 4
      in case note_top u title boxWidth of
           None \<Rightarrow> (c, False)
         | Some topLine \<Rightarrow>
             (case repeat_string boxHorizontal boxWidth of
                None \<Rightarrow> (fold Println (topLine # map (note_row u boxWidth) lines) c, False)
              | Some r \<Rightarrow>
                  (fold Println (topLine # map (note_row u boxWidth) lines @ [Muted u (boxBottomLeft @ r @ boxBottomRight), []]) c, True)))"

definition InfoNote :: "ui_env \<Rightarrow> string \<Rightarrow> console_state \<Rightarrow> console_state \<times> bool" where
  "InfoNote u message = Note u message (utf8 [226, 132, 185] @ '' Info'')"

definition WarningNote :: "ui_env \<Rightarrow> string \<Rightarrow> console_state \<Rightarrow> console_state \<times> bool" where
  "WarningNote u message = Note u message (utf8 [226, 154, 160] @ '' Warning'')"

definition ErrorNote :: "ui_env \<Rightarrow> string \<Rightarrow> console_state \<Rightarrow> console_state \<times> bool" where
  "ErrorNote u message = Note u message (utf8 [226, 156, 151] @ '' Error'')"

definition SuccessNote :: "ui_env \<Rightarrow> string \<Rightarrow> console_state \<Rightarrow> console_state \<times> bool" where
  "SuccessNote u message = Note u message (utf8 [226, 156, 147] @ '' Success'')"

section \<open>The two-column table of table.go\<close>

text \<open>Go visits a map in an unspecified order, which is the argument \<open>order\<close>, a list of the keys.\<close>

definition RenderSimpleTable :: "ui_env \<Rightarrow> (string \<Rightarrow> string) \<Rightarrow> string list \<Rightarrow> string" where
  "RenderSimpleTable u data order =
     (let maxKey = fold (\<lambda>k m. if int (length k) > m then int (length k) else m) order 0
      in join nl (map (\<lambda>k. ''  '' @ Muted u (PadRight (k @ '':'') (maxKey + 1)) @ ''  '' @ Subtle u (data k)) order))"

section \<open>Visible text\<close>

text \<open>
  A styled text: plain characters with SGR sequences (\<^verbatim>\<open>ESC [ ... m\<close>) between them. The contract of the colour
  library: \<^verbatim>\<open>Sprint\<close> adds such sequences to a text and nothing else (with colours off, nothing at all).
\<close>

definition is_sgr :: "string \<Rightarrow> bool" where
  "is_sgr q \<longleftrightarrow> (\<exists>ps. q = [esc, CHR ''['' ] @ ps @ ''m'' \<and> list_all (\<lambda>c. is_digit c \<or> c = CHR '';'') ps)"

inductive styled :: "string \<Rightarrow> string \<Rightarrow> bool" where
  Empty: "styled [] []"
| Plain: "styled s p \<Longrightarrow> c \<noteq> esc \<Longrightarrow> styled (c # s) (c # p)"
| Sgr: "styled s p \<Longrightarrow> is_sgr q \<Longrightarrow> styled (q @ s) p"

definition sgr_colours :: "ui_env \<Rightarrow> bool" where
  "sgr_colours u \<longleftrightarrow> (\<forall>as s p. styled s p \<longrightarrow> styled (ue_Sprint u as s) p)"

lemma styled_append: "styled s p \<Longrightarrow> styled s' p' \<Longrightarrow> styled (s @ s') (p @ p')"
  by (induction rule: styled.induct) (auto intro: styled.intros)

lemma styled_plain: "plain_text s \<Longrightarrow> styled s s"
  by (induction s) (auto simp: plain_text_def intro: styled.intros)

lemma styled_visible: "styled s p \<Longrightarrow> plain_text p"
  by (induction rule: styled.induct) (auto simp: plain_text_def)

lemma esc_neq: "esc \<noteq> CHR ''m''" "esc \<noteq> CHR '';''" "\<not> is_digit esc" "esc \<noteq> CHR ''[''" "esc \<noteq> CHR '' ''"
  by (simp_all add: esc_def char_of_def bit_Suc_0_iff is_digit_def)

lemma match_sgr_seq: "is_sgr q \<Longrightarrow> match_sgr (q @ s) = Some s"
proof -
  assume "is_sgr q"
  then obtain ps where q: "q = [esc, CHR ''['' ] @ ps @ ''m''" "list_all (\<lambda>c. is_digit c \<or> c = CHR '';'') ps"
    by (auto simp: is_sgr_def)
  have "dropWhile (\<lambda>c. is_digit c \<or> c = CHR '';'') (ps @ ''m'' @ s) = ''m'' @ s"
    using q(2) by (induction ps) (auto simp: is_digit_def)
  then show ?thesis by (simp add: match_sgr_def has_prefix_def q(1))
qed

lemma strip_osc8_plain_append: "esc \<notin> set p \<Longrightarrow> strip_osc8 (p @ s) = p @ strip_osc8 s"
  by (induction p) (auto simp: match_needs_esc)

lemma strip_osc8_sgr: "is_sgr q \<Longrightarrow> strip_osc8 (q @ s) = q @ strip_osc8 s"
proof -
  assume "is_sgr q"
  then obtain ps where q: "q = esc # (''['' @ ps @ ''m'')" "list_all (\<lambda>c. is_digit c \<or> c = CHR '';'') ps"
    by (auto simp: is_sgr_def)
  have "match_osc8 (q @ s) = None" by (simp add: match_osc8_def has_prefix_def q(1))
  moreover have "esc \<notin> set (''['' @ ps @ ''m'')" using q(2) esc_neq by (auto simp: list_all_iff)
  ultimately show ?thesis using strip_osc8_plain_append [of "''['' @ ps @ ''m''" s] by (simp add: q(1))
qed

lemma StripAnsi_styled: "styled s p \<Longrightarrow> StripAnsi s = p"
proof -
  assume s: "styled s p"
  then have "strip_osc8 s = s"
    by (induction rule: styled.induct) (simp_all add: match_needs_esc strip_osc8_sgr)
  moreover have "strip_sgr s = p" using s
  proof (induction rule: styled.induct)
    case (Sgr s p q)
    then obtain c r where "q = c # r" by (auto simp: is_sgr_def)
    then show ?case using Sgr match_sgr_seq [of q s] by simp
  qed (simp_all add: match_needs_esc)
  ultimately show ?thesis by (simp add: StripAnsi_def)
qed

lemma VisibleWidth_styled: "styled s p \<Longrightarrow> VisibleWidth s = RuneCount p"
  by (simp add: VisibleWidth_def StripAnsi_styled)

lemma styled_colour: "sgr_colours u \<Longrightarrow> styled s p \<Longrightarrow> styled (ue_Sprint u as s) p"
  by (simp add: sgr_colours_def)

lemma styled_themes:
  assumes "sgr_colours u" "styled s p"
  shows "styled (Success u s) p" "styled (Error u s) p" "styled (Warn u s) p" "styled (Info u s) p" "styled (Subtle u s) p"
    "styled (Muted u s) p" "styled (Primary u s) p" "styled (Secondary u s) p" "styled (Heading u s) p"
  using assms by (simp_all add: colour_defs styled_colour)

text \<open>A log line shows its time stamp, an icon and the message, with any colours.\<close>

definition status_icon :: "string \<Rightarrow> string" where
  "status_icon category =
     (if category = ''success'' then (utf8 [226, 156, 147]) else if category = ''error'' then (utf8 [226, 156, 151])
      else if category = ''warning'' \<or> category = ''warn'' then (utf8 [226, 154, 160]) else if category = ''info'' then (utf8 [226, 132, 185]) else (utf8 [226, 151, 143]))"

lemma plain_utf8: "list_all (\<lambda>b. b \<noteq> 27 \<and> b < 256) bs \<Longrightarrow> plain_text (utf8 bs)"
proof (induction bs)
  case (Cons b bs)
  then have b: "b mod 256 = b" "b \<noteq> 27" by simp_all
  have "(of_char (char_of b :: char) :: nat) \<noteq> of_char esc" using b by (simp add: esc_def)
  then have "char_of b \<noteq> esc" by metis
  then show ?case using Cons by (simp add: utf8_def plain_text_def)
qed (simp add: utf8_def plain_text_def)

lemma plain_icon: "plain_text (status_icon category)"
  by (simp add: status_icon_def plain_utf8)

lemma digit_char_not_esc: "n < 10 \<Longrightarrow> digit_char n \<noteq> esc"
  using is_digit_digit_char [of n] esc_neq(3) by metis

lemma plain_clock: "plain_text (clock_text off now)"
proof -
  have "plain_text (pad2 n)" for n
    using digit_char_not_esc [of "nat (n div 10 mod 10)"] digit_char_not_esc [of "nat (n mod 10)"]
    by (auto simp: pad2_def plain_text_def nat_less_iff)
  then show ?thesis
    by (simp add: clock_text_def Let_def) (simp add: plain_text_def esc_def char_of_def bit_Suc_0_iff)
qed

lemma LogStatus_visible:
  assumes "sgr_colours u" "styled message m"
  shows "\<exists>line. co_out (LogStatus u now category message c) = co_out c @ line @ nl \<and>
    StripAnsi line = clock_text (ue_off u) now @ ''  '' @ status_icon category @ ''  '' @ m"
proof -
  obtain icon msg where st: "status_style u category message = (icon, msg)" by fastforce
  have icon: "styled icon (status_icon category)" and msg: "styled msg m"
    using st styled_themes [OF assms(1) assms(2)] styled_themes [OF assms(1) styled_plain, OF plain_icon, of category]
    by (auto simp: status_style_def status_icon_def split: if_splits)
  have sp: "styled ''  '' ''  ''" by (rule styled_plain) (simp add: plain_text_def esc_neq)
  have "styled (log_ts u now) (clock_text (ue_off u) now)"
    unfolding log_ts_def by (rule styled_themes(6) [OF assms(1) styled_plain [OF plain_clock]])
  then have "styled (log_ts u now @ ''  '' @ icon @ ''  '' @ msg) (clock_text (ue_off u) now @ ''  '' @ status_icon category @ ''  '' @ m)"
    by (intro styled_append sp icon msg)
  then show ?thesis using st by (auto simp: LogStatus_def Println_def Print_def StripAnsi_styled)
qed

section \<open>What never panics\<close>

lemma repeat_string_returns: "repeat_string s n \<noteq> None \<longleftrightarrow> 0 \<le> n"
  by (simp add: repeat_string_def)

lemma LogSection_returns: "snd (LogSection u title c) \<longleftrightarrow> length title \<le> 50" "snd (LogGroup u title c) \<longleftrightarrow> length title \<le> 50"
  by (auto simp: LogSection_def LogGroup_def repeat_string_def Let_def)

lemma EmitSimpleBanner_returns: "length tagline \<le> 58 \<Longrightarrow> snd (EmitSimpleBanner u version tagline c)"
  by (simp add: EmitSimpleBanner_def repeat_string_def Let_def)

lemma EmitSimpleBanner_once:
  "co_bannerEmitted c \<Longrightarrow> EmitSimpleBanner u version tagline c = (c, True)"
  "EmitSimpleBanner u version tagline c = (c', True) \<Longrightarrow> ue_tty u \<Longrightarrow> co_bannerEmitted c'"
  by (auto simp: EmitSimpleBanner_def repeat_string_def Let_def split: if_splits)

text \<open>The order in which the map of holidays is visited does not matter.\<close>

lemma holiday_dates: "distinct (map (\<lambda>r. (tl_month r, tl_day r)) (concat holidayTaglines))"
  by (simp add: holidayTaglines_def)

lemma find_unique:
  assumes "set xs = set ys" "inj_on f (set ys)"
  shows "List.find (\<lambda>x. f x = d) xs = List.find (\<lambda>x. f x = d) ys"
proof (cases "List.find (\<lambda>x. f x = d) ys")
  case None
  moreover from this have "List.find (\<lambda>x. f x = d) xs = None" using assms(1) by (simp add: find_None_iff)
  ultimately show ?thesis by simp
next
  case (Some y)
  then have y: "y \<in> set ys" "f y = d" by (auto simp: find_Some_iff)
  then obtain x where x: "List.find (\<lambda>x. f x = d) xs = Some x"
    using assms(1) find_None_iff [of "\<lambda>x. f x = d" xs] by (cases "List.find (\<lambda>x. f x = d) xs") auto
  then have "x \<in> set xs" "f x = d" by (auto simp: find_Some_iff)
  then have "x = y" using y assms inj_onD [OF assms(2), of x y] by simp
  then show ?thesis using x Some by simp
qed

lemma holiday_order:
  assumes "set groups = set holidayTaglines"
  shows "PickTagline groups date n = PickTagline holidayTaglines date n"
proof -
  have "inj_on (\<lambda>r. (tl_month r, tl_day r)) (set (concat holidayTaglines))"
    using holiday_dates by (metis distinct_map)
  then show ?thesis
    using find_unique [of "concat groups" "concat holidayTaglines" "\<lambda>r. (tl_month r, tl_day r)" date] assms
    by (cases date) (simp add: PickTagline_def)
qed

lemma tagline_short: "n < length taglines \<Longrightarrow> length (PickTagline holidayTaglines date n) \<le> 58"
proof -
  assume n: "n < length taglines"
  have t: "list_all (\<lambda>t. length t \<le> 58) taglines" by (simp add: taglines_def)
  have h: "list_all (\<lambda>r. length (tl_tagline r) \<le> 58) (concat holidayTaglines)"
    by (simp add: holidayTaglines_def utf8_def)
  have "length (tl_tagline r) \<le> 58" if "List.find P (concat holidayTaglines) = Some r" for r P
  proof -
    have "r \<in> set (concat holidayTaglines)" using that by (metis find_Some_iff nth_mem)
    then show ?thesis using h unfolding list_all_iff by blast
  qed
  then show ?thesis using t n by (auto simp: PickTagline_def list_all_iff split: option.split)
qed

text \<open>The banner of the program is printed whatever the date and the number drawn.\<close>

lemma PrintBanner_returns:
  assumes "set groups = set holidayTaglines" "n < length taglines"
  shows "snd (PrintBanner u groups date n c)"
  unfolding PrintBanner_def holiday_order [OF assms(1)]
  by (rule EmitSimpleBanner_returns [OF tagline_short [OF assms(2)]])

section \<open>Boxes\<close>

text \<open>The words of a line and the lines of a wrapped message have no characters of their own but blanks.\<close>

lemma fields_from_chars: "w \<in> set (fields_from word s) \<Longrightarrow> set w \<subseteq> set word \<union> set s"
proof (induction word s rule: fields_from.induct)
  case (1 word)
  then show ?case by (simp split: if_split_asm)
next
  case (2 word c s)
  show ?case
  proof (cases "List.find (\<lambda>p. p \<noteq> [] \<and> has_prefix (c # s) p) space_seqs")
    case None
    then have "w \<in> set (fields_from (c # word) s)" using 2(3) by (simp only: fields_from.simps(2) option.case)
    then show ?thesis using 2(1) [OF None] by auto
  next
    case (Some p)
    then have "w \<in> set ((if word = [] then [] else [rev word]) @ fields_from [] (drop (length p) (c # s)))"
      using 2(3) by (simp only: fields_from.simps(2) option.case)
    then have "w = rev word \<or> w \<in> set (fields_from [] (drop (length p) (c # s)))" by (auto split: if_split_asm)
    then show ?thesis
    proof
      assume "w \<in> set (fields_from [] (drop (length p) (c # s)))"
      then have "set w \<subseteq> set (drop (length p) (c # s))" using 2(2) [OF Some] by simp
      then show ?thesis using set_drop_subset [of "length p" "c # s"] by blast
    qed auto
  qed
qed

lemma wrapLine_chars: "l \<in> set (wrapLine line m) \<Longrightarrow> set l \<subseteq> insert (CHR '' '') (set line)"
proof -
  define ok where "ok lc \<longleftrightarrow> (\<forall>l \<in> insert (snd lc) (set (fst lc)). set l \<subseteq> insert (CHR '' '') (set line))" for lc :: "string list \<times> string"
  have step: "ok (wrap_word m w lc)" if "ok lc" "set w \<subseteq> set line" for w lc
    using that by (cases lc) (auto simp: ok_def wrap_word_def Let_def)
  have fold: "ok (fold (wrap_word m) ws lc)" if "ok lc" "\<forall>w \<in> set ws. set w \<subseteq> set line" for ws lc
    using that
  proof (induction ws arbitrary: lc)
    case (Cons w ws)
    then show ?case using step [of lc w] by simp
  qed simp
  have words: "\<forall>w \<in> set (Fields line). set w \<subseteq> set line" using fields_from_chars [of _ "[]" line] by (auto simp: Fields_def)
  have "ok (fold (wrap_word m) (Fields line) ([], []))" by (rule fold) (use words in \<open>auto simp: ok_def\<close>)
  moreover assume "l \<in> set (wrapLine line m)"
  ultimately show ?thesis by (auto simp: ok_def wrapLine_def Let_def case_prod_beta split: if_splits)
qed

lemma join_chars: "x \<in> set (join sep ls) \<Longrightarrow> x \<in> set sep \<or> (\<exists>l \<in> set ls. x \<in> set l)"
  by (induction sep ls rule: join.induct) auto

lemma split_on_chars: "l \<in> set (split_on c s) \<Longrightarrow> x \<in> set l \<Longrightarrow> x \<in> set s"
proof -
  assume "l \<in> set (split_on c s)" "x \<in> set l"
  moreover have "join [c] (split_on c s) = s" by (rule join_split_on)
  moreover have "y \<in> set l' \<Longrightarrow> l' \<in> set ls \<Longrightarrow> y \<in> set (join [c] ls)" for y l' ls
    by (induction "[c]" ls rule: join.induct) auto
  ultimately show ?thesis by metis
qed

lemma note_lines_plain: "plain_text message \<Longrightarrow> l \<in> set (note_lines u message) \<Longrightarrow> plain_text l"
proof -
  assume m: "plain_text message" and l: "l \<in> set (note_lines u message)"
  have "esc \<notin> set (WrapNoteMessage (ue_columns u) message 80)"
  proof
    assume "esc \<in> set (WrapNoteMessage (ue_columns u) message 80)"
    then have "\<exists>line \<in> set (split_on (char_of (10 :: nat)) message). \<exists>w \<in> set (wrapLine line (note_width (ue_columns u) 80)). esc \<in> set w"
      unfolding WrapNoteMessage_def by (force dest!: join_chars simp: esc_def)
    then show False using wrapLine_chars split_on_chars m esc_neq(5) by (fastforce simp: plain_text_def)
  qed
  then show ?thesis using l split_on_chars by (auto simp: note_lines_def plain_text_def)
qed

lemma note_maxWidth_ge: "l \<in> set lines \<Longrightarrow> VisibleWidth l \<le> note_maxWidth lines" "0 \<le> note_maxWidth lines"
proof -
  have step: "(\<lambda>line m. let w = VisibleWidth line in if w > m then w else m) = (\<lambda>line m. max m (VisibleWidth line))"
    by (auto simp: fun_eq_iff Let_def)
  show "l \<in> set lines \<Longrightarrow> VisibleWidth l \<le> note_maxWidth lines" "0 \<le> note_maxWidth lines"
    unfolding note_maxWidth_def step by (auto intro: fold_max_ge fold_max_start)
qed

lemma drawn_glyphs: "glyph (utf8 [226, m, n])" if "128 \<le> m" "m \<le> 191" "128 \<le> n" "n \<le> 191" for m n
proof -
  have "of_char (char_of m :: char) = m" "of_char (char_of n :: char) = n" using that by simp_all
  then show ?thesis using that
    by (simp add: glyph_def utf8_def plain_text_def rune_start_def RuneCount_def rune_len_def Let_def byte_in_def esc_def)
qed

lemma note_glyphs: "glyph boxTopLeft" "glyph boxTopRight" "glyph boxBottomLeft" "glyph boxBottomRight" "glyph boxHorizontal" "glyph boxVertical"
  by (simp_all add: box_defs drawn_glyphs)

lemma RuneCount_glyph_append: "glyph g \<Longrightarrow> rune_start s \<Longrightarrow> RuneCount (g @ s) = 1 + RuneCount s"
  by (simp add: RuneCount_append glyph_def)

lemma glyph_start: "glyph g \<Longrightarrow> rune_start (g @ s)"
  by (cases g) (auto simp: glyph_def rune_start_def)

text \<open>A rule of a box: a corner, any number of horizontal strokes, a corner.\<close>

lemma note_rule:
  assumes "glyph a" "glyph b" "repeat_string boxHorizontal n = Some r"
  shows "plain_text (a @ r @ b)" "RuneCount (a @ r @ b) = n + 2"
proof -
  have r: "r = concat (replicate (nat n) boxHorizontal)" "0 \<le> n" using assms(3) by (auto simp: repeat_string_def split: if_splits)
  have "plain_text r \<and> RuneCount r = n \<and> rune_start (r @ b)"
    using RuneCount_rule_part [OF note_glyphs(5), of "nat n"] r glyph_start [OF assms(2), of "[]"] rune_start_append
    by (auto simp: glyph_def)
  then show "plain_text (a @ r @ b)" "RuneCount (a @ r @ b) = n + 2"
    using assms(1,2) RuneCount_append [of b r] by (auto simp: RuneCount_glyph_append glyph_def)
qed

lemma RuneCount_blank [simp]: "RuneCount (CHR '' '' # s) = 1 + RuneCount s" "rune_start (CHR '' '' # s)"
  by (simp_all add: RuneCount_Cons rune_start_ascii)

lemma plain_blank [simp]: "plain_text (CHR '' '' # s) = plain_text s" "plain_text []"
  by (auto simp: plain_text_def esc_neq)

lemma glyph_plain: "glyph g \<Longrightarrow> plain_text g" "glyph g \<Longrightarrow> RuneCount g = 1" "glyph g \<Longrightarrow> rune_start g"
  by (simp_all add: glyph_def)

lemma note_row_width:
  assumes "sgr_colours u" "plain_text line" "VisibleWidth line \<le> w"
  shows "VisibleWidth (note_row u (w + 4) line) = w + 6"
proof -
  let ?sp = "spaces (w + 2 - RuneCount line)"
  have line: "VisibleWidth line = RuneCount line" by (rule VisibleWidth_plain [OF assms(2)])
  have v: "styled (Muted u boxVertical) boxVertical"
    by (rule styled_themes(6) [OF assms(1) styled_plain]) (simp add: glyph_plain note_glyphs)
  have mid: "styled ('' '' @ line @ ?sp @ '' '') ('' '' @ line @ ?sp @ '' '')" by (rule styled_plain) (simp add: assms(2))
  have "note_row u (w + 4) line = Muted u boxVertical @ ('' '' @ line @ ?sp @ '' '') @ Muted u boxVertical"
    using assms(3) by (simp add: note_row_def Let_def line algebra_simps)
  then have "styled (note_row u (w + 4) line) (boxVertical @ ('' '' @ line @ ?sp @ '' '') @ boxVertical)"
    using styled_append [OF v styled_append [OF mid v]] by simp
  then have "VisibleWidth (note_row u (w + 4) line) = RuneCount (boxVertical @ '' '' @ line @ ?sp @ '' '' @ boxVertical)"
    by (simp add: VisibleWidth_styled)
  also have "\<dots> = w + 6"
  proof -
    have start: "rune_start (?sp @ '' '' @ boxVertical)" by (rule rune_start_append) simp_all
    show ?thesis using assms(3) RuneCount_append [OF start, of line]
      by (simp add: RuneCount_glyph_append note_glyphs glyph_plain line)
  qed
  finally show ?thesis .
qed

lemma note_top_width:
  assumes "sgr_colours u" "plain_text title" "note_top u title (w + 4) = Some t"
  shows "VisibleWidth t = w + 6"
proof (cases "title = []")
  case True
  then obtain r where r: "repeat_string boxHorizontal (w + 4) = Some r" "t = Muted u (boxTopLeft @ r @ boxTopRight)"
    using assms(3) by (auto simp: note_top_def split: option.splits)
  note rule = note_rule [OF note_glyphs(1,2) r(1)]
  show ?thesis
    using VisibleWidth_styled [OF styled_themes(6) [OF assms(1) styled_plain [OF rule(1)]]] rule(2) by (simp add: r(2))
next
  case False
  let ?title = "if IsRich u then Heading u title else title"
  obtain r where r: "repeat_string boxHorizontal (w - VisibleWidth title) = Some r"
    "t = Muted u boxTopLeft @ Muted u (rule_of 2) @ ('' '' @ ?title @ '' '') @ Muted u r @ Muted u boxTopRight"
    using assms(3) False by (auto simp: note_top_def Let_def split: option.splits)
  note rule = note_rule [OF note_glyphs(1,2) r(1)]
  have two: "plain_text (rule_of 2)" "RuneCount (rule_of 2) = 2" "rune_start (rule_of 2)"
    using RuneCount_rule_part [OF note_glyphs(5), of 2] by (simp_all add: rule_of_def)
  have muted: "plain_text p \<Longrightarrow> styled (Muted u p) p" for p by (rule styled_themes(6) [OF assms(1) styled_plain])
  have title: "styled ('' '' @ ?title @ '' '') ('' '' @ title @ '' '')"
    using styled_themes(9) [OF assms(1) styled_plain [OF assms(2)]] styled_plain [OF assms(2)]
      styled_plain [of "'' ''"] by (intro styled_append) simp_all
  have "styled t (boxTopLeft @ rule_of 2 @ ('' '' @ title @ '' '') @ r @ boxTopRight)"
    unfolding r(2) using rule(1) two(1) note_glyphs by (intro styled_append muted title) (simp_all add: glyph_plain)
  then have "VisibleWidth t = RuneCount (boxTopLeft @ rule_of 2 @ '' '' @ title @ '' '' @ r @ boxTopRight)"
    by (simp add: VisibleWidth_styled)
  also have "\<dots> = 1 + (2 + (1 + (RuneCount title + (1 + RuneCount (r @ boxTopRight)))))"
    using two by (simp add: RuneCount_glyph_append note_glyphs rune_start_append RuneCount_append)
  also have "\<dots> = w + 6"
  proof -
    have "rune_start (r @ boxTopRight)"
      using r(1) RuneCount_rule_part [OF note_glyphs(5), of "nat (w - VisibleWidth title)"] glyph_start [OF note_glyphs(2), of "[]"]
      by (auto simp: repeat_string_def rune_start_append split: if_splits)
    then show ?thesis
      using rule(2) by (simp add: RuneCount_glyph_append note_glyphs VisibleWidth_plain [OF assms(2)])
  qed
  finally show ?thesis .
qed

lemma fold_Println: "co_out (fold Println ls c) = co_out c @ concat (map (\<lambda>l. l @ nl) ls)"
  by (induction ls arbitrary: c) (simp_all add: Println_def Print_def)

text \<open>
  A note is a box whose lines have one visible width, the widest line of the message and six, whatever the
  colours. It panics exactly when its title is wider than its message, so \<^verbatim>\<open>InfoNote\<close> of a word of fewer
  than six characters does.
\<close>

lemma note_box:
  assumes "sgr_colours u" "plain_text message" "plain_text title" and w: "w = note_maxWidth (note_lines u message)"
  shows "snd (Note u message title c) \<longleftrightarrow> VisibleWidth title \<le> w"
    and "VisibleWidth title \<le> w \<Longrightarrow>
      \<exists>box. co_out (fst (Note u message title c)) = co_out c @ nl @ concat (map (\<lambda>l. l @ nl) box) @ nl \<and>
        length box = length (note_lines u message) + 2 \<and> list_all (\<lambda>l. VisibleWidth l = w + 6) box"
proof -
  have pos: "0 \<le> w" by (simp add: w note_maxWidth_ge)
  then obtain r where r: "repeat_string boxHorizontal (w + 4) = Some r" by (simp add: repeat_string_def)
  have none: "note_top u title (w + 4) = None \<longleftrightarrow> w < VisibleWidth title"
    using pos r by (auto simp: note_top_def repeat_string_def Let_def VisibleWidth_plain [of "[]"] split: option.splits if_splits)
  show "snd (Note u message title c) \<longleftrightarrow> VisibleWidth title \<le> w"
    using none r by (auto simp: Note_def Let_def w split: option.splits)
  assume "VisibleWidth title \<le> w"
  then obtain t where t: "note_top u title (w + 4) = Some t" using none by fastforce
  let ?bottom = "Muted u (boxBottomLeft @ r @ boxBottomRight)"
  let ?box = "t # map (note_row u (w + 4)) (note_lines u message) @ [?bottom]"
  note rule = note_rule [OF note_glyphs(3,4) r]
  have "VisibleWidth ?bottom = w + 6"
    using VisibleWidth_styled [OF styled_themes(6) [OF assms(1) styled_plain [OF rule(1)]]] rule(2) by simp
  moreover have "VisibleWidth t = w + 6" by (rule note_top_width [OF assms(1,3) t])
  moreover have "VisibleWidth (note_row u (w + 4) l) = w + 6" if "l \<in> set (note_lines u message)" for l
    using note_row_width [OF assms(1) note_lines_plain [OF assms(2) that]] note_maxWidth_ge(1) [OF that] by (simp add: w)
  ultimately have "list_all (\<lambda>l. VisibleWidth l = w + 6) ?box" by (simp add: list_all_iff)
  moreover have "co_out (fst (Note u message title c)) = co_out c @ nl @ concat (map (\<lambda>l. l @ nl) ?box) @ nl"
    using t r by (simp add: Note_def Let_def flip: w) (simp add: fold_Println Println_def Print_def)
  ultimately show "\<exists>box. co_out (fst (Note u message title c)) = co_out c @ nl @ concat (map (\<lambda>l. l @ nl) box) @ nl \<and>
      length box = length (note_lines u message) + 2 \<and> list_all (\<lambda>l. VisibleWidth l = w + 6) box"
    by (intro exI [of _ ?box]) simp
qed

section \<open>Links and sizes\<close>

text \<open>What a reader sees of a link: the label, with the address after it when the terminal has no hyperlinks.\<close>

lemma FormatTerminalLink_visible:
  assumes "plain_text label" "plain_text url"
  shows "StripAnsi (FormatTerminalLink u label url) = (if SupportsHyperlinks u then label else label @ '' ('' @ url @ '')'')"
proof (cases "SupportsHyperlinks u")
  case True
  let ?st = "[esc, char_of (92 :: nat)]"
  have url: "dropWhile (\<lambda>c. c \<noteq> esc) (url @ esc # s) = esc # s" for s
    using assms(2) by (induction url) (auto simp: plain_text_def)
  have open_link: "match_osc8 (esc # '']8;;'' @ url @ ?st @ s) = Some s" for s
    by (simp add: match_osc8_def has_prefix_def url)
  have close_link: "match_osc8 (esc # '']8;;'' @ ?st) = Some []"
    by (simp add: match_osc8_def has_prefix_def)
  have "strip_osc8 (esc # '']8;;'' @ ?st) = []" using close_link by simp
  then have "strip_osc8 (label @ esc # '']8;;'' @ ?st) = label"
    using strip_osc8_plain_append [of label] assms(1) by (simp add: plain_text_def)
  then have "strip_osc8 (esc # '']8;;'' @ url @ ?st @ label @ esc # '']8;;'' @ ?st) = label"
    using open_link [of "label @ esc # '']8;;'' @ ?st"] by simp
  then show ?thesis using True assms(1) by (simp add: FormatTerminalLink_def StripAnsi_def plain_text_def strip_plain)
next
  case False
  have "plain_text (label @ '' ('' @ url @ '')'')" using assms by (simp add: plain_text_def esc_def char_of_def bit_Suc_0_iff)
  then show ?thesis using False by (simp add: FormatTerminalLink_def StripAnsi_styled styled_plain)
qed

text \<open>The sizes of the relay log are the exact quotients, rounded once to a tenth.\<close>

lemma ui_formatBytes_exact:
  assumes "0 \<le> b" "b < 2 ^ 53"
  shows "ui_formatBytes b =
    (if b < 2 ^ 10 then int_dec b @ ''B''
     else if b < 2 ^ 20 then fmt_f1 (of_int b / 2 ^ 10) @ ''KB''
     else if b < 2 ^ 30 then fmt_f1 (of_int b / 2 ^ 20) @ ''MB''
     else fmt_f1 (of_int b / 2 ^ 30) @ ''GB'')"
proof -
  have q: "of_int b / 2 ^ k = fdiv (float64 b) (2 ^ k)" for k using assms fl64_dyadic [of b k] by (simp add: fdiv_def)
  show ?thesis unfolding q by (simp add: ui_formatBytes_def Let_def)
qed
end
