(* ===== verification/App.thy ===== *)
theory App
  imports Http_Proxy Socks5 Sni_Server Metrics Ui_Console
begin

text \<open>
  \<^verbatim>\<open>cmd/proxy/main.go\<close>: loading the configuration, choosing the mode, building the components and
  wiring them together, and what is left on disk when the process ends. \<open>app_env\<close> holds what the
  operating system answers; \<open>ap_serve\<close> is what the connections served do to the tracker, and whether
  serving ends with an error. \<open>ap_groups\<close> is the order in which Go visits the map of holidays and \<open>ap_draw\<close> the
  number drawn for the tagline. \<open>ar_log\<close> holds the lines that \<^verbatim>\<open>main.go\<close>, the metrics server and the start of the SNI
  server give to \<^verbatim>\<open>ui.LogStatus\<close>, category and message, without the texts of the library's errors; the lines of
  the listeners, of single connections and of the shutdown are left out.
\<close>

section \<open>Paths\<close>

text \<open>
  \<^verbatim>\<open>path/filepath\<close> on Unix. \<open>Clean\<close> drops empty and \<^verbatim>\<open>.\<close> elements and lets \<^verbatim>\<open>..\<close> cancel the element before
  it; \<open>done\<close> holds the elements kept so far, the last one first.
\<close>

fun clean_elems :: "bool \<Rightarrow> string list \<Rightarrow> string list \<Rightarrow> string list" where
  "clean_elems rooted done [] = rev done"
| "clean_elems rooted done (e # es) =
     (if e = [] \<or> e = ''.'' then clean_elems rooted done es
      else if e = ''..'' then
        if done \<noteq> [] \<and> hd done \<noteq> ''..'' then clean_elems rooted (tl done) es
        else if rooted then clean_elems rooted done es
        else clean_elems rooted (e # done) es
      else clean_elems rooted (e # done) es)"

definition Clean :: "string \<Rightarrow> string" where
  "Clean p =
     (if p = [] then ''.''
      else let rooted = (hd p = CHR ''/''); es = clean_elems rooted [] (split_on (CHR ''/'') p)
           in if rooted then ''/'' @ join ''/'' es else if es = [] then ''.'' else join ''/'' es)"

definition Dir :: "string \<Rightarrow> string" where
  "Dir p = Clean (case last_index_byte p (CHR ''/'') of None \<Rightarrow> [] | Some i \<Rightarrow> take (i + 1) p)"

definition Join :: "string list \<Rightarrow> string" where
  "Join es = (let es = filter (\<lambda>e. e \<noteq> []) es in if es = [] then [] else Clean (join ''/'' es))"

section \<open>The program\<close>

record app_env =
  ap_uni :: "string \<Rightarrow> string"
  ap_getenv :: "string \<Rightarrow> string"
  ap_file :: "ConfigFile option"
  ap_absent :: "string \<Rightarrow> bool"
  ap_deps :: deps
  ap_users :: "string \<Rightarrow> users_file"
  ap_order :: "string list"
  ap_disk :: "string \<Rightarrow> usage_disk"
  ap_wr :: writer
  ap_off :: int
  ap_now :: time
  ap_listens :: "string \<Rightarrow> bool"
  ap_keypair :: "string \<Rightarrow> string \<Rightarrow> bool"
  ap_socks_turns :: "accept_turn list"
  ap_serve :: "Tracker \<Rightarrow> Tracker \<times> bool"
  ap_sni :: "srv_phase"
  ap_ui :: ui_env
  ap_groups :: "taglineRule list list"
  ap_draw :: nat

text \<open>
  How the process ends: \<open>Exited\<close> by \<^verbatim>\<open>os.Exit(1)\<close>, \<open>Fatal\<close> by \<^verbatim>\<open>log.Fatal\<close> (neither runs deferred calls),
  \<open>Returned\<close> from \<^verbatim>\<open>main\<close>, or with a panic. \<open>ar_usage\<close> is the usage file when a tracker was built, and \<open>ar_metrics\<close> the metrics server as it was
  started; both servers in the background log their errors when they start, here in the order of the calls.
\<close>

datatype app_end = Exited | Fatal | Returned | Panicked

record app_result =
  ar_end :: app_end
  ar_log :: "(string \<times> string) list"
  ar_usage :: "(string \<times> usage_disk) option"
  ar_metrics :: "MetricsServer option"
  ar_http :: "http_server option"
  ar_socks_up :: bool

definition ended :: "app_end \<Rightarrow> (string \<times> string) list \<Rightarrow> app_result" where
  "ended e msgs = \<lparr>ar_end = e, ar_log = msgs, ar_usage = None, ar_metrics = None, ar_http = None, ar_socks_up = False\<rparr>"

definition start_metrics :: "app_env \<Rightarrow> Config \<Rightarrow> bool \<Rightarrow> MetricsServer \<times> (string \<times> string) list" where
  "start_metrics a cfg usageHandler =
     (let (m, errs) = metrics_Start (ap_listens a (cfg_MetricsListen cfg)) (NewMetricsServer (cfg_MetricsListen cfg) usageHandler)
      in (m, map (\<lambda>e. (''error'', e)) errs))"

text \<open>The SNI mode. \<open>ap_sni\<close> is how the accept loop returned; only an error ends in \<^verbatim>\<open>log.Fatal\<close>.\<close>

definition runSNIProxyMode :: "app_env \<Rightarrow> Config \<Rightarrow> StatsTracker \<Rightarrow> (string \<times> string) list \<Rightarrow> app_result" where
  "runSNIProxyMode a cfg st msgs =
     (let msgs = msgs @ [(''info'', ''Proxy Mode: '' @ Success (ap_ui a) ''SNI'')]
      in case Validate (ap_absent a) cfg of
           Some err \<Rightarrow> ended Exited (msgs @ [(''error'', err)])
         | None \<Rightarrow>
             let (metrics, errs) = start_metrics a cfg False;
                 msgs = msgs @ errs;
                 ended = (\<lambda>e msgs. (ended e msgs)\<lparr>ar_metrics := Some metrics\<rparr>)
             in (case NewSniServer cfg of
                None \<Rightarrow> ended Panicked msgs
              | Some srv \<Rightarrow>
                  let loaded = (if ap_keypair a (cfg_CertFile cfg) (cfg_KeyFile cfg) then Some () else None);
                      (up, cert, st, lines) = sni_Start loaded (ap_listens a (cfg_Listen cfg)) cfg None st;
                      msgs = msgs @ lines
                  in if \<not> up \<or> ap_sni a = ReturnedError then ended Fatal (msgs @ [(''error'', ''Server failed'')])
                     else ended Returned msgs))"

text \<open>The copy of \<^verbatim>\<open>itoa\<close> in \<^verbatim>\<open>main.go\<close>, with the loop of the one in \<^verbatim>\<open>internal/proxy\<close>.\<close>

definition main_itoa :: "int \<Rightarrow> string" where
  "main_itoa i = (if i = 0 then ''0'' else itoa_loop i [])"

definition usage_path :: "Config \<Rightarrow> string" where
  "usage_path cfg = Join [Dir (ec_UsersFile (cfg_Env cfg)), ''bandwidth_usage.json'']"

definition runHTTPSProxyMode :: "app_env \<Rightarrow> Config \<Rightarrow> (string \<times> string) list \<Rightarrow> app_result" where
  "runHTTPSProxyMode a cfg msgs =
     (let msgs = msgs @ [(''info'', ''Proxy Mode: '' @ Success (ap_ui a) ''HTTPS/SOCKS5'')];
          usersFile = ec_UsersFile (cfg_Env cfg)
      in case NewUserStore (ap_deps a) (ap_users a usersFile) (ap_order a) (ap_now a) of
           Inl _ \<Rightarrow> ended Exited (msgs @ [(''error'', ''Failed to load users'')])
         | Inr userStore \<Rightarrow>
             let msgs = msgs @ [(''info'', ''Loaded '' @ main_itoa (int (GetUserCount userStore)) @ '' users from '' @ usersFile)];
                 usageFile = usage_path cfg
             in (case NewTracker (ap_off a) (ap_disk a usageFile) (ap_now a) of
               None \<Rightarrow> ended Panicked msgs
             | Some bwTracker \<Rightarrow>
             let msgs = msgs @ [(''info'', ''Bandwidth tracker active '' @ utf8 [226, 134, 146] @ '' '' @ usageFile)];
                 (metrics, errs) = start_metrics a cfg True;
                 msgs = msgs @ errs;
                 httpSrv = http_NewServer cfg userStore (Some bwTracker);
                 socks = socks_Start cfg (ap_listens a) (ap_socks_turns a);
                 msgs = msgs @ (case socks of
                                  Inl _ \<Rightarrow> [(''error'', ''SOCKS5 server failed'')]
                                | Inr (_, r) \<Rightarrow> if r = Failed then [(''error'', ''SOCKS5 server failed'')] else []);
                 result = \<lparr>ar_end = Fatal, ar_log = msgs @ [(''error'', ''HTTP proxy failed'')],
                           ar_usage = Some (usageFile, tr_disk bwTracker), ar_metrics = Some metrics, ar_http = Some httpSrv,
                           ar_socks_up = (case socks of Inl _ \<Rightarrow> False | Inr _ \<Rightarrow> True)\<rparr>
             in (case fst (http_Start cfg (ap_listens a) (ap_keypair a) \<lparr>hl_http = False, hl_https = False, hl_shutdown_closed = False\<rparr>) of
                  Some _ \<Rightarrow> result
                | None \<Rightarrow>
                    let (t, failed) = ap_serve a bwTracker
                    in if failed then result\<lparr>ar_usage := Some (usageFile, tr_disk t)\<rparr>
                       else (case Stop (ap_wr a) t of
                              None \<Rightarrow> result\<lparr>ar_end := Panicked, ar_log := msgs\<rparr>
                            | Some t \<Rightarrow> result\<lparr>ar_end := Returned, ar_log := msgs, ar_usage := Some (usageFile, tr_disk t)\<rparr>))))"

definition app_main :: "app_env \<Rightarrow> StatsTracker \<Rightarrow> app_result" where
  "app_main a st =
     (let (_, month, day) = civil_of_days (local_seconds (ap_off a) (ap_now a) div 86400);
          banner = PrintBanner (ap_ui a) (ap_groups a) (month, day) (ap_draw a) \<lparr>co_out = [], co_bannerEmitted = False\<rparr>;
          cfg = Load (ap_uni a) (ap_getenv a) (ap_file a);
          msgs = [(''info'', ''Environment: '' @ (if IsDevelopment (cfg_Env cfg) then Warn (ap_ui a) ''DEVELOPMENT''
                                                  else Success (ap_ui a) ''PRODUCTION'')),
                  (''info'', ''Domain: '' @ ec_Domain (cfg_Env cfg))]
      in if \<not> snd banner then ended Panicked []
         else if ec_ProxyMode (cfg_Env cfg) \<in> {''https'', ''http'', ''general''} then runHTTPSProxyMode a cfg msgs
         else runSNIProxyMode a cfg st msgs)"

section \<open>Lemmas\<close>

lemma main_itoa_nat: "main_itoa (int n) = nat_dec n"
  using itoa_nat [of "int n"] by (simp add: main_itoa_def itoa_def)

lemma Validate_MaxConns: "Validate absent cfg = None \<Longrightarrow> 0 < cfg_MaxConns cfg"
  by (simp add: validate_accepts_iff)

text \<open>The route of the usage, as the two modes build the metrics server.\<close>

lemma start_metrics_usage:
  "metrics_answers (fst (start_metrics a cfg u)) ''/api/usage'' = Some UsageRoute \<longleftrightarrow> ap_listens a (cfg_MetricsListen cfg) \<and> u"
  by (auto simp: start_metrics_def metrics_Start_def NewMetricsServer_def usage_route)

lemma start_metrics_log: "set (snd (start_metrics a cfg u)) \<subseteq> {(''error'', ''Metrics server error: '')}"
  by (simp add: start_metrics_def metrics_Start_def NewMetricsServer_def)

text \<open>How the HTTPS mode ends.\<close>

definition https_load :: "app_env \<Rightarrow> Config \<Rightarrow> load_error + UserStore" where
  "https_load a cfg = NewUserStore (ap_deps a) (ap_users a (ec_UsersFile (cfg_Env cfg))) (ap_order a) (ap_now a)"

definition https_boot :: "app_env \<Rightarrow> Config \<Rightarrow> Tracker option" where
  "https_boot a cfg = NewTracker (ap_off a) (ap_disk a (usage_path cfg)) (ap_now a)"

definition https_up :: "app_env \<Rightarrow> Config \<Rightarrow> bool" where
  "https_up a cfg \<longleftrightarrow> fst (http_Start cfg (ap_listens a) (ap_keypair a)
     \<lparr>hl_http = False, hl_https = False, hl_shutdown_closed = False\<rparr>) = None"

definition socks_failed :: "app_env \<Rightarrow> Config \<Rightarrow> bool" where
  "socks_failed a cfg \<longleftrightarrow> (case socks_Start cfg (ap_listens a) (ap_socks_turns a) of Inl _ \<Rightarrow> True | Inr (_, r) \<Rightarrow> r = Failed)"

lemma https_not_loaded:
  "https_load a cfg = Inl err \<Longrightarrow> runHTTPSProxyMode a cfg msgs =
     ended Exited (msgs @ [(''info'', ''Proxy Mode: '' @ Success (ap_ui a) ''HTTPS/SOCKS5''), (''error'', ''Failed to load users'')])"
  by (simp add: runHTTPSProxyMode_def https_load_def Let_def)

lemma https_null_usage:
  "https_load a cfg = Inr store \<Longrightarrow> https_boot a cfg = None \<Longrightarrow> \<exists>log. runHTTPSProxyMode a cfg msgs = ended Panicked log"
  by (auto simp: runHTTPSProxyMode_def https_load_def https_boot_def Let_def)

text \<open>The lines of the HTTPS mode before the HTTP server starts.\<close>

definition https_log :: "app_env \<Rightarrow> Config \<Rightarrow> UserStore \<Rightarrow> (string \<times> string) list" where
  "https_log a cfg store =
     [(''info'', ''Proxy Mode: '' @ Success (ap_ui a) ''HTTPS/SOCKS5''),
      (''info'', ''Loaded '' @ nat_dec (GetUserCount store) @ '' users from '' @ ec_UsersFile (cfg_Env cfg)),
      (''info'', ''Bandwidth tracker active '' @ utf8 [226, 134, 146] @ '' '' @ usage_path cfg)] @
     snd (start_metrics a cfg True) @ (if socks_failed a cfg then [(''error'', ''SOCKS5 server failed'')] else [])"

lemma https_started:
  fixes msgs :: "(string \<times> string) list"
  assumes "https_load a cfg = Inr store" "https_boot a cfg = Some t0"
  defines "r \<equiv> runHTTPSProxyMode a cfg msgs"
  shows "\<not> https_up a cfg \<Longrightarrow> ar_end r = Fatal \<and> ar_log r = msgs @ https_log a cfg store @ [(''error'', ''HTTP proxy failed'')] \<and>
        ar_usage r = Some (usage_path cfg, tr_disk t0)"
    and "https_up a cfg \<Longrightarrow> ap_serve a t0 = (t, True) \<Longrightarrow>
        ar_end r = Fatal \<and> ar_log r = msgs @ https_log a cfg store @ [(''error'', ''HTTP proxy failed'')] \<and>
        ar_usage r = Some (usage_path cfg, tr_disk t)"
    and "https_up a cfg \<Longrightarrow> ap_serve a t0 = (t, False) \<Longrightarrow> Stop (ap_wr a) t = Some t' \<Longrightarrow>
        ar_end r = Returned \<and> ar_log r = msgs @ https_log a cfg store \<and> ar_usage r = Some (usage_path cfg, tr_disk t')"
    and "ar_metrics r = Some (fst (start_metrics a cfg True)) \<and> ar_http r = Some (http_NewServer cfg store (Some t0))"
proof -
  have sock: "(case socks_Start cfg (ap_listens a) (ap_socks_turns a) of Inl _ \<Rightarrow> [(''error'', ''SOCKS5 server failed'')]
      | Inr (_, r) \<Rightarrow> if r = Failed then [(''error'', ''SOCKS5 server failed'')] else []) =
      (if socks_failed a cfg then [(''error'', ''SOCKS5 server failed'')] else [])"
    by (simp add: socks_failed_def split: sum.splits prod.splits)
  note shape = r_def runHTTPSProxyMode_def Let_def case_prod_beta https_log_def sock main_itoa_nat
    assms(1) [unfolded https_load_def] assms(2) [unfolded https_boot_def] https_up_def
  show "\<not> https_up a cfg \<Longrightarrow> ar_end r = Fatal \<and> ar_log r = msgs @ https_log a cfg store @ [(''error'', ''HTTP proxy failed'')] \<and>
        ar_usage r = Some (usage_path cfg, tr_disk t0)"
    by (auto simp: shape)
  show "https_up a cfg \<Longrightarrow> ap_serve a t0 = (t, True) \<Longrightarrow>
        ar_end r = Fatal \<and> ar_log r = msgs @ https_log a cfg store @ [(''error'', ''HTTP proxy failed'')] \<and>
        ar_usage r = Some (usage_path cfg, tr_disk t)"
    by (simp add: shape)
  show "https_up a cfg \<Longrightarrow> ap_serve a t0 = (t, False) \<Longrightarrow> Stop (ap_wr a) t = Some t' \<Longrightarrow>
        ar_end r = Returned \<and> ar_log r = msgs @ https_log a cfg store \<and> ar_usage r = Some (usage_path cfg, tr_disk t')"
    by (simp add: shape)
  show "ar_metrics r = Some (fst (start_metrics a cfg True)) \<and> ar_http r = Some (http_NewServer cfg store (Some t0))"
    by (simp add: shape split: option.split)
qed

text \<open>How the SNI mode ends.\<close>

lemma sni_rejected:
  "Validate (ap_absent a) cfg = Some err \<Longrightarrow> runSNIProxyMode a cfg st msgs =
     ended Exited (msgs @ [(''info'', ''Proxy Mode: '' @ Success (ap_ui a) ''SNI''), (''error'', err)])"
  by (simp add: runSNIProxyMode_def)

definition sni_up :: "app_env \<Rightarrow> Config \<Rightarrow> bool" where
  "sni_up a cfg \<longleftrightarrow> ap_keypair a (cfg_CertFile cfg) (cfg_KeyFile cfg) \<and> ap_listens a (cfg_Listen cfg)"

lemma sni_started:
  fixes msgs :: "(string \<times> string) list" and st :: StatsTracker
  assumes "Validate (ap_absent a) cfg = None"
  defines "r \<equiv> runSNIProxyMode a cfg st msgs"
  obtains lines where "list_all (\<lambda>l. fst l \<noteq> ''error'') lines"
    "ar_log r = msgs @ [(''info'', ''Proxy Mode: '' @ Success (ap_ui a) ''SNI'')] @ snd (start_metrics a cfg False) @ lines @
       (if ar_end r = Returned then [] else [(''error'', ''Server failed'')])"
    "ar_end r = (if sni_up a cfg \<and> ap_sni a \<noteq> ReturnedError then Returned else Fatal)"
    "ar_metrics r = Some (fst (start_metrics a cfg False))" "ar_usage r = None"
proof -
  obtain srv where srv: "NewSniServer cfg = Some srv" using Validate_MaxConns [OF assms(1)] by (simp add: NewSniServer_def)
  define loaded where "loaded = (if ap_keypair a (cfg_CertFile cfg) (cfg_KeyFile cfg) then Some () else None)"
  define s where "s = sni_Start loaded (ap_listens a (cfg_Listen cfg)) cfg None st"
  have up: "fst s \<longleftrightarrow> sni_up a cfg" and lines: "list_all (\<lambda>l. fst l \<noteq> ''error'') (snd (snd (snd s)))"
    by (simp_all add: s_def sni_Start_def Reload_def loaded_def sni_up_def Let_def)
  have "r = (ended (if \<not> fst s \<or> ap_sni a = ReturnedError then Fatal else Returned)
      (msgs @ [(''info'', ''Proxy Mode: '' @ Success (ap_ui a) ''SNI'')] @ snd (start_metrics a cfg False) @ snd (snd (snd s)) @
       (if \<not> fst s \<or> ap_sni a = ReturnedError then [(''error'', ''Server failed'')] else [])))\<lparr>ar_metrics := Some (fst (start_metrics a cfg False))\<rparr>"
    by (simp add: r_def runSNIProxyMode_def assms(1) srv Let_def case_prod_beta loaded_def [symmetric] s_def [symmetric])
  then show thesis using that [OF lines] up by (auto simp: ended_def)
qed

definition https_mode :: "Config \<Rightarrow> bool" where
  "https_mode cfg \<longleftrightarrow> ec_ProxyMode (cfg_Env cfg) \<in> {''https'', ''http'', ''general''}"

lemma app_main_modes:
  assumes "cfg = Load (ap_uni a) (ap_getenv a) (ap_file a)" "set (ap_groups a) = set holidayTaglines" "ap_draw a < length taglines"
  shows "\<exists>msgs. list_all (\<lambda>l. fst l = ''info'') msgs \<and>
    app_main a st = (if https_mode cfg then runHTTPSProxyMode a cfg msgs else runSNIProxyMode a cfg st msgs)"
  unfolding app_main_def https_mode_def assms(1) Let_def case_prod_beta
  using PrintBanner_returns [OF assms(2,3)] by (simp split del: if_split) (rule exI, rule conjI [rotated], rule refl, simp)

text \<open>What \<^verbatim>\<open>Stop\<close> leaves on disk, as a tracker started later reads it.\<close>

lemma Stop_then_NewTracker:
  assumes "Stop wr t = Some t'" "\<And>old f. wr old f = GoodFile f" "tr_month t = format_month off now"
  shows "\<exists>t2. NewTracker off (tr_disk t') now = Some t2 \<and> (\<forall>u. total_of t2 u = total_of t u)"
proof -
  have "tr_disk t' = GoodFile \<lparr>uf_Month = tr_month t, uf_Users = Some (tr_users t)\<rparr>"
    using assms(1,2) by (auto simp: Stop_def saveToDisk_def saveToDiskLocked_def split: if_splits)
  then show ?thesis using assms(3)
    by (auto simp: NewTracker_def loadFromDisk_def total_of_def split: option.splits)
qed

text \<open>The two modes, once they have begun.\<close>

lemma https_outcome:
  assumes l: "https_load a cfg = Inr store" "https_boot a cfg = Some t0" and wr: "\<And>old f. ap_wr a old f = GoodFile f"
    and alive: "\<And>t. https_boot a cfg = Some t \<Longrightarrow> \<not> tr_stopped (fst (ap_serve a t))"
    and info: "\<And>msg. (''error'', msg) \<notin> set msgs"
  defines "r \<equiv> runHTTPSProxyMode a cfg msgs"
  shows "ar_http r = Some (http_NewServer cfg store (Some t0))"
    and "ar_end r = (if https_up a cfg \<and> \<not> snd (ap_serve a t0) then Returned else Fatal)"
    and "ar_end r = Fatal \<longrightarrow> last (ar_log r) = (''error'', ''HTTP proxy failed'') \<and>
       ar_usage r = Some (usage_path cfg, if https_up a cfg then tr_disk (fst (ap_serve a t0)) else ap_disk a (usage_path cfg))"
    and "ar_end r = Returned \<longrightarrow> (\<forall>msg. (''error'', msg) \<in> set (ar_log r) \<longrightarrow> msg \<in> {''Metrics server error: '', ''SOCKS5 server failed''}) \<and>
       (\<exists>disk. ar_usage r = Some (usage_path cfg, disk) \<and>
          (\<forall>now. tr_month (fst (ap_serve a t0)) = format_month (ap_off a) now \<longrightarrow>
             (\<exists>t2. NewTracker (ap_off a) disk now = Some t2 \<and> (\<forall>u. total_of t2 u = total_of (fst (ap_serve a t0)) u))))"
    and "(''error'', ''SOCKS5 server failed'') \<in> set (ar_log r) \<longleftrightarrow> socks_failed a cfg"
    and "\<exists>m. ar_metrics r = Some m \<and> (metrics_answers m ''/api/usage'' = Some UsageRoute \<longleftrightarrow> ap_listens a (cfg_MetricsListen cfg))"
proof -
  obtain t failed where sv: "ap_serve a t0 = (t, failed)" by fastforce
  then have "\<not> tr_stopped t" using alive [OF l(2)] by simp
  then obtain t' where t': "Stop (ap_wr a) t = Some t'" by (simp add: Stop_def)
  have disk: "tr_disk t0 = ap_disk a (usage_path cfg)" using l(2) NewTracker_disk by (simp add: https_boot_def)
  note s = https_started [OF l, where msgs = msgs, folded r_def]
  show http: "ar_http r = Some (http_NewServer cfg store (Some t0))" using s(4) by simp
  show "\<exists>m. ar_metrics r = Some m \<and> (metrics_answers m ''/api/usage'' = Some UsageRoute \<longleftrightarrow> ap_listens a (cfg_MetricsListen cfg))"
    using s(4) start_metrics_usage [of a cfg True] by simp
  show e: "ar_end r = (if https_up a cfg \<and> \<not> snd (ap_serve a t0) then Returned else Fatal)"
    using s(1) s(2) [of t] s(3) [OF _ _ t'] sv by (cases failed) auto
  show "ar_end r = Fatal \<longrightarrow> last (ar_log r) = (''error'', ''HTTP proxy failed'') \<and>
     ar_usage r = Some (usage_path cfg, if https_up a cfg then tr_disk (fst (ap_serve a t0)) else ap_disk a (usage_path cfg))"
    using s(1) s(2) [of t] sv e disk by (cases "https_up a cfg"; cases failed) auto
  have log: "\<exists>rest. ar_log r = msgs @ https_log a cfg store @ rest \<and> set rest \<subseteq> {(''error'', ''HTTP proxy failed'')} \<and> (ar_end r = Returned \<longrightarrow> rest = [])"
    using s(1) s(2) [of t] s(3) [OF _ _ t'] sv by (cases "https_up a cfg"; cases failed) auto
  then show "(''error'', ''SOCKS5 server failed'') \<in> set (ar_log r) \<longleftrightarrow> socks_failed a cfg"
    using info start_metrics_log [of a cfg True] by (auto simp: https_log_def)
  have "ar_end r = Returned \<Longrightarrow> ar_usage r = Some (usage_path cfg, tr_disk t')"
    using s(3) [OF _ _ t'] sv e by (auto split: if_splits)
  then show "ar_end r = Returned \<longrightarrow> (\<forall>msg. (''error'', msg) \<in> set (ar_log r) \<longrightarrow> msg \<in> {''Metrics server error: '', ''SOCKS5 server failed''}) \<and>
       (\<exists>disk. ar_usage r = Some (usage_path cfg, disk) \<and>
          (\<forall>now. tr_month (fst (ap_serve a t0)) = format_month (ap_off a) now \<longrightarrow>
             (\<exists>t2. NewTracker (ap_off a) disk now = Some t2 \<and> (\<forall>u. total_of t2 u = total_of (fst (ap_serve a t0)) u))))"
    using log info start_metrics_log [of a cfg True] Stop_then_NewTracker [OF t' wr] sv by (auto simp: https_log_def split: if_splits)
qed

lemma sni_outcome:
  fixes msgs :: "(string \<times> string) list" and st :: StatsTracker
  assumes "Validate (ap_absent a) cfg = None" and info: "\<And>msg. (''error'', msg) \<notin> set msgs"
  defines "r \<equiv> runSNIProxyMode a cfg st msgs"
  shows "ar_end r = (if sni_up a cfg \<and> ap_sni a \<noteq> ReturnedError then Returned else Fatal)"
    and "ar_end r = Fatal \<longrightarrow> last (ar_log r) = (''error'', ''Server failed'')"
    and "ar_end r = Returned \<longrightarrow> (\<forall>msg. (''error'', msg) \<in> set (ar_log r) \<longrightarrow> msg = ''Metrics server error: '')"
    and "\<exists>m. ar_metrics r = Some m \<and> metrics_answers m ''/api/usage'' \<noteq> Some UsageRoute"
proof -
  from assms(1) obtain lines where s: "list_all (\<lambda>l. fst l \<noteq> ''error'') lines"
    "ar_log r = msgs @ [(''info'', ''Proxy Mode: '' @ Success (ap_ui a) ''SNI'')] @ snd (start_metrics a cfg False) @ lines @
       (if ar_end r = Returned then [] else [(''error'', ''Server failed'')])"
    "ar_end r = (if sni_up a cfg \<and> ap_sni a \<noteq> ReturnedError then Returned else Fatal)"
    "ar_metrics r = Some (fst (start_metrics a cfg False))"
    unfolding r_def by (rule sni_started)
  show "ar_end r = (if sni_up a cfg \<and> ap_sni a \<noteq> ReturnedError then Returned else Fatal)" by (rule s(3))
  show "ar_end r = Fatal \<longrightarrow> last (ar_log r) = (''error'', ''Server failed'')" by (simp add: s(2))
  have "(''error'', msg) \<notin> set lines" for msg using s(1) by (auto simp: list_all_iff)
  then show "ar_end r = Returned \<longrightarrow> (\<forall>msg. (''error'', msg) \<in> set (ar_log r) \<longrightarrow> msg = ''Metrics server error: '')"
    using info start_metrics_log [of a cfg False] by (auto simp: s(2))
  show "\<exists>m. ar_metrics r = Some m \<and> metrics_answers m ''/api/usage'' \<noteq> Some UsageRoute"
    using start_metrics_usage [of a cfg False] by (simp add: s(4))
qed

section \<open>Properties\<close>


definition demo_ui :: ui_env where
  "demo_ui = \<lparr>ue_Sprint = (\<lambda>_ s. s), ue_NoColor = True, ue_getenv = (\<lambda>_. []), ue_columns = None, ue_tty = True,
     ue_args = [''proxy''], ue_off = 0\<rparr>"

definition demo_app :: app_env where
  "demo_app = \<lparr>ap_uni = id, ap_getenv = (\<lambda>k. if k = ''PROXY_MODE'' then ''https'' else []), ap_file = None, ap_absent = (\<lambda>_. False),
     ap_deps = demo_deps, ap_users = (\<lambda>_. Decoded demo_cfg), ap_order = [''bob''], ap_disk = (\<lambda>_. NoFile),
     ap_wr = (\<lambda>_. GoodFile), ap_off = 0, ap_now = 0, ap_listens = (\<lambda>_. True), ap_keypair = (\<lambda>_ _. True),
     ap_socks_turns = [], ap_serve = (\<lambda>t. (RecordBytes (\<lambda>_. GoodFile) 0 t ''Bob'' 3 4 0, False)), ap_sni = ReturnedDrained,
     ap_ui = demo_ui, ap_groups = holidayTaglines, ap_draw = 3\<rparr>"


end
