(* ===== verification/Deployment.thy ===== *)
theory Deployment
  imports Http_Proxy Socks5 "HOL-Library.Sublist"
begin

text \<open>
  The HTTPS mode of \<^verbatim>\<open>cmd/proxy/main.go\<close> as a whole: the HTTP and the SOCKS5 server are built on one user
  store and one usage tracker, so what a client of one server does is seen by the clients of the other.
  A client is served on the shared objects as it finds them. Handlers run concurrently, but each makes
  at most one call on the rate limiter, under the limiter's lock; the list of clients is the order of
  these calls.
\<close>

section \<open>Clients and the shared objects\<close>

record deployment =
  dp_store :: UserStore
  dp_bw :: "Tracker option"
  dp_pac :: "PacHandler option"

text \<open>What surrounds a client (clock, network) comes with it, as in the models of the two servers.\<close>

datatype client = HttpClient http_env http_request | SocksClient socks_env "byte list"

fun client_deps :: "client \<Rightarrow> deps" where
  "client_deps (HttpClient e r) = he_deps e"
| "client_deps (SocksClient e inp) = se_deps e"

text \<open>When a client's rate is checked.\<close>

fun client_time :: "client \<Rightarrow> time" where
  "client_time (HttpClient e r) = he_clk e 3"
| "client_time (SocksClient e inp) = se_clk e 3"

fun client_clk :: "client \<Rightarrow> nat \<Rightarrow> time" where
  "client_clk (HttpClient e r) = he_clk e"
| "client_clk (SocksClient e inp) = se_clk e"

fun client_wr :: "client \<Rightarrow> writer" where
  "client_wr (HttpClient e r) = he_wr e"
| "client_wr (SocksClient e inp) = se_wr e"

fun client_off :: "client \<Rightarrow> int" where
  "client_off (HttpClient e r) = he_off e"
| "client_off (SocksClient e inp) = se_off e"

definition as_http :: "deployment \<Rightarrow> http_server" where
  "as_http D = \<lparr>hp_store = dp_store D, hp_bw = dp_bw D, hp_pac = dp_pac D, hp_events = []\<rparr>"

definition as_socks :: "deployment \<Rightarrow> byte list \<Rightarrow> socks" where
  "as_socks D inp = \<lparr>sk_store = dp_store D, sk_bw = dp_bw D, sk_in = inp, sk_events = []\<rparr>"

text \<open>The user name a client presents: the one of its header, or the one its negotiation ends with.\<close>

fun client_name :: "deployment \<Rightarrow> client \<Rightarrow> string option" where
  "client_name D (HttpClient e r) = map_option fst (parseProxyAuth r)"
| "client_name D (SocksClient e inp) =
     (case fst (handleMethodNegotiation e (slog [SCall SMetricActiveConns [] MInc] (as_socks D inp))) of Inl _ \<Rightarrow> None | Inr u \<Rightarrow> Some u)"

text \<open>Serving a client: whether it made traffic leave the proxy, and the shared objects afterwards.\<close>

fun serve :: "client \<Rightarrow> deployment \<Rightarrow> bool \<times> deployment" where
  "serve (HttpClient e r) D =
     (let s = snd (handleRequest e (as_http D) new_response r)
      in (list_ex is_egress (hp_events s), \<lparr>dp_store = hp_store s, dp_bw = hp_bw s, dp_pac = hp_pac s\<rparr>))"
| "serve (SocksClient e inp) D =
     (let s = handleConnection e (as_socks D inp)
      in (list_ex is_dial (sk_events s), \<lparr>dp_store = sk_store s, dp_bw = sk_bw s, dp_pac = dp_pac D\<rparr>))"

text \<open>A day's work: for each client the name it presented and whether it got through.\<close>

fun serve_all :: "client list \<Rightarrow> deployment \<Rightarrow> (string option \<times> bool) list \<times> deployment" where
  "serve_all [] D = ([], D)"
| "serve_all (c # cs) D =
     (let (out, D') = serve c D; (rest, D'') = serve_all cs D' in ((client_name D c, out) # rest, D''))"

section \<open>One client and the limiter\<close>

text \<open>
  What a client may do to the bucket of the user \<open>u\<close>: nothing, and then no traffic of this user left; or
  one request at the bucket, which granted it if traffic left.
\<close>

definition bucket_visit :: "tokenBucket \<Rightarrow> time \<Rightarrow> bool \<Rightarrow> tokenBucket option \<Rightarrow> bool" where
  "bucket_visit b t counted after \<longleftrightarrow>
     (\<not> counted \<and> after = Some b) \<or>
     (after = Some (snd (bucket_allow b t)) \<and> (counted \<longrightarrow> fst (bucket_allow b t)))"

lemma CheckRateLimit_visit:
  assumes "rl_buckets (us_rateLimiter st) u = Some b" "GetUser d st u = Some user" "0 < RateLimitRPM user"
  shows "rl_buckets (us_rateLimiter (snd (CheckRateLimit d st n t))) u =
      (if n = u then Some (snd (bucket_allow b t)) else Some b)"
    and "fst (CheckRateLimit d st u t) = fst (bucket_allow b t)"
proof -
  have "us_users st (lower d u) = Some user" using assms(2) by (simp add: GetUser_def)
  then show "fst (CheckRateLimit d st u t) = fst (bucket_allow b t)"
    using assms(1,3) by (simp add: CheckRateLimit_def Allow_def case_prod_beta Let_def)
  show "rl_buckets (us_rateLimiter (snd (CheckRateLimit d st n t))) u = (if n = u then Some (snd (bucket_allow b t)) else Some b)"
  proof (cases "n = u")
    case True
    then show ?thesis using \<open>us_users st (lower d u) = Some user\<close> assms(1,3)
      by (simp add: CheckRateLimit_def Allow_def case_prod_beta Let_def)
  next
    case False
    then show ?thesis using assms(1)
      by (simp add: CheckRateLimit_def Allow_other case_prod_beta Let_def split: option.splits)
  qed
qed

text \<open>What the servers leave alone in the store.\<close>

lemma socks_quota_store: "sk_store (snd (socks_quota e s u user)) = snd (CheckRateLimit (se_deps e) (sk_store s) u (se_clk e 3))"
  by (simp add: socks_quota_def Let_def case_prod_beta split: option.splits)

lemma socks_quota_rate: "fst (socks_quota e s u (Some user)) \<Longrightarrow> fst (CheckRateLimit (se_deps e) (sk_store s) u (se_clk e 3))"
  by (simp add: socks_quota_policy policy_ok_def)

lemma socks_serve_store: "sk_store (socks_serve e s u) = sk_store s"
proof -
  obtain x s1 where h: "socks_handleRequest s = (x, s1)" by fastforce
  have "sk_store s1 = sk_store s" using socks_handleRequest_frame(2) [of s] by (simp add: h)
  then show ?thesis by (cases x) (simp_all add: socks_serve_def h Let_def case_prod_beta split: option.splits)
qed

text \<open>The state kept between clients: the user \<open>u\<close> with its rate limit, and a sound cache.\<close>

definition limited_user :: "deps \<Rightarrow> string \<Rightarrow> User \<Rightarrow> UserStore \<Rightarrow> bool" where
  "limited_user d u user st \<longleftrightarrow> store_inv d st \<and> GetUser d st u = Some user \<and> Role user \<noteq> ''super_admin'' \<and> 0 < RateLimitRPM user"

lemma limited_user_Validate [simp]: "limited_user d u user st \<Longrightarrow> limited_user d u user (snd (ValidateCredentials d st n p t t'))"
  by (simp add: limited_user_def store_inv_ValidateCredentials)

lemma limited_user_RateLimit [simp]: "limited_user d u user st \<Longrightarrow> limited_user d u user (snd (CheckRateLimit d st n t))"
  by (simp add: limited_user_def store_inv_CheckRateLimit GetUser_def store_simps)

text \<open>
  What the checks of either server come to, for a client that authenticated as \<open>n\<close> on the store \<open>st\<close>: \<open>ok\<close> says
  whether they passed and \<open>st'\<close> is the store after them.
\<close>

lemma checked_visit:
  assumes "limited_user d u user st" "rl_buckets (us_rateLimiter st) u = Some b"
    and "n = u \<longrightarrow> \<not> ex" and "st' = (if ex then st else snd (CheckRateLimit d st n t))"
    and "\<not> ex \<longrightarrow> ok \<longrightarrow> fst (CheckRateLimit d st n t)" and "out \<longrightarrow> ok"
  shows "limited_user d u user st' \<and> bucket_visit b t (n = u \<and> out) (rl_buckets (us_rateLimiter st') u)"
proof -
  have g: "GetUser d st u = Some user" "0 < RateLimitRPM user" using assms(1) by (simp_all add: limited_user_def)
  note visit = CheckRateLimit_visit [OF assms(2) g]
  show ?thesis
  proof (cases ex)
    case True
    then show ?thesis using assms by (auto simp: bucket_visit_def)
  next
    case False
    then have "st' = snd (CheckRateLimit d st n t)" using assms(4) by simp
    then show ?thesis using assms(1,5,6) visit False by (auto simp: bucket_visit_def)
  qed
qed

text \<open>A property of the state that reads, replies and credential checks keep holds after the negotiation.\<close>

lemma authenticateUser_keeps:
  assumes "P s" "\<And>s x. P s \<Longrightarrow> P (s\<lparr>sk_in := x\<rparr>)" "\<And>s bs. P s \<Longrightarrow> P (send bs s)" "\<And>s x. P s \<Longrightarrow> P (slog [SCall SMetricAuthFailures [x] MInc] s)"
    and "\<And>s n p t t'. P s \<Longrightarrow> P (s\<lparr>sk_store := snd (ValidateCredentials (se_deps e) (sk_store s) n p t t')\<rparr>)"
  shows "P (snd (authenticateUser e s))"
  unfolding authenticateUser_def
  by (rule read_full_keeps, rule assms(1), rule assms(2), assumption, rename_tac b1 s1, case_tac "b1 ! 0 \<noteq> UserPassVersion",
      simp, simp only: if_False, (rule read_full_keeps, assumption, rule assms(2), assumption)+)
    (simp add: Let_def case_prod_beta assms(3-5))

lemma negotiation_keeps:
  assumes "P s" "\<And>s x. P s \<Longrightarrow> P (s\<lparr>sk_in := x\<rparr>)" "\<And>s bs. P s \<Longrightarrow> P (send bs s)" "\<And>s x. P s \<Longrightarrow> P (slog [SCall SMetricAuthFailures [x] MInc] s)"
    and "\<And>s n p t t'. P s \<Longrightarrow> P (s\<lparr>sk_store := snd (ValidateCredentials (se_deps e) (sk_store s) n p t t')\<rparr>)"
  shows "P (snd (handleMethodNegotiation e s))"
  unfolding handleMethodNegotiation_def
  by (rule read_full_keeps, rule assms(1), rule assms(2), assumption, rename_tac b1 s1, case_tac "b1 ! 0 \<noteq> Version5",
      simp, simp only: if_False, rule read_full_keeps, assumption, rule assms(2), assumption)
    (simp add: assms(3,4) authenticateUser_keeps [of P, OF _ assms(2-5)])

lemma negotiation_limiter:
  assumes "limited_user (se_deps e) u user (sk_store s)"
  shows "limited_user (se_deps e) u user (sk_store (snd (handleMethodNegotiation e s))) \<and>
    us_rateLimiter (sk_store (snd (handleMethodNegotiation e s))) = us_rateLimiter (sk_store s)"
  by (rule negotiation_keeps [where P = "\<lambda>s'. limited_user (se_deps e) u user (sk_store s') \<and>
      us_rateLimiter (sk_store s') = us_rateLimiter (sk_store s)"]) (simp_all add: assms store_simps)

lemma http_visit:
  assumes "limited_user (he_deps e) u user (dp_store D)" "rl_buckets (us_rateLimiter (dp_store D)) u = Some b"
    and "serve (HttpClient e r) D = (out, D')"
  shows "limited_user (he_deps e) u user (dp_store D') \<and>
    bucket_visit b (he_clk e 3) (client_name D (HttpClient e r) = Some u \<and> out) (rl_buckets (us_rateLimiter (dp_store D')) u)"
proof -
  define s where "s = as_http D"
  define s' where "s' = snd (handleRequest e s new_response r)"
  have s: "hp_store s = dp_store D" "hp_events s = []" by (simp_all add: s_def as_http_def)
  have D': "dp_store D' = hp_store s'" "out \<longleftrightarrow> filter is_egress (hp_events s') \<noteq> []"
    using assms(3) by (auto simp: s'_def s_def Let_def list_ex_iff filter_empty_conv)
  show ?thesis
  proof (cases "for_pac s r")
    case True
    then obtain h where h: "hp_pac s = Some h" by (auto simp: for_pac_def)
    then have "hp_events s' = []" "hp_store s' = snd (snd (pac_ServeHTTP (he_deps e) h (hp_store s) new_response r (\<lambda>i. he_clk e (10 + i))))"
      using True s(2) by (auto simp: s'_def for_pac_def handleRequest_def case_prod_beta Let_def)
    moreover from this pac_store [of "he_deps e" h "hp_store s" new_response r "\<lambda>i. he_clk e (10 + i)"]
    have "limited_user (he_deps e) u user (hp_store s') \<and> us_rateLimiter (hp_store s') = us_rateLimiter (hp_store s)"
      using assms(1) by (auto simp: s(1) store_simps)
    ultimately show ?thesis using assms(2) by (simp add: D' s(1) bucket_visit_def)
  next
    case False
    then have s': "s' = snd (handle_proxied e s new_response r)" by (simp add: s'_def handleRequest_not_pac)
    show ?thesis
    proof (cases rule: handle_proxied_cases [of s r e])
      case (valid n p user' s1)
      define ex where "ex = exempt (hp_store s1) (rq_RemoteAddr r) user'"
      define q where "q = (if ex then (None, s1) else http_quota e s1 n user')"
      have s1: "limited_user (he_deps e) u user (hp_store s1)" "us_rateLimiter (hp_store s1) = us_rateLimiter (dp_store D)"
        "hp_events s1 = []"
        using assms(1) by (simp_all add: valid(4) s store_simps)
      have sv: "s' = (case fst q of Some (msg, code) \<Rightarrow> snd q | None \<Rightarrow> snd (serve_admitted e (snd q) new_response r user'))"
        unfolding s' valid(5) q_def ex_def by (simp add: case_prod_beta split: option.splits)
      then have store: "hp_store s' = (if ex then hp_store s1 else snd (CheckRateLimit (he_deps e) (hp_store s1) n (he_clk e 3)))"
        by (auto simp: serve_admitted_store http_quota_store q_def split: option.splits)
      have "filter is_egress (hp_events (snd q)) = []" using http_quota_events [of e s1 n user'] s1(3) by (simp add: q_def)
      then have out: "out \<longrightarrow> fst q = None" using sv by (auto simp: D'(2) split: option.splits)
      have rate: "\<not> ex \<longrightarrow> fst q = None \<longrightarrow> fst (CheckRateLimit (he_deps e) (hp_store s1) n (he_clk e 3))"
        using http_quota_rate by (simp add: q_def)
      have "n = u \<longrightarrow> \<not> ex"
        using validated_user(1) [OF _ valid(3)] assms(1) by (auto simp: s(1) limited_user_def ex_def exempt_def)
      then show ?thesis
        using checked_visit [OF s1(1) _ _ store rate out, of b] assms(2) valid(2) by (simp add: s1(2) D'(1))
    next
      case (invalid n p)
      then show ?thesis using assms s by (simp add: D' s' store_simps is_egress_def bucket_visit_def)
    qed (use s in \<open>simp_all add: D' s' assms(1,2) is_egress_def bucket_visit_def\<close>)
  qed
qed

lemma socks_visit:
  assumes "limited_user (se_deps e) u user (dp_store D)" "rl_buckets (us_rateLimiter (dp_store D)) u = Some b"
    and "serve (SocksClient e inp) D = (out, D')"
  shows "limited_user (se_deps e) u user (dp_store D') \<and>
    bucket_visit b (se_clk e 3) (client_name D (SocksClient e inp) = Some u \<and> out) (rl_buckets (us_rateLimiter (dp_store D')) u)"
proof -
  define s where "s = as_socks D inp"
  define s0 where "s0 = slog [SCall SMetricActiveConns [] MInc] s"
  define s' where "s' = socks_session e s0"
  have s0: "sk_store s0 = dp_store D" "filter is_dial (sk_events s0) = []" by (simp_all add: s0_def s_def as_socks_def)
  have s: "sk_store s = dp_store D" "sk_events s = []" by (simp_all add: s_def as_socks_def)
  show ?thesis
  proof (cases "CheckIPAllowed (sk_store s) (se_remote e)")
    case False
    then have "dp_store D' = dp_store D" "\<not> out"
      using assms(3) by (auto simp: handleConnection_def Let_def s_def [symmetric] s)
    then show ?thesis using assms(1,2) by (simp add: bucket_visit_def)
  next
    case True
    then have D': "dp_store D' = sk_store s'" "out \<longleftrightarrow> filter is_dial (sk_events s') \<noteq> []"
      using assms(3) by (auto simp: handleConnection_def Let_def s'_def s0_def s_def [symmetric] list_ex_iff filter_empty_conv)
    obtain x s1 where neg: "handleMethodNegotiation e s0 = (x, s1)" by fastforce
    have name: "client_name D (SocksClient e inp) = (case x of Inl _ \<Rightarrow> None | Inr n \<Rightarrow> Some n)"
      using neg by (simp add: s0_def s_def)
    show ?thesis
    proof (cases x)
      case (Inl err)
      have "\<not> out" using negotiation_frame(2) [of e s0] neg s0(2) Inl by (simp add: D'(2) s'_def socks_session_Inl)
      moreover have "limited_user (se_deps e) u user (sk_store s1) \<and> us_rateLimiter (sk_store s1) = us_rateLimiter (dp_store D)"
        using negotiation_limiter [of e u user s0] assms(1) by (simp add: neg s0(1))
      ultimately show ?thesis
        using assms(2) neg Inl by (simp add: D'(1) s'_def socks_session_Inl bucket_visit_def)
    next
      case (Inr n)
      from neg [unfolded Inr] obtain ms un pw rest where n: "sk_in s0 = client_greeting ms @ client_auth un pw @ rest"
        "MethodUserPass \<in> set ms" "n = string_of_bytes un"
        "fst (ValidateCredentials (se_deps e) (sk_store s0) n (string_of_bytes pw) (se_clk e 1) (se_clk e 2)) \<noteq> None"
        "s1 = s0\<lparr>sk_in := rest, sk_store := snd (ValidateCredentials (se_deps e) (sk_store s0) n (string_of_bytes pw) (se_clk e 1) (se_clk e 2)),
           sk_events := sk_events s0 @ [Sent [Version5, MethodUserPass], Sent [UserPassVersion, 0]]\<rparr>"
        by (rule negotiation_Inr)
      then obtain user' where v: "fst (ValidateCredentials (se_deps e) (dp_store D) n (string_of_bytes pw) (se_clk e 1) (se_clk e 2)) = Some user'"
        using s0(1) by auto
      have inv: "store_inv (se_deps e) (dp_store D)" using assms(1) by (simp add: limited_user_def)
      note found = validated_user(1) [OF inv v]
      have gu: "GetUser (se_deps e) (sk_store s1) n = Some user'" using found by (simp add: n(5) s0(1))
      define ex where "ex = exempt (sk_store s1) (se_remote e) user'"
      define q where "q = (if ex then (True, s1) else socks_quota e s1 n (Some user'))"
      have s1: "limited_user (se_deps e) u user (sk_store s1)" "us_rateLimiter (sk_store s1) = us_rateLimiter (dp_store D)"
        "filter is_dial (sk_events s1) = []"
        using assms(1) s0 by (simp_all add: n(5) store_simps)
      have sv: "s' = (if \<not> fst q then snd q else s_on_tracker (\<lambda>t. DecrementConns (se_off e) t n (se_clk e 9))
          (socks_serve e (s_on_tracker (\<lambda>t. IncrementConns (se_off e) t n (se_clk e 7)) (snd q)) n))"
        using socks_session_Inr [OF neg [unfolded Inr] gu] by (simp add: s'_def q_def ex_def case_prod_beta)
      then have store: "sk_store s' = (if ex then sk_store s1 else snd (CheckRateLimit (se_deps e) (sk_store s1) n (se_clk e 3)))"
        by (auto simp: socks_serve_store socks_quota_store q_def)
      have "filter is_dial (sk_events (snd q)) = []" using s1(3) by (simp add: q_def)
      then have out: "out \<longrightarrow> fst q" using sv by (auto simp: D'(2))
      have rate: "\<not> ex \<longrightarrow> fst q \<longrightarrow> fst (CheckRateLimit (se_deps e) (sk_store s1) n (se_clk e 3))"
        using socks_quota_rate by (simp add: q_def)
      have "n = u \<longrightarrow> \<not> ex" using found assms(1) by (auto simp: limited_user_def ex_def exempt_def)
      then show ?thesis
        using checked_visit [OF s1(1) _ _ store rate out, of b] assms(2) by (simp add: s1(2) D'(1) name Inr del: client_name.simps)
    qed
  qed
qed

lemma serve_visit:
  assumes "limited_user (client_deps c) u user (dp_store D)" "rl_buckets (us_rateLimiter (dp_store D)) u = Some b"
    and "serve c D = (out, D')"
  shows "limited_user (client_deps c) u user (dp_store D') \<and>
    bucket_visit b (client_time c) (client_name D c = Some u \<and> out) (rl_buckets (us_rateLimiter (dp_store D')) u)"
  using assms http_visit socks_visit by (cases c) auto

section \<open>All clients\<close>

text \<open>The traffic of a user never exceeds what its bucket granted alone, at some of the times.\<close>

lemma serve_all_granted:
  assumes "limited_user d u user (dp_store D)" "rl_buckets (us_rateLimiter (dp_store D)) u = Some b"
    and "list_all (\<lambda>c. client_deps c = d) cs"
  shows "\<exists>ts. subseq ts (map client_time cs) \<and>
    length (filter (\<lambda>v. v = (Some u, True)) (fst (serve_all cs D))) \<le> granted (fst (run_one bucket_allow b ts))"
  using assms
proof (induction cs arbitrary: D b)
  case (Cons c cs)
  obtain out D1 where step: "serve c D = (out, D1)" by fastforce
  have c: "client_deps c = d" "list_all (\<lambda>c. client_deps c = d) cs" using Cons.prems(3) by simp_all
  have v: "limited_user d u user (dp_store D1)"
    "bucket_visit b (client_time c) (client_name D c = Some u \<and> out) (rl_buckets (us_rateLimiter (dp_store D1)) u)"
    using serve_visit [OF _ Cons.prems(2) step] Cons.prems(1) c(1) by auto
  let ?counted = "client_name D c = Some u \<and> out"
  have count: "length (filter (\<lambda>v. v = (Some u, True)) (fst (serve_all (c # cs) D))) =
      (if ?counted then 1 else 0) + length (filter (\<lambda>v. v = (Some u, True)) (fst (serve_all cs D1)))"
    by (simp add: step case_prod_beta Let_def)
  from v(2) show ?case unfolding bucket_visit_def
  proof (elim disjE conjE)
    assume none: "\<not> ?counted" and b: "rl_buckets (us_rateLimiter (dp_store D1)) u = Some b"
    from Cons.IH [OF v(1) b c(2)] obtain ts where "subseq ts (map client_time cs)"
      "length (filter (\<lambda>v. v = (Some u, True)) (fst (serve_all cs D1))) \<le> granted (fst (run_one bucket_allow b ts))" by blast
    then show ?thesis using none count by (intro exI [of _ ts]) auto
  next
    assume b: "rl_buckets (us_rateLimiter (dp_store D1)) u = Some (snd (bucket_allow b (client_time c)))"
      and ok: "?counted \<longrightarrow> fst (bucket_allow b (client_time c))"
    from Cons.IH [OF v(1) b c(2)] obtain ts where ts: "subseq ts (map client_time cs)"
      "length (filter (\<lambda>v. v = (Some u, True)) (fst (serve_all cs D1)))
         \<le> granted (fst (run_one bucket_allow (snd (bucket_allow b (client_time c))) ts))" by blast
    have "granted (fst (run_one bucket_allow b (client_time c # ts))) =
        (if fst (bucket_allow b (client_time c)) then 1 else 0) +
        granted (fst (run_one bucket_allow (snd (bucket_allow b (client_time c))) ts))"
      by (simp add: case_prod_beta Let_def)
    then have "length (filter (\<lambda>v. v = (Some u, True)) (fst (serve_all (c # cs) D)))
        \<le> granted (fst (run_one bucket_allow b (client_time c # ts)))"
      using ts(2) ok count by (simp split: if_split_asm)
    moreover have "subseq (client_time c # ts) (map client_time (c # cs))" using ts(1) by simp
    ultimately show ?thesis by blast
  qed
qed (auto intro: exI [of _ "[]"])

section \<open>The limiter after loading the users\<close>

definition fresh_bucket :: "int \<Rightarrow> time \<Rightarrow> tokenBucket" where
  "fresh_bucket rpm now =
     \<lparr>tb_tokens = max 10 (fdiv (float64 rpm) 6), tb_maxTokens = max 10 (fdiv (float64 rpm) 6),
      tb_refillRate = fdiv (float64 rpm) 60, tb_lastRefill = now\<rparr>"

lemma SetLimit_buckets: "rl_buckets (SetLimit r n rpm now) u = (if u = n then Some (fresh_bucket rpm now) else rl_buckets r u)"
  by (simp add: SetLimit_def fresh_bucket_def Let_def max_def)

lemma load_users_fresh:
  assumes "fst (load_users d us m rl now) (lower d u) = Some user" "Username user = u" "0 < RateLimitRPM user"
    and "m (lower d u) = Some user \<Longrightarrow> rl_buckets rl u = Some (fresh_bucket (RateLimitRPM user) now)"
  shows "rl_buckets (snd (load_users d us m rl now)) u = Some (fresh_bucket (RateLimitRPM user) now)"
  using assms
proof (induction d us m rl now rule: load_users.induct)
  case (2 d x us m rl now)
  show ?case
  proof (cases "Enabled x")
    case True
    let ?m = "m(lower d (Username x) \<mapsto> x)"
    let ?rl = "if RateLimitRPM x > 0 then SetLimit rl (Username x) (RateLimitRPM x) now else rl"
    have start: "rl_buckets ?rl u = Some (fresh_bucket (RateLimitRPM user) now)" if "?m (lower d u) = Some user"
    proof (cases "lower d (Username x) = lower d u")
      case True
      then have "x = user" using that by simp
      then show ?thesis using "2.prems"(2,3) by (simp add: SetLimit_buckets)
    next
      case False
      then have "Username x \<noteq> u" "m (lower d u) = Some user" using that by auto
      then show ?thesis using "2.prems"(4) by (simp add: SetLimit_buckets)
    qed
    have step: "load_users d (x # us) m rl now = load_users d us ?m ?rl now"
      using True by (simp only: load_users.simps if_True)
    show ?thesis unfolding step
      by (rule "2.IH"(1) [OF True "2.prems"(1) [unfolded step] "2.prems"(2,3) start])
  qed (use 2 in simp)
qed simp

lemma loaded_bucket:
  assumes "NewUserStore d (Decoded cfg) order now = Inr st" "GetUser d st u = Some user" "Username user = u" "0 < RateLimitRPM user"
  shows "rl_buckets (us_rateLimiter st) u = Some (fresh_bucket (RateLimitRPM user) now)"
  using load_users_fresh [of d "Users cfg" Map.empty NewRateLimiter now u user] NewUserStore_users [OF assms(1)] assms(2-4)
  by (simp add: GetUser_def)

lemma fresh_bucket_ok: "0 < rpm \<Longrightarrow> bucket_ok (fresh_bucket rpm now)"
  by (auto simp: bucket_ok_def fresh_bucket_def fdiv_def float64_def max_def)

lemma sorted_subseq: "subseq xs ys \<Longrightarrow> sorted ys \<Longrightarrow> sorted (xs :: int list)"
proof (induction rule: list_emb.induct)
  case (list_emb_Cons2 x y xs ys)
  then have "set xs \<subseteq> set ys" by (auto dest: list_emb_set)
  then show ?case using list_emb_Cons2 by auto
qed auto

lemma sorted_last_ge: "sorted xs \<Longrightarrow> x \<in> set xs \<Longrightarrow> x \<le> last (xs :: int list)"
  by (induction xs) (auto split: if_splits)

section \<open>A name that nobody has in this spelling, over both servers\<close>

text \<open>As in the HTTP server, the store is changed by credential checks and rate limit checks only.\<close>

lemma handleConnection_store_keeps:
  assumes "P (sk_store s)" and v: "\<And>st n p t t'. P st \<Longrightarrow> P (snd (ValidateCredentials (se_deps e) st n p t t'))"
    and q: "\<And>st n t. P st \<Longrightarrow> P (snd (CheckRateLimit (se_deps e) st n t))"
  shows "P (sk_store (handleConnection e s))"
proof -
  define s0 where "s0 = slog [SCall SMetricActiveConns [] MInc] s"
  obtain x s1 where neg: "handleMethodNegotiation e s0 = (x, s1)" by fastforce
  have "P (sk_store (snd (handleMethodNegotiation e s0)))"
    by (rule negotiation_keeps [of "\<lambda>s. P (sk_store s)"]) (simp_all add: assms(1) v s0_def)
  then have s1: "P (sk_store s1)" by (simp add: neg)
  have "P (sk_store (socks_session e s0))"
    using s1 by (cases x) (simp_all add: socks_session_def neg Let_def case_prod_beta socks_serve_store socks_quota_store q)
  then show ?thesis using assms(1) by (simp add: handleConnection_def s0_def)
qed

lemma serve_store_keeps:
  assumes "P (dp_store D)" "\<And>st n p t t'. P st \<Longrightarrow> P (snd (ValidateCredentials (client_deps c) st n p t t'))"
    and "\<And>st n t. P st \<Longrightarrow> P (snd (CheckRateLimit (client_deps c) st n t))"
  shows "P (dp_store (snd (serve c D)))"
proof (cases c)
  case (HttpClient e r)
  then show ?thesis using handleRequest_store_keeps [of P "as_http D" e r] assms by (simp add: as_http_def Let_def)
next
  case (SocksClient e inp)
  then show ?thesis using handleConnection_store_keeps [of P "as_socks D inp" e] assms by (simp add: as_socks_def Let_def)
qed

lemma serve_all_unseen:
  "list_all (\<lambda>c. client_deps c = d) cs \<Longrightarrow> unseen_store d n (dp_store D) \<and> us_users (dp_store D) = m \<Longrightarrow>
   unseen_store d n (dp_store (snd (serve_all cs D))) \<and> us_users (dp_store (snd (serve_all cs D))) = m"
proof (induction cs arbitrary: D)
  case (Cons c cs)
  have "unseen_store d n (dp_store (snd (serve c D))) \<and> us_users (dp_store (snd (serve c D))) = m"
    by (rule serve_store_keeps [of "\<lambda>st. unseen_store d n st \<and> us_users st = m"])
      (use Cons.prems in \<open>simp_all add: unseen_store_Validate unseen_store_RateLimit store_simps\<close>)
  then show ?case using Cons by (simp add: case_prod_beta)
qed simp

text \<open>A client at an allowed address that presents the name \<open>n\<close> and the password \<open>p\<close> and asks for a target.\<close>

fun asks :: "deployment \<Rightarrow> client \<Rightarrow> string \<Rightarrow> string \<Rightarrow> bool" where
  "asks D (HttpClient e r) n p \<longleftrightarrow> \<not> for_pac (as_http D) r \<and> CheckIPAllowed (dp_store D) (rq_RemoteAddr r) \<and>
     parseProxyAuth r = Some (n, p) \<and> (rq_Method r = ''CONNECT'' \<or> rq_Scheme r \<noteq> [])"
| "asks D (SocksClient e inp) n p \<longleftrightarrow> CheckIPAllowed (dp_store D) (se_remote e) \<and>
     (\<exists>ms un pw tg port rest. inp = client_session ms un pw tg port @ rest \<and> n = string_of_bytes un \<and> p = string_of_bytes pw \<and>
        length ms \<le> 255 \<and> length un \<le> 255 \<and> length pw \<le> 255 \<and> MethodUserPass \<in> set ms \<and> target_ok tg \<and> port < 65536)"

lemma asking_is_served:
  assumes "asks D c n p" "client_deps c = d" "store_inv d (dp_store D)" "GetUser d (dp_store D) n = Some user"
    and "bcrypt_compare d (PasswordHash user) p"
    and "policy_ok d (client_wr c) (client_off c) (client_clk c) (dp_store D) (dp_bw D) n user"
  shows "fst (serve c D)"
proof -
  have g: "us_users (dp_store D) (lower d n) = Some user" using assms(4) by (simp add: GetUser_def)
  show ?thesis
  proof (cases c)
    case (HttpClient e r)
    note a = assms(1) [unfolded HttpClient asks.simps]
    let ?s = "as_http D"
    have d: "he_deps e = d" using assms(2) HttpClient by simp
    have v: "fst (ValidateCredentials d (hp_store ?s) n p (he_clk e 1) (he_clk e 2)) = Some user"
      using ValidateCredentials_complete [OF assms(3) g assms(5)] by (simp add: as_http_def)
    have "filter is_egress (hp_events (snd (handle_proxied e ?s new_response r))) \<noteq> []"
    proof (cases rule: handle_proxied_cases [of ?s r e])
      case (valid u' p' user' s1)
      have same: "u' = n" "user' = user" using valid(2,3) d a v by simp_all
      have "fst (http_quota e s1 n user) = None"
        using assms(6) HttpClient d by (simp add: http_quota_passes valid(4) as_http_def)
      then show ?thesis using a unfolding valid(5) same by (auto simp: case_prod_beta serve_admitted_egress)
    qed (use a v d in \<open>simp_all add: as_http_def\<close>)
    then show ?thesis using a HttpClient by (auto simp: Let_def handleRequest_not_pac list_ex_iff filter_empty_conv)
  next
    case (SocksClient e inp)
    have d: "se_deps e = d" using assms(2) SocksClient by simp
    from assms(1) [unfolded SocksClient asks.simps] obtain ms un pw tg port rest where a:
      "CheckIPAllowed (dp_store D) (se_remote e)" "inp = client_session ms un pw tg port @ rest" "n = string_of_bytes un"
      "p = string_of_bytes pw" "length ms \<le> 255" "length un \<le> 255" "length pw \<le> 255" "MethodUserPass \<in> set ms"
      "target_ok tg" "port < 65536" by blast
    have i: "sk_in (as_socks D inp) = client_session ms un pw tg port @ rest" by (simp add: as_socks_def a(2))
    have "may_enter e (as_socks D inp) (string_of_bytes un) (string_of_bytes pw) user"
      using assms(3,5,6) g a(1,3,4) d SocksClient by (simp add: may_enter_def as_socks_def)
    then show ?thesis using handleConnection_events [OF i a(5-8) _ a(9,10)] SocksClient
      by (simp add: Let_def relay_events_def)
  qed
qed

section \<open>Properties\<close>

text \<open>C11: the rate limit is keyed by the name as the client types it, while users are found whatever its
  case: let a name \<open>n\<close> find a user, but be spelled like none of the users file. After any sequence of
  clients of both servers, however many and however fast, the next client that types \<open>n\<close> and the user's
  password and asks for a target is authenticated and served, provided only that the white list, the
  expiry date, the bandwidth cap and the connection limit (checked under \<open>n\<close>) let it pass. The user's rate
  limit is not among the conditions.\<close>

theorem rate_limit_case_bypass:
  assumes "sha_ok d" and "NewUserStore d (Decoded cfg) order now = Inr (dp_store D0)" and "n \<notin> Username ` set (Users cfg)"
    and "list_all (\<lambda>c. client_deps c = d) cs" and "D = snd (serve_all cs D0)"
    and "asks D c n p" and "client_deps c = d" and "GetUser d (dp_store D0) n = Some user"
    and "bcrypt_compare d (PasswordHash user) p" and "CheckExpiry d (dp_store D) n (client_clk c 4)"
    and "\<And>t. dp_bw D = Some t \<Longrightarrow> fst (CheckAllowance (client_wr c) (client_off c) t n (BandwidthLimitGB user) (client_clk c 5)) \<and>
           (MaxConnections user \<le> 0 \<or> conns_of t n < MaxConnections user)"
  shows "fst (serve c D)"
proof -
  have un: "unseen_store d n (dp_store D)" "GetUser d (dp_store D) n = Some user"
    using serve_all_unseen [OF assms(4), of n D0] NewUserStore_unseen [OF assms(1-3)] assms(8)
    by (simp_all add: assms(5) GetUser_def)
  then have "CheckRateLimit d (dp_store D) n (client_clk c 3) = (True, dp_store D)"
    by (auto simp: unseen_store_def GetUser_def intro: CheckRateLimit_no_bucket)
  then have "policy_ok d (client_wr c) (client_off c) (client_clk c) (dp_store D) (dp_bw D) n user"
    using assms(10,11) by (simp add: policy_ok_def)
  then show ?thesis using asking_is_served [OF assms(6,7) _ un(2) assms(9)] un(1) by (simp add: unseen_store_def)
qed

text \<open>Bob, who has 60 requests per minute and a burst of ten, gets his hundred and first connection in no time.\<close>

definition demo_fast :: client where
  "demo_fast = SocksClient demo_socks_env (client_session [MethodUserPass] (bytes_of_string ''bob'') (bytes_of_string ''pw'')
     (TargetIPv4 [127, 0, 0, 1]) 80)"

lemma socks_no_tracker: "sk_bw s = None \<Longrightarrow> sk_bw (handleConnection e s) = None"
proof -
  assume none: "sk_bw s = None"
  have q: "sk_bw (snd (socks_quota e s u user)) = None" if "sk_bw s = None" for s u user
    using that by (simp add: socks_quota_def s_ask_tracker_def Let_def case_prod_beta split: option.splits)
  have h: "sk_bw (socks_serve e s u) = None" if "sk_bw s = None" for s u
    using that socks_handleRequest_frame(1) [of s] by (cases "socks_handleRequest s")
      (simp add: socks_serve_def Let_def case_prod_beta split: sum.splits option.splits)
  have "sk_bw (socks_session e s) = None" if "sk_bw s = None" for s
    using that negotiation_frame(1) [of e s] by (cases "handleMethodNegotiation e s")
      (simp add: socks_session_def Let_def case_prod_beta q h split: sum.splits)
  then show ?thesis using none by (simp add: handleConnection_def)
qed

lemma demo_fast_clients:
  fixes k :: nat
  defines "D \<equiv> snd (serve_all (replicate k demo_fast) \<lparr>dp_store = demo_store, dp_bw = None, dp_pac = None\<rparr>)"
  shows "dp_bw D = None \<and> us_users (dp_store D) = us_users demo_store \<and> us_ipWhitelist (dp_store D) = []"
proof -
  have "dp_bw (snd (serve_all (replicate k demo_fast) D0)) = None \<and>
      us_users (dp_store (snd (serve_all (replicate k demo_fast) D0))) = us_users (dp_store D0) \<and>
      us_ipWhitelist (dp_store (snd (serve_all (replicate k demo_fast) D0))) = []"
    if "dp_bw D0 = None" "us_ipWhitelist (dp_store D0) = []" for D0
    using that
  proof (induction k arbitrary: D0)
    case (Suc k)
    have "dp_bw (snd (serve demo_fast D0)) = None" using Suc.prems(1) by (simp add: demo_fast_def Let_def as_socks_def socks_no_tracker)
    moreover have "us_users (dp_store (snd (serve demo_fast D0))) = us_users (dp_store D0) \<and>
        us_ipWhitelist (dp_store (snd (serve demo_fast D0))) = []"
      by (rule serve_store_keeps [of "\<lambda>st. us_users st = us_users (dp_store D0) \<and> us_ipWhitelist st = []"])
        (use Suc.prems(2) in \<open>simp_all add: store_simps\<close>)
    ultimately show ?case using Suc.IH [of "snd (serve demo_fast D0)"] by (simp add: case_prod_beta)
  qed simp
  then show ?thesis by (simp add: D_def demo_store_def empty_store_def)
qed

theorem rate_limit_case_bypass_witness:
  "fst (serve demo_fast (snd (serve_all (replicate 100 demo_fast) \<lparr>dp_store = demo_store, dp_bw = None, dp_pac = None\<rparr>)))"
proof -
  let ?D = "\<lparr>dp_store = demo_store, dp_bw = None, dp_pac = None\<rparr>"
  define D where "D = snd (serve_all (replicate 100 demo_fast) ?D)"
  note D = demo_fast_clients [of 100, folded D_def]
  have new: "NewUserStore demo_deps (Decoded demo_cfg) [''bob''] 0 = Inr (dp_store ?D)" by (simp add: demo_NewUserStore)
  have b: "string_of_bytes (bytes_of_string ''bob'') = ''bob''" "string_of_bytes (bytes_of_string ''pw'') = ''pw''" by code_simp+
  have deps: "client_deps demo_fast = demo_deps" "client_clk demo_fast 4 = 0" by (simp_all add: demo_fast_def demo_socks_env_def)
  have "asks D demo_fast ''bob'' ''pw''"
    unfolding demo_fast_def asks.simps using D b
    by (intro conjI exI [of _ "[MethodUserPass]"] exI [of _ "bytes_of_string ''bob''"] exI [of _ "bytes_of_string ''pw''"]
        exI [of _ "TargetIPv4 [127, 0, 0, 1]"] exI [of _ "80 :: nat"] exI [of _ "[] :: byte list"])
      (simp_all add: CheckIPAllowed_def bytes_of_string_def)
  moreover have "GetUser demo_deps (dp_store ?D) ''bob'' = Some demo_user" by (simp add: GetUser_def demo_store_def)
  moreover have "CheckExpiry demo_deps (dp_store D) ''bob'' (client_clk demo_fast 4)"
    using D deps by (simp add: CheckExpiry_def demo_store_def demo_expiry)
  ultimately show ?thesis
    using rate_limit_case_bypass [OF demo_sha_ok new, of "''bob''" "replicate 100 demo_fast" D demo_fast "''pw''" demo_user] D deps
    by (simp add: D_def [symmetric] list_all_iff demo_cfg_def)
qed

text \<open>C35: the rate limit binds a user across both servers: from the moment the users were loaded, in any
  sequence of clients of the HTTP proxy (its PAC file included) and of the SOCKS5 proxy, the number of
  those that present a rate limited user's name as the users file spells it and make traffic leave the
  proxy is at most the burst \<open>max 10 (rpm / 6)\<close> plus \<open>rpm / 60\<close> per elapsed second, up to the rounding of \<^verbatim>\<open>float64\<close>.\<close>

theorem shared_rate_limit:
  assumes "sha_ok d" and "NewUserStore d (Decoded cfg) order now = Inr (dp_store D)"
    and "GetUser d (dp_store D) u = Some user" and "Username user = u" and "Role user \<noteq> ''super_admin''"
    and "0 < RateLimitRPM user" and "RateLimitRPM user \<le> 2 ^ 53"
    and "list_all (\<lambda>c. client_deps c = d) cs" and "sorted (now # map client_time cs)"
  defines "burst \<equiv> max 10 (fdiv (of_int (RateLimitRPM user)) 6)"
  shows "of_nat (length (filter (\<lambda>v. v = (Some u, True)) (fst (serve_all cs D))))
    \<le> burst + of_int (last (now # map client_time cs) - now) / 10 ^ 9 * fdiv (of_int (RateLimitRPM user)) 60
       + of_nat (length cs) * (burst / 2 ^ 49)"
proof -
  define b where "b = fresh_bucket (RateLimitRPM user) now"
  define rate where "rate = fdiv (of_int (RateLimitRPM user)) 60"
  have b: "tb_tokens b = burst" "tb_maxTokens b = burst" "tb_refillRate b = rate" "tb_lastRefill b = now"
    using assms(6,7) by (simp_all add: b_def fresh_bucket_def burst_def rate_def)
  have "store_inv d (dp_store D)" using store_inv_LoadFromFile [OF assms(1) NewUserStore_LoadFromFile [OF assms(2)]] .
  then have user: "limited_user d u user (dp_store D)" using assms(3,5,6) by (simp add: limited_user_def)
  obtain ts where ts: "subseq ts (map client_time cs)"
    "length (filter (\<lambda>v. v = (Some u, True)) (fst (serve_all cs D))) \<le> granted (fst (run_one bucket_allow b ts))"
    using serve_all_granted [OF user loaded_bucket [OF assms(2,3,4,6)] assms(8)] by (auto simp: b_def)
  have sub: "subseq (now # ts) (now # map client_time cs)" using ts(1) by simp
  have sorted: "sorted (now # ts)" by (rule sorted_subseq [OF sub assms(9)])
  have len: "length ts \<le> length cs" using list_emb_length [OF ts(1)] by simp
  have "last (now # ts) \<in> set (now # ts)" by (rule last_in_set) simp
  then have "last (now # ts) \<in> set (now # map client_time cs)" using list_emb_set [OF sub] by blast
  then have last: "last (now # ts) \<le> last (now # map client_time cs)" by (rule sorted_last_ge [OF assms(9)])
  have "0 \<le> burst" "0 \<le> rate" using fresh_bucket_ok [OF assms(6), of now] by (simp_all add: bucket_ok_def b_def [symmetric] b)
  then have time: "of_int (last (now # ts) - now) / 10 ^ 9 * rate \<le> of_int (last (now # map client_time cs) - now) / 10 ^ 9 * rate"
    using last by (intro mult_right_mono divide_right_mono) (simp_all only: of_int_le_iff diff_right_mono zero_le_power zero_le_numeral)
  have "11 / 2 ^ 53 * burst \<le> burst / 2 ^ 49" using \<open>0 \<le> burst\<close> by simp
  then have rounding: "of_nat (length ts) * (11 / 2 ^ 53 * burst) \<le> of_nat (length cs) * (burst / 2 ^ 49)"
    using len \<open>0 \<le> burst\<close> by (intro mult_mono) (simp_all only: of_nat_le_iff of_nat_0_le_iff, simp_all)
  have "of_nat (granted (fst (run_one bucket_allow b ts)))
      \<le> burst + of_int (last (now # ts) - now) / 10 ^ 9 * rate + of_nat (length ts) * (11 / 2 ^ 53 * burst)"
    using bucket_run_bound [OF fresh_bucket_ok [OF assms(6), of now], of ts] sorted by (simp add: b_def [symmetric] b)
  moreover have "of_nat (length (filter (\<lambda>v. v = (Some u, True)) (fst (serve_all cs D)))) \<le> (of_nat (granted (fst (run_one bucket_allow b ts))) :: rat)"
    using ts(2) by (simp only: of_nat_le_iff)
  ultimately show ?thesis using time rounding unfolding rate_def by linarith
qed

text \<open>The hypotheses hold for a user with sixty requests per minute who comes over both servers.\<close>

definition demo_clients :: "client list" where
  "demo_clients = [HttpClient demo_env demo_connect,
     SocksClient (demo_socks_env\<lparr>se_clk := \<lambda>_. second\<rparr>) (sk_in (demo_socks (TargetIPv4 [127, 0, 0, 1]) 80))]"

theorem shared_rate_limit_witness:
  "of_nat (length (filter (\<lambda>v. v = (Some ''Bob'', True))
      (fst (serve_all demo_clients \<lparr>dp_store = demo_store, dp_bw = Some demo_tracker, dp_pac = None\<rparr>)))) \<le> (11 + 20 / 2 ^ 49 :: rat)"
proof -
  let ?D = "\<lparr>dp_store = demo_store, dp_bw = Some demo_tracker, dp_pac = None\<rparr>"
  have "NewUserStore demo_deps (Decoded demo_cfg) [''bob''] 0 = Inr (dp_store ?D)" by (simp add: demo_NewUserStore)
  moreover have "GetUser demo_deps (dp_store ?D) ''Bob'' = Some demo_user"
    by (simp add: GetUser_def demo_store_def ToLower_def is_ascii_def ascii_lower_def char_of_def bit_Suc_0_iff)
  moreover have "fdiv (of_int 60) 6 = 10" "fdiv (of_int 60) 60 = 1" by (simp_all add: fdiv_def)
  moreover have "list_all (\<lambda>c. client_deps c = demo_deps) demo_clients" "map client_time demo_clients = [3, second]"
    by (simp_all add: demo_clients_def demo_env_def demo_socks_env_def)
  ultimately show ?thesis
    using shared_rate_limit [OF demo_sha_ok, of demo_cfg "[''bob'']" 0 ?D "''Bob''" demo_user demo_clients]
    by (simp add: second_def demo_clients_def)
qed
end
