(* ===== verification/Sessions.thy ===== *)
theory Sessions
  imports Usage_Tracker
begin

text \<open>
  Concurrent connections of \<^verbatim>\<open>httpproxy\<close> and \<^verbatim>\<open>socks5\<close> on their shared bandwidth tracker. Each handler
  runs in its own goroutine and calls the tracker's methods one after the other; every method
  holds the tracker's lock, so an execution is an interleaving of these calls. \<open>sess_step\<close> has one
  rule per call, in the order in which a handler makes them; \<open>sess_reach\<close> is what can happen.
\<close>

section \<open>Sessions and their steps\<close>

datatype session_phase = Arriving | Allowed | Passed | Active | Finished | Refused

text \<open>
  \<open>ss_name\<close> is the name the client typed, under which the limits are checked; \<open>ss_user\<close> the name under
  which the connection is counted (the same in \<^verbatim>\<open>socks5\<close>, \<^verbatim>\<open>user.Username\<close> in \<^verbatim>\<open>httpproxy\<close>).
\<close>

record session =
  ss_name :: string
  ss_user :: string
  ss_gb :: int
  ss_max :: int
  ss_exempt :: bool
  ss_phase :: session_phase

record run =
  rn_sessions :: "session list"
  rn_tracker :: Tracker

definition stands :: "run \<Rightarrow> nat \<Rightarrow> session_phase \<Rightarrow> bool" where
  "stands r i p \<longleftrightarrow> i < length (rn_sessions r) \<and> ss_phase (rn_sessions r ! i) = p"

definition move :: "nat \<Rightarrow> session_phase \<Rightarrow> Tracker \<Rightarrow> run \<Rightarrow> run" where
  "move i p t r = \<lparr>rn_sessions = (rn_sessions r)[i := (rn_sessions r ! i)\<lparr>ss_phase := p\<rparr>], rn_tracker = t\<rparr>"

inductive sess_step :: "writer \<Rightarrow> int \<Rightarrow> run \<Rightarrow> run \<Rightarrow> bool" for wr off where
  Arrive: "ss_phase x = Arriving \<Longrightarrow> sess_step wr off r (r\<lparr>rn_sessions := rn_sessions r @ [x]\<rparr>)"
| Exempt: "stands r i Arriving \<Longrightarrow> ss_exempt (rn_sessions r ! i) \<Longrightarrow> sess_step wr off r (move i Passed (rn_tracker r) r)"
| Allowance: "stands r i Arriving \<Longrightarrow> \<not> ss_exempt (rn_sessions r ! i) \<Longrightarrow>
    CheckAllowance wr off (rn_tracker r) (ss_name (rn_sessions r ! i)) (ss_gb (rn_sessions r ! i)) now = (ok, t) \<Longrightarrow>
    sess_step wr off r (move i (if ok then Allowed else Refused) t r)"
| ConnLimit: "stands r i Allowed \<Longrightarrow>
    CheckConnLimit off (rn_tracker r) (ss_name (rn_sessions r ! i)) (ss_max (rn_sessions r ! i)) now = (ok, t) \<Longrightarrow>
    sess_step wr off r (move i (if ok then Passed else Refused) t r)"
| Enter: "stands r i Passed \<Longrightarrow>
    sess_step wr off r (move i Active (IncrementConns off (rn_tracker r) (ss_user (rn_sessions r ! i)) now) r)"
| Charge: "stands r i Active \<Longrightarrow>
    sess_step wr off r (move i Active (RecordBytes wr off (rn_tracker r) (ss_user (rn_sessions r ! i)) up down now) r)"
| Leave: "stands r i Active \<Longrightarrow>
    sess_step wr off r (move i Finished (DecrementConns off (rn_tracker r) (ss_user (rn_sessions r ! i)) now) r)"

inductive_cases sess_stepE: "sess_step wr off r r'"

inductive sess_reach :: "writer \<Rightarrow> int \<Rightarrow> run \<Rightarrow> run \<Rightarrow> bool" for wr off r0 where
  Init: "sess_reach wr off r0 r0"
| Step: "sess_reach wr off r0 r \<Longrightarrow> sess_step wr off r r' \<Longrightarrow> sess_reach wr off r0 r'"

text \<open>Sessions of a user in a phase.\<close>

definition in_phase :: "session_phase \<Rightarrow> string \<Rightarrow> session \<Rightarrow> bool" where
  "in_phase p u x \<longleftrightarrow> ss_phase x = p \<and> ss_user x = u"

definition count_in :: "session_phase \<Rightarrow> string \<Rightarrow> run \<Rightarrow> nat" where
  "count_in p u r = length (filter (in_phase p u) (rn_sessions r))"

section \<open>Counting\<close>

lemma filter_update:
  "i < length xs \<Longrightarrow>
   length (filter P (xs[i := y])) + (if P (xs ! i) then 1 else 0) = length (filter P xs) + (if P y then 1 else 0)"
proof (induction xs arbitrary: i)
  case (Cons x xs)
  then show ?case by (cases i) auto
qed simp

lemma count_in_le: "count_in p u r \<le> length (rn_sessions r)"
  by (simp add: count_in_def)

lemma length_move [simp]: "length (rn_sessions (move i p t r)) = length (rn_sessions r)"
  by (simp add: move_def)

lemma tracker_move [simp]: "rn_tracker (move i p t r) = t"
  by (simp add: move_def)

lemma count_in_arrive:
  "ss_phase x = Arriving \<Longrightarrow> p \<noteq> Arriving \<Longrightarrow> count_in p u (r\<lparr>rn_sessions := rn_sessions r @ [x]\<rparr>) = count_in p u r"
  by (simp add: count_in_def in_phase_def)

lemma count_in_move:
  assumes "stands r i q"
  shows "count_in p u (move i q' t r) + (if p = q \<and> ss_user (rn_sessions r ! i) = u then 1 else 0)
    = count_in p u r + (if p = q' \<and> ss_user (rn_sessions r ! i) = u then 1 else 0)"
  using filter_update [of i "rn_sessions r" "in_phase p u" "(rn_sessions r ! i)\<lparr>ss_phase := q'\<rparr>"] assms
  by (auto simp: stands_def count_in_def move_def in_phase_def split: if_splits)

lemma count_in_pos: "stands r i p \<Longrightarrow> 0 < count_in p (ss_user (rn_sessions r ! i)) r"
  by (auto simp: stands_def count_in_def in_phase_def filter_empty_conv intro!: bexI [of _ "rn_sessions r ! i"])

text \<open>The tracker's count is the number of active sessions, as long as there are fewer than \<open>2\<^sup>6\<^sup>3\<close>.\<close>

definition counts_exact :: "run \<Rightarrow> bool" where
  "counts_exact r \<longleftrightarrow> (\<forall>u. conns_of (rn_tracker r) u = int (count_in Active u r))"

lemma counts_exact_step:
  assumes "sess_step wr off r r'" "counts_exact r" "int (length (rn_sessions r')) < 2 ^ 63"
  shows "counts_exact r'"
  using assms(1)
proof (cases rule: sess_step.cases)
  case (Arrive x)
  then show ?thesis using assms(2) by (simp add: counts_exact_def count_in_arrive)
next
  case (Exempt i)
  then show ?thesis using assms(2) count_in_move [OF Exempt(2), of Active _ Passed] by (simp add: counts_exact_def)
next
  case (Allowance i now ok t)
  moreover have "conns_of t u = conns_of (rn_tracker r) u" for u
    using CheckAllowance_conns [of wr off "rn_tracker r"] Allowance(4) by (metis snd_conv)
  ultimately show ?thesis using assms(2) count_in_move [OF Allowance(2), of Active _ _ t] by (simp add: counts_exact_def)
next
  case (ConnLimit i now ok t)
  moreover have "conns_of t u = conns_of (rn_tracker r) u" for u
    using CheckConnLimit_conns [of off "rn_tracker r"] ConnLimit(3) by (metis snd_conv)
  ultimately show ?thesis using assms(2) count_in_move [OF ConnLimit(2), of Active _ _ t] by (simp add: counts_exact_def)
next
  case (Enter i now)
  let ?v = "ss_user (rn_sessions r ! i)"
  have "int (count_in Active ?v r) + 1 < 2 ^ 63"
    using count_in_move [OF Enter(2), of Active ?v Active] count_in_le [of Active ?v r'] assms(3) Enter(1) by simp
  then have "i64 (conns_of (rn_tracker r) ?v + 1) = int (count_in Active ?v r) + 1"
    using assms(2) by (simp add: counts_exact_def)
  then show ?thesis using assms(2) count_in_move [OF Enter(2), of Active _ Active]
    by (auto simp: Enter(1) counts_exact_def conns.inc_count)
next
  case (Charge i up down now)
  then show ?thesis using assms(2) count_in_move [OF Charge(2), of Active _ Active] by (simp add: counts_exact_def)
next
  case (Leave i now)
  let ?v = "ss_user (rn_sessions r ! i)"
  have n: "count_in Active u r' + (if ?v = u then 1 else 0) = count_in Active u r" for u
    using count_in_move [OF Leave(2), of Active u Finished] Leave(1) by simp
  have "conns_of (rn_tracker r') u = int (count_in Active u r) - (if ?v = u then 1 else 0)" for u
    using assms(2) count_in_pos [OF Leave(2)] by (auto simp: Leave(1) counts_exact_def conns.dec_count)
  moreover have "int (count_in Active u r) - (if ?v = u then 1 else 0) = int (count_in Active u r')" for u
    using n [of u] by (auto split: if_splits)
  ultimately show ?thesis by (simp add: counts_exact_def)
qed

lemma sess_step_length: "sess_step wr off r r' \<Longrightarrow> length (rn_sessions r) \<le> length (rn_sessions r')"
  by (erule sess_stepE) auto

lemma counts_exact_reach:
  assumes "sess_reach wr off r0 r" "counts_exact r0" "int (length (rn_sessions r)) < 2 ^ 63"
  shows "counts_exact r"
  using assms
proof (induction rule: sess_reach.induct)
  case (Step r r')
  then show ?case using counts_exact_step sess_step_length [OF Step.hyps(2)] by fastforce
qed

section \<open>Serialised admission\<close>

text \<open>
  Executions in which, between its connection check and its increment, a session of user \<open>u\<close> is
  never overtaken by another check for \<open>u\<close>; and in which \<open>u\<close>'s sessions type the name as it is
  counted, have the limit \<open>m\<close> and are not exempt.
\<close>

definition plain :: "string \<Rightarrow> int \<Rightarrow> session \<Rightarrow> bool" where
  "plain u m x \<longleftrightarrow> ss_user x = u \<longrightarrow> ss_name x = u \<and> ss_max x = m \<and> \<not> ss_exempt x"

inductive serial_reach :: "writer \<Rightarrow> int \<Rightarrow> string \<Rightarrow> int \<Rightarrow> run \<Rightarrow> run \<Rightarrow> bool" for wr off u m r0 where
  SInit: "serial_reach wr off u m r0 r0"
| SStep: "serial_reach wr off u m r0 r \<Longrightarrow> sess_step wr off r r' \<Longrightarrow> count_in Passed u r' \<le> 1 \<Longrightarrow>
    list_all (plain u m) (rn_sessions r') \<Longrightarrow> serial_reach wr off u m r0 r'"

lemma serial_reach_sess_reach: "serial_reach wr off u m r0 r \<Longrightarrow> sess_reach wr off r0 r"
  by (induction rule: serial_reach.induct) (auto intro: sess_reach.intros)

lemma plain_step_back:
  "sess_step wr off r r' \<Longrightarrow> list_all (plain u m) (rn_sessions r') \<Longrightarrow> stands r i p \<Longrightarrow> plain u m (rn_sessions r ! i)"
  by (erule sess_stepE)
    (fastforce simp: list_all_length stands_def move_def plain_def nth_append nth_list_update split: if_splits)+

lemma limit_kept:
  assumes "sess_step wr off r r'" "counts_exact r" "count_in Passed u r' \<le> 1" "list_all (plain u m) (rn_sessions r')"
    "0 < m" "int (count_in Active u r + count_in Passed u r) \<le> m"
  shows "int (count_in Active u r' + count_in Passed u r') \<le> m"
  using assms(1)
proof (cases rule: sess_step.cases)
  case (Arrive x)
  then show ?thesis using assms(6) by (simp add: count_in_arrive)
next
  case (Exempt i)
  then show ?thesis
    using assms(6) plain_step_back [OF assms(1,4) Exempt(2)] count_in_move [OF Exempt(2), of Active u Passed]
      count_in_move [OF Exempt(2), of Passed u Passed]
    by (auto simp: plain_def split: if_splits)
next
  case (Allowance i now ok t)
  then show ?thesis
    using assms(6) count_in_move [OF Allowance(2), of Active u "if ok then Allowed else Refused" t]
      count_in_move [OF Allowance(2), of Passed u "if ok then Allowed else Refused" t] by (auto split: if_splits)
next
  case (ConnLimit i now ok t)
  let ?x = "rn_sessions r ! i"
  have a: "count_in Active u r' = count_in Active u r"
    using count_in_move [OF ConnLimit(2), of Active u "if ok then Passed else Refused" t] ConnLimit(1) by (auto split: if_splits)
  have p: "count_in Passed u r' = count_in Passed u r + (if ok \<and> ss_user ?x = u then 1 else 0)"
    using count_in_move [OF ConnLimit(2), of Passed u "if ok then Passed else Refused" t] ConnLimit(1) by (auto split: if_splits)
  show ?thesis
  proof (cases "ok \<and> ss_user ?x = u")
    case True
    then have "ss_name ?x = u" "ss_max ?x = m" using plain_step_back [OF assms(1,4) ConnLimit(2)] by (auto simp: plain_def)
    then have "conns_of (rn_tracker r) u < m"
      using True ConnLimit(3) CheckConnLimit_answer [of off "rn_tracker r" u m now] assms(5) by simp
    then show ?thesis using assms(2,3) True a p by (simp add: counts_exact_def)
  next
    case False
    then show ?thesis using assms(6) a p by auto
  qed
next
  case (Enter i now)
  then have "r' = move i Active (rn_tracker r') r" by simp
  then show ?thesis
    using assms(6) count_in_move [OF Enter(2), of Active u Active "rn_tracker r'"] count_in_move [OF Enter(2), of Passed u Active "rn_tracker r'"]
    by (auto split: if_splits)
next
  case (Charge i up down now)
  then have "r' = move i Active (rn_tracker r') r" by simp
  then show ?thesis
    using assms(6) count_in_move [OF Charge(2), of Active u Active "rn_tracker r'"] count_in_move [OF Charge(2), of Passed u Active "rn_tracker r'"]
    by (auto split: if_splits)
next
  case (Leave i now)
  then have "r' = move i Finished (rn_tracker r') r" by simp
  then show ?thesis
    using assms(6) count_in_move [OF Leave(2), of Active u Finished "rn_tracker r'"] count_in_move [OF Leave(2), of Passed u Finished "rn_tracker r'"]
    by (auto split: if_splits)
qed

lemma serial_limit:
  assumes "serial_reach wr off u m r0 r" "counts_exact r0" "0 < m"
    "int (count_in Active u r0 + count_in Passed u r0) \<le> m" "int (length (rn_sessions r)) < 2 ^ 63"
  shows "int (count_in Active u r + count_in Passed u r) \<le> m"
  using assms
proof (induction rule: serial_reach.induct)
  case (SStep r r')
  have "int (length (rn_sessions r)) < 2 ^ 63" using sess_step_length [OF SStep.hyps(2)] SStep.prems(4) by simp
  moreover from this have "counts_exact r"
    using counts_exact_reach [OF serial_reach_sess_reach [OF SStep.hyps(1)]] SStep.prems(1) by blast
  ultimately show ?case using SStep by (intro limit_kept [OF SStep.hyps(2)]) simp_all
qed simp

section \<open>Overtaking\<close>

text \<open>A client that opens connections as \<open>u\<close> with a limit of one, and the run before any of them.\<close>

definition greedy :: "string \<Rightarrow> session_phase \<Rightarrow> session" where
  "greedy u p = \<lparr>ss_name = u, ss_user = u, ss_gb = 0, ss_max = 1, ss_exempt = False, ss_phase = p\<rparr>"

text \<open>Its next connection arrives and passes both checks; then the first one waiting enters.\<close>

lemma greedy_admission:
  "sess_step wr off \<lparr>rn_sessions = xs, rn_tracker = t\<rparr> \<lparr>rn_sessions = xs @ [greedy u Arriving], rn_tracker = t\<rparr>"
  "sess_step wr off \<lparr>rn_sessions = xs @ [greedy u Arriving], rn_tracker = t\<rparr>
     \<lparr>rn_sessions = xs @ [greedy u Allowed], rn_tracker = t\<rparr>"
  "conns_of t u = 0 \<Longrightarrow> sess_step wr off \<lparr>rn_sessions = xs @ [greedy u Allowed], rn_tracker = t\<rparr>
     \<lparr>rn_sessions = xs @ [greedy u Passed], rn_tracker = snd (CheckConnLimit off t u 1 0)\<rparr>"
proof -
  show "sess_step wr off \<lparr>rn_sessions = xs, rn_tracker = t\<rparr> \<lparr>rn_sessions = xs @ [greedy u Arriving], rn_tracker = t\<rparr>"
    using sess_step.Arrive [of "greedy u Arriving" wr off "\<lparr>rn_sessions = xs, rn_tracker = t\<rparr>"] by (simp add: greedy_def)
  show "sess_step wr off \<lparr>rn_sessions = xs @ [greedy u Arriving], rn_tracker = t\<rparr>
     \<lparr>rn_sessions = xs @ [greedy u Allowed], rn_tracker = t\<rparr>"
    using sess_step.Allowance [of "\<lparr>rn_sessions = xs @ [greedy u Arriving], rn_tracker = t\<rparr>" "length xs" wr off 0 True t]
    by (simp add: stands_def move_def greedy_def CheckAllowance_def)
  assume "conns_of t u = 0"
  then have "CheckConnLimit off t u 1 0 = (True, snd (CheckConnLimit off t u 1 0))"
    using CheckConnLimit_answer [of off t u 1 0] by (simp add: prod_eq_iff)
  then show "sess_step wr off \<lparr>rn_sessions = xs @ [greedy u Allowed], rn_tracker = t\<rparr>
     \<lparr>rn_sessions = xs @ [greedy u Passed], rn_tracker = snd (CheckConnLimit off t u 1 0)\<rparr>"
    using sess_step.ConnLimit [of "\<lparr>rn_sessions = xs @ [greedy u Allowed], rn_tracker = t\<rparr>" "length xs" off 0 True
        "snd (CheckConnLimit off t u 1 0)" wr]
    by (simp add: stands_def move_def greedy_def)
qed

lemma greedy_enters:
  "sess_step wr off \<lparr>rn_sessions = replicate a (greedy u Active) @ replicate (Suc b) (greedy u Passed), rn_tracker = t\<rparr>
     \<lparr>rn_sessions = replicate (Suc a) (greedy u Active) @ replicate b (greedy u Passed), rn_tracker = IncrementConns off t u 0\<rparr>"
  using sess_step.Enter [of "\<lparr>rn_sessions = replicate a (greedy u Active) @ replicate (Suc b) (greedy u Passed), rn_tracker = t\<rparr>" a wr off 0]
  by (simp add: stands_def move_def nth_append list_update_append greedy_def replicate_app_Cons_same)

lemma greedy_checks:
  assumes "\<And>v. conns_of t v = 0"
  shows "\<exists>t'. sess_reach wr off \<lparr>rn_sessions = [], rn_tracker = t\<rparr> \<lparr>rn_sessions = replicate n (greedy u Passed), rn_tracker = t'\<rparr> \<and>
    (\<forall>v. conns_of t' v = 0)"
proof (induction n)
  case 0
  then show ?case using assms sess_reach.Init by fastforce
next
  case (Suc n)
  then obtain t1 where r: "sess_reach wr off \<lparr>rn_sessions = [], rn_tracker = t\<rparr>
      \<lparr>rn_sessions = replicate n (greedy u Passed), rn_tracker = t1\<rparr>" and z: "\<And>v. conns_of t1 v = 0" by blast
  have "sess_reach wr off \<lparr>rn_sessions = [], rn_tracker = t\<rparr>
      \<lparr>rn_sessions = replicate n (greedy u Passed) @ [greedy u Passed], rn_tracker = snd (CheckConnLimit off t1 u 1 0)\<rparr>"
    using r greedy_admission(1,2) greedy_admission(3) [OF z] by (meson sess_reach.Step)
  then show ?case using z by (auto simp flip: replicate_append_same)
qed

lemma greedy_enter:
  assumes "sess_reach wr off r0 \<lparr>rn_sessions = replicate a (greedy u Active) @ replicate b (greedy u Passed), rn_tracker = t\<rparr>"
  shows "\<exists>t'. sess_reach wr off r0 \<lparr>rn_sessions = replicate (a + b) (greedy u Active), rn_tracker = t'\<rparr>"
  using assms
proof (induction b arbitrary: a t)
  case (Suc b)
  have "sess_reach wr off r0
      \<lparr>rn_sessions = replicate (Suc a) (greedy u Active) @ replicate b (greedy u Passed), rn_tracker = IncrementConns off t u 0\<rparr>"
    using Suc.prems greedy_enters by (rule sess_reach.Step)
  from Suc.IH [OF this] show ?case by simp
qed auto

section \<open>Properties\<close>

text \<open>C32: in every interleaving of any number of connections, the tracker's count of active
  connections of a user is the number of handlers between their increment and their deferred
  decrement, whatever transfers, checks and monthly resets happen in between. When a user's
  check and increment are not overtaken by another check of that user, the user never has more
  active connections than the limit of the users file.\<close>

theorem connection_counts_exact:
  assumes "NewTracker off disk now = Some t0"
    and "sess_reach wr off \<lparr>rn_sessions = [], rn_tracker = t0\<rparr> r"
    and "int (length (rn_sessions r)) < 2 ^ 63"
  shows "conns_of (rn_tracker r) u = int (count_in Active u r) \<and>
    (0 < m \<and> serial_reach wr off u m \<lparr>rn_sessions = [], rn_tracker = t0\<rparr> r \<longrightarrow>
       int (count_in Active u r) \<le> m)"
proof -
  let ?init = "\<lparr>rn_sessions = [], rn_tracker = t0\<rparr>"
  have 0: "counts_exact ?init" by (simp add: counts_exact_def count_in_def NewTracker_conns [OF assms(1)])
  then show ?thesis using counts_exact_reach [OF assms(2) 0 assms(3)] serial_limit [of wr off u m ?init r] assms(3)
    by (auto simp: counts_exact_def count_in_def)
qed

theorem connection_counts_exact_witness:
  "\<exists>t0 r. NewTracker 0 NoFile 0 = Some t0 \<and>
     serial_reach (\<lambda>_ f. GoodFile f) 0 ''bob'' 1 \<lparr>rn_sessions = [], rn_tracker = t0\<rparr> r \<and>
     conns_of (rn_tracker r) ''bob'' = int (count_in Active ''bob'' r) \<and> count_in Active ''bob'' r = 1"
proof -
  obtain t0 where t0: "NewTracker 0 NoFile 0 = Some t0" by (simp add: NewTracker_def loadFromDisk_def)
  let ?t = t0 and ?wr = "\<lambda>_ f. GoodFile f"
  let ?init = "\<lparr>rn_sessions = [], rn_tracker = ?t\<rparr>"
  let ?r = "\<lparr>rn_sessions = [greedy ''bob'' Active], rn_tracker = IncrementConns 0 (snd (CheckConnLimit 0 ?t ''bob'' 1 0)) ''bob'' 0\<rparr>"
  have z: "conns_of ?t ''bob'' = 0" by (rule NewTracker_conns [OF t0])
  have small: "count_in Passed ''bob'' \<lparr>rn_sessions = [greedy ''bob'' p], rn_tracker = t\<rparr> \<le> 1"
    "list_all (plain ''bob'' 1) (rn_sessions \<lparr>rn_sessions = [greedy ''bob'' p], rn_tracker = t\<rparr>)" for p t
    by (simp_all add: count_in_def plain_def greedy_def)
  have step: "serial_reach ?wr 0 ''bob'' 1 ?init \<lparr>rn_sessions = [greedy ''bob'' p], rn_tracker = t\<rparr>"
    if "serial_reach ?wr 0 ''bob'' 1 ?init r" "sess_step ?wr 0 r \<lparr>rn_sessions = [greedy ''bob'' p], rn_tracker = t\<rparr>" for r p t
    using that small by (rule serial_reach.SStep)
  have s: "serial_reach ?wr 0 ''bob'' 1 ?init ?r"
  proof (rule step [OF step [OF step [OF step [OF serial_reach.SInit]]]])
    show "sess_step ?wr 0 ?init \<lparr>rn_sessions = [greedy ''bob'' Arriving], rn_tracker = ?t\<rparr>"
      using greedy_admission(1) [where xs = "[]"] by simp
    show "sess_step ?wr 0 \<lparr>rn_sessions = [greedy ''bob'' Arriving], rn_tracker = ?t\<rparr> \<lparr>rn_sessions = [greedy ''bob'' Allowed], rn_tracker = ?t\<rparr>"
      using greedy_admission(2) [where xs = "[]"] by simp
    show "sess_step ?wr 0 \<lparr>rn_sessions = [greedy ''bob'' Allowed], rn_tracker = ?t\<rparr>
        \<lparr>rn_sessions = [greedy ''bob'' Passed], rn_tracker = snd (CheckConnLimit 0 ?t ''bob'' 1 0)\<rparr>"
      using greedy_admission(3) [OF z, where xs = "[]"] by simp
    show "sess_step ?wr 0 \<lparr>rn_sessions = [greedy ''bob'' Passed], rn_tracker = snd (CheckConnLimit 0 ?t ''bob'' 1 0)\<rparr> ?r"
      using greedy_enters [where a = 0 and b = 0] by simp
  qed
  show ?thesis using connection_counts_exact [OF t0 serial_reach_sess_reach [OF s], of "''bob''"] s t0
    by (intro exI [of _ t0] exI [of _ ?r]) (simp add: count_in_def in_phase_def greedy_def)
qed

text \<open>C33: without that, the limit is no limit: the check and the increment are separate calls, so
  any number of connections of a user with \<^verbatim>\<open>max_connections\<close> 1 can be active at once.\<close>

theorem conn_limit_overtaken:
  assumes "NewTracker off disk now = Some t0"
  shows "\<exists>r. sess_reach wr off \<lparr>rn_sessions = [], rn_tracker = t0\<rparr> r \<and>
     rn_sessions r = replicate n (greedy u Active) \<and> count_in Active u r = n"
proof -
  obtain t where "sess_reach wr off \<lparr>rn_sessions = [], rn_tracker = t0\<rparr>
      \<lparr>rn_sessions = replicate n (greedy u Passed), rn_tracker = t\<rparr>"
    using greedy_checks [of t0 wr off n u] by (auto simp: NewTracker_conns [OF assms])
  then obtain t' where "sess_reach wr off \<lparr>rn_sessions = [], rn_tracker = t0\<rparr>
      \<lparr>rn_sessions = replicate n (greedy u Active), rn_tracker = t'\<rparr>"
    using greedy_enter [of wr off _ 0 u n t] by auto
  moreover have "filter (in_phase Active u) (replicate n (greedy u Active)) = replicate n (greedy u Active)"
    by (simp add: in_phase_def greedy_def)
  ultimately show ?thesis by (force simp: count_in_def)
qed

theorem conn_limit_overtaken_witness:
  "\<exists>t0 r. NewTracker 0 NoFile 0 = Some t0 \<and>
     sess_reach (\<lambda>_ f. GoodFile f) 0 \<lparr>rn_sessions = [], rn_tracker = t0\<rparr> r \<and> count_in Active ''bob'' r = 5"
proof -
  obtain t0 where t0: "NewTracker 0 NoFile 0 = Some t0" by (simp add: NewTracker_def loadFromDisk_def)
  then show ?thesis using conn_limit_overtaken [OF t0, of "\<lambda>_ f. GoodFile f" 5 "''bob''"] by blast
qed

end
