(* ===== verification/Manage_Users.thy ===== *)
theory Manage_Users
  imports User_Store Usage_Tracker Go_Text Go_Calendar "HOL-Library.Sublist"
begin

text \<open>
  \<^verbatim>\<open>scripts/manage-users.go\<close> and \<^verbatim>\<open>scripts/hash-password.go\<close>: the tools that edit \<^verbatim>\<open>users.json\<close>. A \<open>console\<close>
  holds the bytes still to be read from standard input and the bytes written to standard output.
  The users file is one of the \<open>users_file\<close>s the user store reads: \<open>wr old cfg\<close> is what is on disk after
  saving \<open>cfg\<close> over \<open>old\<close> (JSON encoding and writing, which may fail), \<open>gen\<close> is bcrypt and \<open>uni\<close> and \<open>ufold\<close>
  are the Unicode tables of \<^verbatim>\<open>strings.ToLower\<close> and \<^verbatim>\<open>strings.EqualFold\<close>. A loop that does not end is
  one that no fuel is enough for.
\<close>

section \<open>The console\<close>

record console =
  con_in :: string
  con_out :: string

definition nl :: string where
  "nl = [char_of (10 :: nat)]"

definition put :: "string \<Rightarrow> console \<Rightarrow> console" where
  "put s c = c\<lparr>con_out := con_out c @ s\<rparr>"

definition say :: "string \<Rightarrow> console \<Rightarrow> console" where
  "say s c = put (s @ nl) c"

definition quoted :: "string \<Rightarrow> string" where
  "quoted s = [CHR 0x27] @ s @ [CHR 0x27]"

definition tick_mark :: string where "tick_mark = utf8 [226, 156, 133]"
definition cross_mark :: string where "cross_mark = utf8 [226, 157, 140]"
definition warn_mark :: string where "warn_mark = utf8 [226, 154, 160, 239, 184, 143]"

text \<open>\<^verbatim>\<open>reader.ReadString\<close> with its error ignored: up to the newline, or what is left.\<close>

definition read_string :: "console \<Rightarrow> string \<times> console" where
  "read_string c =
     (case index_byte (con_in c) (char_of (10 :: nat)) of
        None \<Rightarrow> (con_in c, c\<lparr>con_in := []\<rparr>)
      | Some i \<Rightarrow> (take (Suc i) (con_in c), c\<lparr>con_in := drop (Suc i) (con_in c)\<rparr>))"

definition prompt :: "string \<Rightarrow> console \<Rightarrow> string \<times> console" where
  "prompt label c = (let (text, c) = read_string (put (label @ '': '') c) in (trim_space text, c))"

definition promptDefault :: "string \<Rightarrow> string \<Rightarrow> console \<Rightarrow> string \<times> console" where
  "promptDefault label defaultValue c =
     (let c = (if defaultValue \<noteq> [] then put (label @ '' ['' @ defaultValue @ '']: '') c else put (label @ '': '') c);
          (text, c) = read_string c;
          text = trim_space text
      in (if text = [] then defaultValue else text, c))"

section \<open>Library functions\<close>

text \<open>
  \<^verbatim>\<open>strconv.Atoi\<close>: the value it returns and whether its error is nil. A number out of range gives the
  nearest one in range, a malformed one 0. The digits are read as an unsigned 64-bit number
  first; the first digit that takes it over \<open>2\<^sup>6\<^sup>4\<close> ends the scan.
\<close>

datatype scan = SyntaxError | RangeError | Value int

fun parse_uint :: "string \<Rightarrow> int \<Rightarrow> scan" where
  "parse_uint [] n = Value n"
| "parse_uint (c # cs) n =
     (if \<not> is_digit c then SyntaxError
      else let n = n * 10 + int (digit_val c) in if n \<ge> 2 ^ 64 then RangeError else parse_uint cs n)"

definition Atoi :: "string \<Rightarrow> int \<times> bool" where
  "Atoi s =
     (let (neg, ds) = (if has_prefix s ''-'' then (True, tl s) else if has_prefix s ''+'' then (False, tl s) else (False, s))
      in if ds = [] then (0, False)
         else case parse_uint ds 0 of
                SyntaxError \<Rightarrow> (0, False)
              | RangeError \<Rightarrow> (if neg then - (2 ^ 63) else 2 ^ 63 - 1, False)
              | Value n \<Rightarrow>
                  if neg then if n > 2 ^ 63 then (- (2 ^ 63), False) else (- n, True)
                  else if n \<ge> 2 ^ 63 then (2 ^ 63 - 1, False) else (n, True))"

definition EqualFold :: "(string \<Rightarrow> string \<Rightarrow> bool) \<Rightarrow> string \<Rightarrow> string \<Rightarrow> bool" where
  "EqualFold ufold s t =
     (if is_ascii s \<and> is_ascii t then map ascii_lower s = map ascii_lower t else ufold s t)"

text \<open>\<^verbatim>\<open>time.Parse("2006-01-02", s)\<close>: midnight UTC of that day.\<close>

definition parse_day :: "string \<Rightarrow> time option" where
  "parse_day s =
     Option.bind (parse_date s) (\<lambda>(y, m, d, rest).
       if rest \<noteq> [] \<or> d < 1 \<or> days_in m y < d then None else Some (unix_days y m d * 86400 * second))"

section \<open>The operations\<close>

text \<open>The tool repeats the types of the user store, with the same fields and the same names in the file.\<close>

type_synonym tool_User = User

type_synonym tool_UsersConfig = UsersConfig

text \<open>
  What the tools use of the libraries: \<^verbatim>\<open>bcrypt\<close> (an error or the hash), case folding and mapping beyond
  ASCII, the error of \<^verbatim>\<open>json.MarshalIndent\<close> if it has one, and \<^verbatim>\<open>os.WriteFile\<close> of an encoded configuration
  (the file it leaves in place of the old one, and its error).
\<close>

record tool =
  tl_gen :: "string \<Rightarrow> string + string"
  tl_ufold :: "string \<Rightarrow> string \<Rightarrow> bool"
  tl_uni :: "string \<Rightarrow> string"
  tl_marshal :: "UsersConfig \<Rightarrow> string option"
  tl_wr :: "users_file \<Rightarrow> UsersConfig \<Rightarrow> users_file \<times> string option"
  tl_path :: string

text \<open>
  A line of the list; \<open>now\<close> is read when the entry has a date. The date is printed in the zone it
  was written in, so it is the text it was parsed from.
\<close>

definition list_line :: "time \<Rightarrow> nat \<Rightarrow> User \<Rightarrow> string" where
  "list_line now i u =
     ''  '' @ nat_dec (i + 1) @ '') '' @ (if Enabled u then tick_mark else cross_mark) @ '' '' @ Username u @
     '' ['' @ Role u @ ''] plan='' @ Plan u @
     (if BandwidthLimitGB u > 0 then '' bw='' @ int_dec (BandwidthLimitGB u) @ ''GB'' else '' bw='' @ utf8 [226, 136, 158]) @
     (if BandwidthSpeedMbps u > 0 then '' speed='' @ int_dec (BandwidthSpeedMbps u) @ ''Mbps'' else []) @
     (if MaxConnections u > 0 then '' conns='' @ int_dec (MaxConnections u) else []) @
     (if ExpiresAt u \<noteq> [] then
        (case parse_rfc3339 (ExpiresAt u) of
           None \<Rightarrow> []
         | Some t \<Rightarrow> if now > t then '' EXPIRED'' else '' expires='' @ take 10 (ExpiresAt u))
      else [])"

definition listUsers :: "(nat \<Rightarrow> time) \<Rightarrow> UsersConfig \<Rightarrow> console \<Rightarrow> console" where
  "listUsers now cfg c =
     (let rule = utf8 [226, 148, 128];
          c = say (nl @ rule @ rule @ '' Current Users '' @ concat (replicate 25 rule)) c
      in if length (Users cfg) = 0 then say ''  No users configured.'' c
         else fold (\<lambda>(i, u). say (list_line (now i) i u)) (enumerate 0 (Users cfg)) c)"

text \<open>\<^verbatim>\<open>addUser\<close> once the password is hashed, and from its beginning.\<close>

definition new_user :: "UsersConfig \<Rightarrow> string \<Rightarrow> string \<Rightarrow> console \<Rightarrow> UsersConfig \<times> console" where
  "new_user cfg username hash c =
     (let (role, c) = promptDefault ''Role (user/super_admin)'' ''user'' c;
         (plan, c) = promptDefault ''Plan name (starter/pro/enterprise/admin)'' ''starter'' c;
         (bwLimitStr, c) = promptDefault ''Monthly bandwidth limit in GB (0 = unlimited)'' ''0'' c;
         bwLimit = fst (Atoi bwLimitStr);
         (speedStr, c) = promptDefault ''Speed limit in Mbps (0 = unlimited, no throttle)'' ''0'' c;
         speed = fst (Atoi speedStr);
         (maxConnsStr, c) = promptDefault ''Max concurrent connections (0 = unlimited)'' ''0'' c;
         maxConns = fst (Atoi maxConnsStr);
         (rpmStr, c) = promptDefault ''Rate limit RPM - requests per minute (0 = unlimited)'' ''0'' c;
         rpm = fst (Atoi rpmStr);
         (expiresInput, c) = promptDefault ''Expiry date - YYYY-MM-DD (empty = no expiry)'' [] c;
         (expiresAt, c) =
           (if expiresInput \<noteq> [] then
              (case parse_day expiresInput of
                 None \<Rightarrow> ([], say (warn_mark @ ''  Invalid date format, setting no expiry.'') c)
               | Some t \<Rightarrow> (format_rfc3339 0 t, c))
            else ([], c));
         user = \<lparr>Username = username, Role = role, PasswordHash = hash, RateLimitRPM = rpm, Enabled = True,
           Plan = plan, BandwidthLimitGB = bwLimit, BandwidthSpeedMbps = speed, MaxConnections = maxConns,
           ExpiresAt = expiresAt\<rparr>;
         cfg = cfg\<lparr>Users := Users cfg @ [user]\<rparr>;
         c = say (nl @ tick_mark @ '' User '' @ quoted username @ '' added successfully!'') c;
         c = say (''   Plan: '' @ plan) c;
         c = (if bwLimit > 0 then say (''   Bandwidth: '' @ bwLimitStr @ '' GB/month'') c
              else say ''   Bandwidth: Unlimited'' c)
     in (cfg, if speed > 0 then say (''   Speed: '' @ speedStr @ '' Mbps'') c else say ''   Speed: Unlimited'' c))"

definition addUser :: "tool \<Rightarrow> UsersConfig \<Rightarrow> console \<Rightarrow> UsersConfig \<times> console" where
  "addUser env cfg c =
     (let rule = utf8 [226, 148, 128];
          c = say (nl @ rule @ rule @ '' Add New User '' @ concat (replicate 26 rule)) c;
          (username, c) = prompt ''Username'' c
      in if username = [] then (cfg, say ''Username cannot be empty.'' c)
         else if list_ex (\<lambda>u. EqualFold (tl_ufold env) (Username u) username) (Users cfg)
         then (cfg, say (warn_mark @ ''  User '' @ quoted username @ '' already exists.'') c)
         else let (password, c) = prompt ''Password'' c
         in if password = [] then (cfg, say ''Password cannot be empty.'' c)
         else case tl_gen env password of
           Inl err \<Rightarrow> (cfg, say (''Error hashing password: '' @ err) c)
         | Inr hash \<Rightarrow> new_user cfg username hash c)"

text \<open>The beginning that \<^verbatim>\<open>removeUser\<close>, \<^verbatim>\<open>toggleUser\<close> and \<^verbatim>\<open>updateUser\<close> share: the index chosen, if any.\<close>

definition select_user :: "string \<Rightarrow> (nat \<Rightarrow> time) \<Rightarrow> UsersConfig \<Rightarrow> console \<Rightarrow> nat option \<times> console" where
  "select_user verb now cfg c =
     (let c = listUsers now cfg c
      in if length (Users cfg) = 0 then (None, c)
         else let (idxStr, c) = prompt (''Enter user number to '' @ verb @ '' (or '' @ quoted ''cancel'' @ '')'') c
         in if idxStr = ''cancel'' then (None, c)
         else let (idx, ok) = Atoi idxStr
         in if \<not> ok \<or> idx < 1 \<or> idx > int (length (Users cfg)) then (None, say ''Invalid selection.'' c)
         else (Some (nat (idx - 1)), c))"

definition removeUser :: "(nat \<Rightarrow> time) \<Rightarrow> UsersConfig \<Rightarrow> console \<Rightarrow> UsersConfig \<times> console" where
  "removeUser now cfg c =
     (case select_user ''remove'' now cfg c of
        (None, c) \<Rightarrow> (cfg, c)
      | (Some i, c) \<Rightarrow>
          (cfg\<lparr>Users := take i (Users cfg) @ drop (Suc i) (Users cfg)\<rparr>,
           say (tick_mark @ '' Removed user: '' @ Username (Users cfg ! i)) c))"

definition toggleUser :: "(nat \<Rightarrow> time) \<Rightarrow> UsersConfig \<Rightarrow> console \<Rightarrow> UsersConfig \<times> console" where
  "toggleUser now cfg c =
     (case select_user ''toggle'' now cfg c of
        (None, c) \<Rightarrow> (cfg, c)
      | (Some i, c) \<Rightarrow>
          let u = (Users cfg ! i)\<lparr>Enabled := \<not> Enabled (Users cfg ! i)\<rparr>;
              status = (if \<not> Enabled u then ''disabled'' else ''enabled'')
          in (cfg\<lparr>Users := (Users cfg)[i := u]\<rparr>,
              say (tick_mark @ '' User '' @ quoted (Username u) @ '' is now '' @ status) c))"

text \<open>One question of \<^verbatim>\<open>updateUser\<close>: an empty answer keeps the value.\<close>

definition ask :: "string \<Rightarrow> (string \<Rightarrow> User \<Rightarrow> console \<Rightarrow> User \<times> console) \<Rightarrow> User \<times> console \<Rightarrow> User \<times> console" where
  "ask label upd uc =
     (let (u, c) = uc; (v, c) = promptDefault label [] c in if v \<noteq> [] then upd v u c else (u, c))"

definition set_password :: "tool \<Rightarrow> string \<Rightarrow> User \<Rightarrow> console \<Rightarrow> User \<times> console" where
  "set_password env v u c =
     (case tl_gen env v of
        Inl err \<Rightarrow> (u, say (''Error hashing password: '' @ err) c)
      | Inr hash \<Rightarrow> (u\<lparr>PasswordHash := hash\<rparr>, say ''Password updated!'' c))"

definition set_expiry :: "string \<Rightarrow> User \<Rightarrow> console \<Rightarrow> User \<times> console" where
  "set_expiry v u c =
     (if v = ''clear'' then (u\<lparr>ExpiresAt := []\<rparr>, c)
      else case parse_day v of
             None \<Rightarrow> (u, say (warn_mark @ ''  Invalid date format.'') c)
           | Some t \<Rightarrow> (u\<lparr>ExpiresAt := format_rfc3339 0 t\<rparr>, c))"

definition ask_all :: "tool \<Rightarrow> User \<Rightarrow> console \<Rightarrow> User \<times> console" where
  "ask_all env u c =
     (let uc = ask (''Plan (current: '' @ Plan u @ '')'') (\<lambda>v u c. (u\<lparr>Plan := v\<rparr>, c)) (u, c);
          uc = ask (''Bandwidth limit GB (current: '' @ int_dec (BandwidthLimitGB u) @ '')'')
                 (\<lambda>v u c. (u\<lparr>BandwidthLimitGB := fst (Atoi v)\<rparr>, c)) uc;
          uc = ask (''Speed limit Mbps (current: '' @ int_dec (BandwidthSpeedMbps u) @ '')'')
                 (\<lambda>v u c. (u\<lparr>BandwidthSpeedMbps := fst (Atoi v)\<rparr>, c)) uc;
          uc = ask (''Max connections (current: '' @ int_dec (MaxConnections u) @ '')'')
                 (\<lambda>v u c. (u\<lparr>MaxConnections := fst (Atoi v)\<rparr>, c)) uc;
          uc = ask (''Rate limit RPM (current: '' @ int_dec (RateLimitRPM u) @ '')'')
                 (\<lambda>v u c. (u\<lparr>RateLimitRPM := fst (Atoi v)\<rparr>, c)) uc;
          uc = ask ''New password (empty = keep current)'' (set_password env) uc
      in ask (''Expiry date YYYY-MM-DD (current: '' @ ExpiresAt u @ '', '' @ quoted ''clear'' @ '' to remove)'') set_expiry uc)"

definition updateUser :: "tool \<Rightarrow> (nat \<Rightarrow> time) \<Rightarrow> UsersConfig \<Rightarrow> console \<Rightarrow> UsersConfig \<times> console" where
  "updateUser env now cfg c =
     (case select_user ''update'' now cfg c of
        (None, c) \<Rightarrow> (cfg, c)
      | (Some i, c) \<Rightarrow>
          let u = Users cfg ! i;
              c = say (nl @ ''Updating user: '' @ Username u) c;
              c = say (''Press Enter to keep current value.'' @ nl) c;
              (u, c) = ask_all env u c
          in (cfg\<lparr>Users := (Users cfg)[i := u]\<rparr>, say (tick_mark @ '' User '' @ quoted (Username u) @ '' updated!'') c))"

definition generateHash :: "tool \<Rightarrow> console \<Rightarrow> console" where
  "generateHash env c =
     (let (password, c) = prompt ''Enter password to hash'' c
      in if password = [] then c
         else case tl_gen env password of
                Inl err \<Rightarrow> say (''Error: '' @ err) c
              | Inr hash \<Rightarrow> say hash (say (nl @ ''Password hash (copy to users.json):'') c))"

definition empty_config :: UsersConfig where
  "empty_config = \<lparr>Users = [], IPWhitelist = [], SuperAdminIPs = []\<rparr>"

definition loadConfig :: "tool \<Rightarrow> users_file \<Rightarrow> console \<Rightarrow> UsersConfig \<times> console" where
  "loadConfig env f c =
     (case f of
        Unreadable \<Rightarrow> (empty_config, c)
      | Malformed \<Rightarrow> (empty_config, say (warn_mark @ ''  Warning: Could not parse '' @ tl_path env @ '', starting fresh.'') c)
      | Decoded cfg \<Rightarrow> (cfg, c))"

definition saveConfig :: "tool \<Rightarrow> users_file \<Rightarrow> UsersConfig \<Rightarrow> console \<Rightarrow> users_file \<times> console" where
  "saveConfig env f cfg c =
     (case tl_marshal env cfg of
        Some err \<Rightarrow> (f, say (''Error saving: '' @ err) c)
      | None \<Rightarrow>
          let (f, werr) = tl_wr env f cfg
          in case werr of
               Some err \<Rightarrow> (f, say (''Error writing file: '' @ err) c)
             | None \<Rightarrow> (f, c))"

text \<open>The menu, one turn of the main loop (\<open>True\<close> when the program goes on), and the loop.\<close>

definition show_menu :: "console \<Rightarrow> console" where
  "show_menu c = say [] (fold say [''What would you like to do?'', ''  1) Add a new user'', ''  2) List all users'',
     ''  3) Remove a user'', ''  4) Toggle user (enable/disable)'', ''  5) Update user plan/limits'',
     ''  6) Generate password hash only'', ''  7) Save and exit'', ''  8) Exit without saving''] c)"

definition save_notice :: "tool \<Rightarrow> console \<Rightarrow> console" where
  "save_notice env = fold say [nl @ tick_mark @ '' Saved to '' @ tl_path env,
     utf8 [240, 159, 147, 139] @ '' Remember to copy this file to your server:'',
     ''   scp -i your-key.pem '' @ tl_path env @ '' ubuntu@YOUR_EC2_IP:~'', ''   Then SSH in and run:'',
     ''   sudo mv ~/'' @ tl_path env @ '' /opt/proxy/users.json'', ''   sudo chown proxy:proxy /opt/proxy/users.json'',
     ''   sudo systemctl restart proxy'']"

definition manage_turn :: "tool \<Rightarrow> (nat \<Rightarrow> time) \<Rightarrow> users_file \<times> console \<Rightarrow> bool \<times> users_file \<times> console" where
  "manage_turn env now fc =
     (let (f, c) = fc;
          (choice, c) = prompt ''Choose an option (1-8)'' (show_menu c);
          (cfg, c) = loadConfig env f c;
          save = (\<lambda>(cfg, c). let (f, c) = saveConfig env f cfg c in (True, f, say [] c))
      in if choice = ''1'' then save (addUser env cfg c)
         else if choice = ''2'' then (True, f, say [] (listUsers now cfg c))
         else if choice = ''3'' then save (removeUser now cfg c)
         else if choice = ''4'' then save (toggleUser now cfg c)
         else if choice = ''5'' then save (updateUser env now cfg c)
         else if choice = ''6'' then (True, f, say [] (generateHash env c))
         else if choice = ''7'' then let (f, c) = saveConfig env f cfg c in (False, f, save_notice env c)
         else if choice = ''8'' then (False, f, say ''Exiting without saving.'' c)
         else (True, f, say [] (say ''Invalid option. Try again.'' c)))"

fun manage_loop :: "nat \<Rightarrow> tool \<Rightarrow> (nat \<Rightarrow> nat \<Rightarrow> time) \<Rightarrow> users_file \<times> console \<Rightarrow> (users_file \<times> console) option" where
  "manage_loop 0 env clk fc = None"
| "manage_loop (Suc n) env clk fc =
     (let (go, fc) = manage_turn env (clk n) fc in if go then manage_loop n env clk fc else Some fc)"

definition manage_main :: "nat \<Rightarrow> tool \<Rightarrow> (nat \<Rightarrow> nat \<Rightarrow> time) \<Rightarrow> users_file \<times> console \<Rightarrow> (users_file \<times> console) option" where
  "manage_main n env clk fc =
     (let (f, c) = fc;
          bar = concat (replicate 46 (utf8 [226, 149, 144]));
          c = fold say [[], utf8 [226, 149, 148] @ bar @ utf8 [226, 149, 151],
                utf8 [226, 149, 145] @ ''   Multi-Protocol Proxy - User Management Tool'' @ utf8 [226, 149, 145],
                utf8 [226, 149, 154] @ bar @ utf8 [226, 149, 157], []] c
      in manage_loop n env clk (f, c))"

section \<open>The password hash generator\<close>

text \<open>
  Here the error of \<^verbatim>\<open>ReadString\<close> is looked at: at the end of the input the program reports it and
  asks again.
\<close>

fun hash_loop :: "nat \<Rightarrow> tool \<Rightarrow> console \<Rightarrow> console option" where
  "hash_loop 0 env c = None"
| "hash_loop (Suc n) env c =
     (let c = put (''Enter password to hash (or '' @ quoted ''quit'' @ '' to exit): '') c
      in case index_byte (con_in c) (char_of (10 :: nat)) of
           None \<Rightarrow> hash_loop n env (say ''Error reading input: EOF'' (c\<lparr>con_in := []\<rparr>))
         | Some i \<Rightarrow>
             let password = trim_space (take (Suc i) (con_in c)); c = c\<lparr>con_in := drop (Suc i) (con_in c)\<rparr>
             in if password = [] then hash_loop n env c
                else if ToLower (tl_uni env) password = ''quit'' then Some (say ''Goodbye!'' c)
                else case tl_gen env password of
                       Inl err \<Rightarrow> hash_loop n env (say (''Error generating hash: '' @ err) c)
                     | Inr hash \<Rightarrow> hash_loop n env (fold say [[], ''Password hash (copy this to users.json):'', hash, []] c))"

definition hash_main :: "nat \<Rightarrow> tool \<Rightarrow> console \<Rightarrow> console option" where
  "hash_main n env c = hash_loop n env (fold say [''Password Hash Generator for users.json'', ''======================================'', []] c)"

section \<open>Input is only consumed\<close>

lemma con_in_put [simp]: "con_in (put s c) = con_in c" "con_in (say s c) = con_in c"
  by (simp_all add: put_def say_def)

lemma con_in_fold_say [simp]: "con_in (fold say ss c) = con_in c"
  by (induction ss arbitrary: c) auto

lemma con_in_listUsers [simp]: "con_in (listUsers now cfg c) = con_in c"
proof -
  have "con_in (fold (\<lambda>(i, u). say (list_line (now i) i u)) xs c) = con_in c" for xs c
    by (induction xs arbitrary: c) auto
  then show ?thesis by (simp add: listUsers_def Let_def)
qed

text \<open>What is read and what is left are made of the bytes of the input.\<close>

definition fed :: "console \<Rightarrow> string \<times> console \<Rightarrow> bool" where
  "fed c r \<longleftrightarrow> set (fst r) \<subseteq> set (con_in c) \<and> set (con_in (snd r)) \<subseteq> set (con_in c)"

lemma trim_space_set: "set (trim_space s) \<subseteq> set s"
  using drop_seqs_suffix [of s] drop_seqs_suffix by (auto simp: trim_space_def) (metis Un_iff set_append set_rev)+

lemma read_string_fed: "fed c (read_string c)"
  by (auto simp: fed_def read_string_def dest: in_set_takeD in_set_dropD split: option.splits)

lemma prompt_fed: "fed c (prompt label c)"
  using read_string_fed [of "put (label @ '': '') c"] trim_space_set
  by (fastforce simp: fed_def prompt_def Let_def case_prod_beta)

lemma promptDefault_in: "set (con_in (snd (promptDefault label v c))) \<subseteq> set (con_in c)"
  using read_string_fed [of "put _ c"] by (simp add: promptDefault_def Let_def case_prod_beta fed_def)

section \<open>What the operations keep of a users file\<close>

text \<open>
  Names are told apart by the proxy's case-insensitive lookup, and every expiry date is one that
  the proxy can read (it takes an unreadable date for none).
\<close>

definition user_ok :: "User \<Rightarrow> bool" where
  "user_ok u \<longleftrightarrow> is_ascii (Username u) \<and> (ExpiresAt u = [] \<or> parse_rfc3339 (ExpiresAt u) \<noteq> None)"

definition folded :: "User \<Rightarrow> string" where
  "folded u = map ascii_lower (Username u)"

definition config_ok :: "UsersConfig \<Rightarrow> bool" where
  "config_ok cfg \<longleftrightarrow> list_all user_ok (Users cfg) \<and> distinct (map folded (Users cfg))"

text \<open>An operation that turns a good configuration into one, on input \<open>c\<close>.\<close>

definition op_ok :: "console \<Rightarrow> UsersConfig \<times> console \<Rightarrow> bool" where
  "op_ok c r \<longleftrightarrow> config_ok (fst r) \<and> set (con_in (snd r)) \<subseteq> set (con_in c)"

lemma is_ascii_subset: "set t \<subseteq> set s \<Longrightarrow> is_ascii s \<Longrightarrow> is_ascii t"
  by (auto simp: is_ascii_def list_all_iff)

lemma parse_day_reads_back:
  assumes "parse_day v = Some t"
  shows "parse_rfc3339 (format_rfc3339 0 t) = Some t"
proof -
  obtain y m d where p: "parse_date v = Some (y, m, d, [])" "1 \<le> d" "d \<le> days_in m y" "t = unix_days y m d * 86400 * second"
    using assms by (auto simp: parse_day_def bind_eq_Some_conv split: if_splits)
  then show ?thesis using rfc3339_midnight parse_date_range [OF p(1)] by simp
qed

lemma format_nonempty [simp]: "format_rfc3339 off t \<noteq> []"
  by (simp add: format_rfc3339_def Let_def case_prod_beta pad4_def)

lemma EqualFold_folded:
  "is_ascii (Username u) \<Longrightarrow> is_ascii s \<Longrightarrow> EqualFold ufold (Username u) s \<longleftrightarrow> folded u = map ascii_lower s"
  by (simp add: EqualFold_def folded_def)

lemma config_ok_append:
  assumes "config_ok cfg" "user_ok u" "\<not> list_ex (\<lambda>x. EqualFold ufold (Username x) (Username u)) (Users cfg)"
  shows "config_ok (cfg\<lparr>Users := Users cfg @ [u]\<rparr>)"
proof -
  have "folded u \<notin> folded ` set (Users cfg)"
  proof
    assume "folded u \<in> folded ` set (Users cfg)"
    then obtain x where "x \<in> set (Users cfg)" "folded x = folded u" by auto
    moreover have "is_ascii (Username x)" using assms(1) calculation(1) by (auto simp: config_ok_def list_all_iff user_ok_def)
    ultimately show False using assms(2,3) EqualFold_folded [of x "Username u"]
      by (auto simp: list_ex_iff user_ok_def folded_def)
  qed
  then show ?thesis using assms(1,2) by (simp add: config_ok_def)
qed

lemma new_user_ok:
  assumes "config_ok cfg" "is_ascii username"
    "\<not> list_ex (\<lambda>x. EqualFold ufold (Username x) username) (Users cfg)"
  shows "op_ok c2 (new_user cfg username hash c2)"
proof -
  obtain role c3 where 3: "promptDefault ''Role (user/super_admin)'' ''user'' c2 = (role, c3)" by fastforce
  obtain plan c4 where 4: "promptDefault ''Plan name (starter/pro/enterprise/admin)'' ''starter'' c3 = (plan, c4)" by fastforce
  obtain bw c5 where 5: "promptDefault ''Monthly bandwidth limit in GB (0 = unlimited)'' ''0'' c4 = (bw, c5)" by fastforce
  obtain sp c6 where 6: "promptDefault ''Speed limit in Mbps (0 = unlimited, no throttle)'' ''0'' c5 = (sp, c6)" by fastforce
  obtain mc c7 where 7: "promptDefault ''Max concurrent connections (0 = unlimited)'' ''0'' c6 = (mc, c7)" by fastforce
  obtain rp c8 where 8: "promptDefault ''Rate limit RPM - requests per minute (0 = unlimited)'' ''0'' c7 = (rp, c8)" by fastforce
  obtain ex c9 where 9: "promptDefault ''Expiry date - YYYY-MM-DD (empty = no expiry)'' [] c8 = (ex, c9)" by fastforce
  have fed9: "set (con_in c9) \<subseteq> set (con_in c2)"
    using promptDefault_in [of "''Role (user/super_admin)''" "''user''" c2]
      promptDefault_in [of "''Plan name (starter/pro/enterprise/admin)''" "''starter''" c3]
      promptDefault_in [of "''Monthly bandwidth limit in GB (0 = unlimited)''" "''0''" c4]
      promptDefault_in [of "''Speed limit in Mbps (0 = unlimited, no throttle)''" "''0''" c5]
      promptDefault_in [of "''Max concurrent connections (0 = unlimited)''" "''0''" c6]
      promptDefault_in [of "''Rate limit RPM - requests per minute (0 = unlimited)''" "''0''" c7]
      promptDefault_in [of "''Expiry date - YYYY-MM-DD (empty = no expiry)''" "[]" c8]
    unfolding 3 4 5 6 7 8 9 by simp
  have keep: "config_ok (cfg\<lparr>Users := Users cfg @ [u]\<rparr>)"
    if "Username u = username"
      "ExpiresAt u = (if ex \<noteq> [] then case parse_day ex of None \<Rightarrow> [] | Some t \<Rightarrow> format_rfc3339 0 t else [])" for u
    using assms that parse_day_reads_back
    by (intro config_ok_append [of _ _ ufold]) (auto simp: user_ok_def split: option.splits if_splits)
  show ?thesis
    using fed9 by (simp add: new_user_def Let_def 3 4 5 6 7 8 9 op_ok_def keep split: option.splits)
qed

lemma addUser_ok:
  assumes "config_ok cfg" "is_ascii (con_in c)"
  shows "op_ok c (addUser env cfg c)"
proof -
  define c0 where "c0 = say (nl @ utf8 [226, 148, 128] @ utf8 [226, 148, 128] @ '' Add New User '' @ concat (replicate 26 (utf8 [226, 148, 128]))) c"
  have c0: "con_in c0 = con_in c" by (simp add: c0_def)
  obtain username c1 where 1: "prompt ''Username'' c0 = (username, c1)" by fastforce
  have fed1: "set username \<subseteq> set (con_in c)" "set (con_in c1) \<subseteq> set (con_in c)"
    using prompt_fed [of c0 "''Username''"] by (simp_all add: 1 fed_def c0)
  obtain password c2 where 2: "prompt ''Password'' c1 = (password, c2)" by fastforce
  have fed2: "set (con_in c2) \<subseteq> set (con_in c)" using prompt_fed [of c1 "''Password''"] fed1 by (auto simp: 2 fed_def)
  have "is_ascii username" using fed1(1) assms(2) by (rule is_ascii_subset)
  then have new: "op_ok c (new_user cfg username hash c2)"
    if "\<not> list_ex (\<lambda>x. EqualFold (tl_ufold env) (Username x) username) (Users cfg)" for hash
    using new_user_ok [OF assms(1) _ that, of c2 hash] fed2 by (auto simp: op_ok_def)
  then show ?thesis
    using assms(1) fed1(2) fed2 unfolding addUser_def Let_def c0_def [symmetric] 1 prod.case 2
    by (auto simp: op_ok_def split: sum.splits)
qed

lemma select_user_ok:
  assumes "select_user verb now cfg c = (x, c')"
  shows "set (con_in c') \<subseteq> set (con_in c)" "x = Some i \<Longrightarrow> i < length (Users cfg)"
proof -
  define label where "label = ''Enter user number to '' @ verb @ '' (or '' @ quoted ''cancel'' @ '')''"
  obtain idxStr c1 where p: "prompt label (listUsers now cfg c) = (idxStr, c1)" by fastforce
  then have "set (con_in c1) \<subseteq> set (con_in c)" using prompt_fed [of "listUsers now cfg c" label] by (simp add: fed_def)
  moreover have sel: "select_user verb now cfg c =
     (if length (Users cfg) = 0 then (None, listUsers now cfg c)
      else if idxStr = ''cancel'' then (None, c1)
      else if \<not> snd (Atoi idxStr) \<or> fst (Atoi idxStr) < 1 \<or> fst (Atoi idxStr) > int (length (Users cfg))
      then (None, say ''Invalid selection.'' c1)
      else (Some (nat (fst (Atoi idxStr) - 1)), c1))"
    unfolding select_user_def Let_def label_def [symmetric] p by (simp add: case_prod_beta)
  ultimately show "set (con_in c') \<subseteq> set (con_in c)" using assms by (auto split: if_splits)
  show "x = Some i \<Longrightarrow> i < length (Users cfg)" using assms sel by (auto split: if_splits)
qed

lemma config_ok_remove:
  assumes "config_ok cfg" "i < length (Users cfg)"
  shows "config_ok (cfg\<lparr>Users := take i (Users cfg) @ drop (Suc i) (Users cfg)\<rparr>)"
proof -
  have split: "Users cfg = take i (Users cfg) @ Users cfg ! i # drop (Suc i) (Users cfg)"
    using assms(2) by (rule id_take_nth_drop)
  have "distinct (map folded (take i (Users cfg) @ Users cfg ! i # drop (Suc i) (Users cfg)))"
    using assms(1) by (subst split [symmetric]) (simp add: config_ok_def)
  then have "distinct (map folded (take i (Users cfg) @ drop (Suc i) (Users cfg)))" by simp
  then show ?thesis using assms(1) by (auto simp: config_ok_def list_all_iff dest: in_set_takeD in_set_dropD)
qed

lemma removeUser_ok: "config_ok cfg \<Longrightarrow> op_ok c (removeUser now cfg c)"
  using select_user_ok [of "''remove''" now cfg c] config_ok_remove [of cfg]
  by (cases "select_user ''remove'' now cfg c") (auto simp: removeUser_def op_ok_def split: option.splits)

lemma config_ok_update:
  assumes "config_ok cfg" "user_ok u" "Username u = Username (Users cfg ! i)"
  shows "config_ok (cfg\<lparr>Users := (Users cfg)[i := u]\<rparr>)"
proof (cases "i < length (Users cfg)")
  case True
  then have "map folded ((Users cfg)[i := u]) = map folded (Users cfg)"
    using assms(3) by (metis folded_def list_update_id map_update nth_map)
  then show ?thesis using assms(1,2) set_update_subset_insert [of "Users cfg" i u] by (auto simp: config_ok_def list_all_iff)
qed (use assms in \<open>simp add: config_ok_def list_update_beyond\<close>)

lemma config_ok_nth: "config_ok cfg \<Longrightarrow> i < length (Users cfg) \<Longrightarrow> user_ok (Users cfg ! i)"
  by (simp add: config_ok_def list_all_length)

lemma toggleUser_ok: "config_ok cfg \<Longrightarrow> op_ok c (toggleUser now cfg c)"
  using select_user_ok [of "''toggle''" now cfg c] config_ok_update [of cfg _ ] config_ok_nth [of cfg]
  by (cases "select_user ''toggle'' now cfg c")
    (auto simp: toggleUser_def op_ok_def Let_def user_ok_def split: option.splits)

text \<open>The questions of an update: each keeps the name, a readable date and only consumes input.\<close>

definition same_user :: "User \<times> console \<Rightarrow> User \<times> console \<Rightarrow> bool" where
  "same_user uc r \<longleftrightarrow> (user_ok (fst uc) \<longrightarrow> user_ok (fst r)) \<and> Username (fst r) = Username (fst uc) \<and>
     set (con_in (snd r)) \<subseteq> set (con_in (snd uc))"

lemma same_user_trans: "same_user a b \<Longrightarrow> same_user b c \<Longrightarrow> same_user a c"
  by (auto simp: same_user_def)

lemma ask_same_user:
  assumes "\<And>v u c. same_user (u, c) (upd v u c)"
  shows "same_user uc (ask label upd uc)"
proof -
  have "same_user uc (fst uc, snd (promptDefault label [] (snd uc)))"
    using promptDefault_in [of label "[]" "snd uc"] by (auto simp: same_user_def)
  then show ?thesis using same_user_trans assms by (auto simp: ask_def Let_def case_prod_beta)
qed

lemma set_password_same: "same_user (u, c) (set_password env v u c)"
  by (auto simp: same_user_def set_password_def user_ok_def split: sum.splits)

lemma set_expiry_same: "same_user (u, c) (set_expiry v u c)"
  by (auto simp: same_user_def set_expiry_def user_ok_def parse_day_reads_back split: option.splits)

lemma ask_all_same_user: "same_user (u, c) (ask_all env u c)"
  unfolding ask_all_def Let_def
  by (intro same_user_trans [OF _ ask_same_user] ask_same_user set_password_same set_expiry_same)
    (simp_all add: same_user_def user_ok_def)

lemma updateUser_ok: "config_ok cfg \<Longrightarrow> op_ok c (updateUser env now cfg c)"
proof -
  assume cfg: "config_ok cfg"
  obtain x c1 where s: "select_user ''update'' now cfg c = (x, c1)" by fastforce
  note in1 = select_user_ok [OF s]
  show ?thesis
  proof (cases x)
    case None
    then show ?thesis using cfg in1(1) by (simp add: updateUser_def s op_ok_def)
  next
    case (Some i)
    define c2 where "c2 = say (''Press Enter to keep current value.'' @ nl) (say (nl @ ''Updating user: '' @ Username (Users cfg ! i)) c1)"
    define r where "r = ask_all env (Users cfg ! i) c2"
    have "same_user (Users cfg ! i, c2) r" unfolding r_def by (rule ask_all_same_user)
    then have r: "user_ok (fst r)" "Username (fst r) = Username (Users cfg ! i)" "set (con_in (snd r)) \<subseteq> set (con_in c)"
      using config_ok_nth [OF cfg in1(2) [OF Some]] in1(1) by (auto simp: same_user_def c2_def)
    show ?thesis using config_ok_update [OF cfg r(1,2)] r(3)
      unfolding updateUser_def s Some prod.case option.case Let_def c2_def [symmetric] r_def [symmetric]
      by (simp add: op_ok_def case_prod_beta)
  qed
qed

section \<open>A whole session\<close>

definition file_ok :: "users_file \<Rightarrow> bool" where
  "file_ok f \<longleftrightarrow> (\<forall>cfg. f = Decoded cfg \<longrightarrow> config_ok cfg)"

text \<open>A write without an error reads back; a failed one may also leave the old file or a broken one.\<close>

definition writes_or_fails :: "(users_file \<Rightarrow> UsersConfig \<Rightarrow> users_file \<times> string option) \<Rightarrow> bool" where
  "writes_or_fails wr \<longleftrightarrow>
     (\<forall>old cfg. fst (wr old cfg) = Decoded cfg \<or>
        snd (wr old cfg) \<noteq> None \<and> fst (wr old cfg) \<in> {old, Malformed, Unreadable})"

lemma saveConfig_ok:
  assumes "writes_or_fails (tl_wr env)" "file_ok f" "config_ok cfg"
  shows "file_ok (fst (saveConfig env f cfg c))" "con_in (snd (saveConfig env f cfg c)) = con_in c"
proof -
  have "fst (tl_wr env f cfg) \<in> {Decoded cfg, f, Malformed, Unreadable}"
    using assms(1) by (auto simp: writes_or_fails_def)
  then have "file_ok (fst (tl_wr env f cfg))" using assms(2,3) by (auto simp: file_ok_def)
  then show "file_ok (fst (saveConfig env f cfg c))" "con_in (snd (saveConfig env f cfg c)) = con_in c"
    using assms(2) by (simp_all add: saveConfig_def case_prod_beta Let_def split: option.splits)
qed

text \<open>
  What saving tells its user: nothing when the file now holds the configuration, and one error line
  otherwise. \<^verbatim>\<open>Save and exit\<close> prints its success message in either case.
\<close>

lemma saveConfig_reports:
  assumes "writes_or_fails (tl_wr env)" and "saveConfig env f cfg c = (f', c')"
  shows "f' = Decoded cfg \<and> c' = c \<or>
    (\<exists>err. c' = say (''Error saving: '' @ err) c \<and> f' = f \<or> c' = say (''Error writing file: '' @ err) c)"
proof -
  have "snd (tl_wr env f cfg) = None \<Longrightarrow> fst (tl_wr env f cfg) = Decoded cfg"
    using assms(1) unfolding writes_or_fails_def by blast
  then show ?thesis using assms(2) by (auto simp: saveConfig_def case_prod_beta Let_def split: option.splits)
qed

lemma loadConfig_ok:
  "file_ok f \<Longrightarrow> config_ok (fst (loadConfig env f c))" "con_in (snd (loadConfig env f c)) = con_in c"
  by (simp_all add: loadConfig_def file_ok_def empty_config_def config_ok_def split: users_file.splits)

lemma generateHash_in: "set (con_in (generateHash env c)) \<subseteq> set (con_in c)"
  using prompt_fed [of c "''Enter password to hash''"]
  by (auto simp: generateHash_def Let_def case_prod_beta fed_def split: sum.splits)

definition turn_ok :: "console \<Rightarrow> bool \<times> users_file \<times> console \<Rightarrow> bool" where
  "turn_ok c r \<longleftrightarrow> file_ok (fst (snd r)) \<and> set (con_in (snd (snd r))) \<subseteq> set (con_in c)"

lemma manage_turn_ok:
  assumes "file_ok f" "is_ascii (con_in c)" "writes_or_fails (tl_wr env)"
  shows "turn_ok c (manage_turn env now (f, c))"
proof -
  obtain choice c1 where p: "prompt ''Choose an option (1-8)'' (show_menu c) = (choice, c1)" by fastforce
  have "con_in (show_menu c) = con_in c" by (simp add: show_menu_def del: fold_simps)
  then have c1: "set (con_in c1) \<subseteq> set (con_in c)"
    using prompt_fed [of "show_menu c" "''Choose an option (1-8)''"] by (simp add: p fed_def)
  obtain cfg c2 where l: "loadConfig env f c1 = (cfg, c2)" by fastforce
  then have cfg: "config_ok cfg" "con_in c2 = con_in c1" using loadConfig_ok(1) [OF assms(1), of env c1] loadConfig_ok(2) [of env f c1] by simp_all
  have saved: "turn_ok c (case r of (cfg, c) \<Rightarrow> case saveConfig env f cfg c of (f, c) \<Rightarrow> (True, f, say [] c))" if "op_ok c2 r" for r
    using that assms(1,3) c1 cfg(2) by (auto simp: op_ok_def turn_ok_def saveConfig_ok case_prod_beta)
  have "is_ascii (con_in c2)" using c1 cfg(2) assms(2) is_ascii_subset by metis
  then have ops: "op_ok c2 (addUser env cfg c2)" "op_ok c2 (removeUser now cfg c2)" "op_ok c2 (toggleUser now cfg c2)"
    "op_ok c2 (updateUser env now cfg c2)"
    using cfg(1) by (simp_all add: addUser_ok removeUser_ok toggleUser_ok updateUser_ok)
  show ?thesis
    unfolding manage_turn_def Let_def prod.case p l
    using saved [OF ops(1)] saved [OF ops(2)] saved [OF ops(3)] saved [OF ops(4)] generateHash_in [of env c2]
      assms(1,3) cfg c1 saveConfig_ok [OF assms(3,1) cfg(1), of c2]
    by (auto simp: turn_ok_def save_notice_def case_prod_beta simp del: fold_simps split: if_splits)
qed

lemma manage_loop_ok:
  "manage_loop n env clk (f, c) = Some (f', c') \<Longrightarrow> file_ok f \<Longrightarrow> is_ascii (con_in c) \<Longrightarrow> writes_or_fails (tl_wr env) \<Longrightarrow> file_ok f'"
proof (induction n arbitrary: f c)
  case (Suc n)
  obtain go f1 c1 where t: "manage_turn env (clk n) (f, c) = (go, f1, c1)" using prod_cases3 by blast
  then have "file_ok f1" "is_ascii (con_in c1)"
    using manage_turn_ok [OF Suc.prems(2-4), of "clk n"] Suc.prems(3) is_ascii_subset by (auto simp: turn_ok_def)
  then show ?case using Suc t by (auto split: if_splits)
qed simp

text \<open>The store built from a good file has every enabled user under its name.\<close>

lemma load_users_other:
  "k \<notin> (\<lambda>u. lower d (Username u)) ` set us \<Longrightarrow> fst (load_users d us m rl now) k = m k"
  by (induction us arbitrary: m rl) auto

lemma load_users_found:
  "distinct (map (\<lambda>u. lower d (Username u)) us) \<Longrightarrow> u \<in> set us \<Longrightarrow> Enabled u \<Longrightarrow>
   fst (load_users d us m rl now) (lower d (Username u)) = Some u"
  by (induction us arbitrary: m rl) (auto simp: load_users_other)

lemma folded_lower: "user_ok u \<Longrightarrow> lower d (Username u) = folded u"
  by (simp add: user_ok_def ToLower_def folded_def)

section \<open>The end of the input\<close>

definition quits :: "tool \<Rightarrow> string \<Rightarrow> bool" where
  "quits env line \<longleftrightarrow> ToLower (tl_uni env) (trim_space (line @ nl)) = ''quit''"

lemma trim_space_Nil [simp]: "trim_space [] = []"
  using trim_space_set [of "[]"] by simp

lemma hash_loop_no_newline: "index_byte (con_in c) (char_of (10 :: nat)) = None \<Longrightarrow> hash_loop n env c = None"
proof (induction n arbitrary: c)
  case (Suc n)
  have "hash_loop n env (say ''Error reading input: EOF'' ((put (''Enter password to hash (or '' @ quoted ''quit'' @ '' to exit): '') c)\<lparr>con_in := []\<rparr>)) = None"
    by (rule Suc.IH) simp
  then show ?case using Suc.prems by (subst hash_loop.simps(2)) (simp only: con_in_put option.case Let_def)
qed simp

text \<open>A complete line ends the program or leaves it with the rest of the input.\<close>

lemma hash_loop_line:
  assumes "con_in c = u @ nl @ v" "char_of (10 :: nat) \<notin> set u"
  obtains c1 where "con_in c1 = v" "\<And>n. hash_loop (Suc n) env c = (if quits env u then Some (say ''Goodbye!'' c1) else hash_loop n env c1)"
proof -
  have i: "index_byte (u @ nl @ v) (char_of (10 :: nat)) = Some (length u)"
    using index_byte_append [OF assms(2), of v] by (simp add: nl_def)
  have td: "take (Suc (length u)) (u @ nl @ v) = u @ nl" "drop (Suc (length u)) (u @ nl @ v) = v" by (simp_all add: nl_def)
  have nq: "trim_space (u @ nl) = [] \<Longrightarrow> \<not> quits env u" by (simp add: quits_def ToLower_def is_ascii_def)
  define c0 where "c0 = (put (''Enter password to hash (or '' @ quoted ''quit'' @ '' to exit): '') c)\<lparr>con_in := v\<rparr>"
  define c1 where "c1 = (if trim_space (u @ nl) = [] \<or> quits env u then c0 else case tl_gen env (trim_space (u @ nl)) of
      Inl err \<Rightarrow> say (''Error generating hash: '' @ err) c0
    | Inr hash \<Rightarrow> fold say [[], ''Password hash (copy this to users.json):'', hash, []] c0)"
  have "hash_loop (Suc n) env c = (let password = trim_space (u @ nl)
      in if password = [] then hash_loop n env c0 else if quits env u then Some (say ''Goodbye!'' c0)
         else case tl_gen env password of Inl err \<Rightarrow> hash_loop n env (say (''Error generating hash: '' @ err) c0)
           | Inr hash \<Rightarrow> hash_loop n env (fold say [[], ''Password hash (copy this to users.json):'', hash, []] c0))" for n
    by (subst hash_loop.simps(2)) (simp only: con_in_put assms(1) i option.case td quits_def Let_def c0_def)
  then have "hash_loop (Suc n) env c = (if quits env u then Some (say ''Goodbye!'' c1) else hash_loop n env c1)" for n
    using nq by (simp add: c1_def Let_def del: fold_simps split: sum.splits)
  moreover have "con_in c1 = v" by (simp add: c1_def c0_def del: fold_simps split: sum.splits)
  ultimately show thesis using that by blast
qed

lemma split_at_newline:
  fixes s :: string
  obtains (none) "char_of (10 :: nat) \<notin> set s" | (line) u v where "s = u @ nl @ v" "char_of (10 :: nat) \<notin> set u"
  using split_list_first [of "char_of (10 :: nat)" s] by (auto simp: nl_def)

lemma hash_loop_returns_iff:
  "(\<exists>n c'. hash_loop n env c = Some c') \<longleftrightarrow> list_ex (quits env) (butlast (split_on (char_of (10 :: nat)) (con_in c)))"
proof (induction "length (con_in c)" arbitrary: c rule: less_induct)
  case less
  show ?case
  proof (cases "con_in c" rule: split_at_newline)
    case none
    then show ?thesis using hash_loop_no_newline [of c] by (simp add: split_on_no_sep)
  next
    case (line u v)
    from hash_loop_line [OF line] obtain c1 where c1: "con_in c1 = v"
      "\<And>n. hash_loop (Suc n) env c = (if quits env u then Some (say ''Goodbye!'' c1) else hash_loop n env c1)" by blast
    have "(\<exists>n c'. hash_loop n env c = Some c') \<longleftrightarrow> (\<exists>n c'. hash_loop (Suc n) env c = Some c')"
      by (metis hash_loop.simps(1) not0_implies_Suc option.distinct(1))
    also have "\<dots> \<longleftrightarrow> quits env u \<or> (\<exists>n c'. hash_loop n env c1 = Some c')" by (auto simp: c1(2) simp del: hash_loop.simps(2))
    finally show ?thesis
      using less [of c1] c1(1) line split_on_append [OF line(2), of v] by (simp add: nl_def)
  qed
qed

lemma manage_loop_at_end: "con_in c = [] \<Longrightarrow> manage_loop n env clk (f, c) = None"
proof (induction n arbitrary: f c)
  case (Suc n)
  obtain choice c1 where p: "prompt ''Choose an option (1-8)'' (show_menu c) = (choice, c1)" by fastforce
  have "con_in (show_menu c) = []" using Suc.prems by (simp add: show_menu_def del: fold_simps)
  then have "choice = []" "con_in c1 = []" using p prompt_fed [of "show_menu c" "''Choose an option (1-8)''"] by (simp_all add: fed_def)
  then obtain c2 where "manage_turn env (clk n) (f, c) = (True, f, c2)" "con_in c2 = []"
    using loadConfig_ok(2) [of env f c1] by (simp add: manage_turn_def Let_def p case_prod_beta)
  then show ?case using Suc.IH by simp
qed simp

text \<open>An answer that is no number counts as 0, which every limit takes for unlimited.\<close>

lemma parse_uint_bad: "\<not> list_all is_digit s \<Longrightarrow> length s \<le> 18 \<Longrightarrow> n < 10 ^ (18 - length s) \<Longrightarrow> parse_uint s n = SyntaxError"
proof (induction s arbitrary: n)
  case (Cons a s)
  have "n * 10 + int (digit_val a) < 10 ^ (18 - length s)" if "is_digit a"
  proof -
    have "(10 :: int) ^ (18 - length s) = 10 * 10 ^ (18 - length (a # s))"
      using Cons.prems(2) by (simp add: Suc_diff_Suc flip: power_Suc)
    then show ?thesis using Cons.prems(3) digit_val_le [OF that] by simp
  qed
  moreover have "(10 :: int) ^ (18 - length s) \<le> 10 ^ 18" by (rule power_increasing) simp_all
  ultimately show ?case using Cons by (auto simp: Let_def)
qed simp

lemma bad_number_unlimited:
  assumes "\<not> list_all is_digit v" "\<not> has_prefix v ''-''" "\<not> has_prefix v ''+''" "length v \<le> 18"
  shows "fst (Atoi v) = 0" "fst (CheckAllowance wr off t u (fst (Atoi v)) now)" "fst (CheckConnLimit off t u (fst (Atoi v)) now)"
proof -
  have "v \<noteq> []" using assms(1) by auto
  then show a: "fst (Atoi v) = 0" using parse_uint_bad [OF assms(1,4), of 0] assms(2,3) by (simp add: Atoi_def)
  show "fst (CheckAllowance wr off t u (fst (Atoi v)) now)" "fst (CheckConnLimit off t u (fst (Atoi v)) now)"
    unfolding a by (simp_all add: CheckAllowance_def CheckConnLimit_def)
qed

section \<open>Properties\<close>

definition demo_tool :: tool where
  "demo_tool = \<lparr>tl_gen = (\<lambda>p. Inr p), tl_ufold = (\<lambda>_ _. False), tl_uni = id,
     tl_marshal = (\<lambda>_. None), tl_wr = (\<lambda>_ cfg. (Decoded cfg, None)), tl_path = ''u''\<rparr>"

text \<open>Sessions as lists of the lines typed.\<close>

definition typed :: "string list \<Rightarrow> string" where
  "typed ls = concat (map (\<lambda>l. l @ nl) ls)"

definition next_line :: "string \<Rightarrow> string" where
  "next_line s = (case index_byte s (char_of (10 :: nat)) of None \<Rightarrow> s | Some i \<Rightarrow> take (Suc i) s)"

definition later_lines :: "string \<Rightarrow> string" where
  "later_lines s = (case index_byte s (char_of (10 :: nat)) of None \<Rightarrow> [] | Some i \<Rightarrow> drop (Suc i) s)"

lemma typed_lines [simp]:
  assumes "char_of (10 :: nat) \<notin> set l"
  shows "next_line (typed (l # ls)) = l @ nl" "later_lines (typed (l # ls)) = typed ls"
  using index_byte_append [OF assms, of "typed ls"] by (simp_all add: typed_def next_line_def later_lines_def nl_def)

lemma read_string_lines: "read_string c = (next_line (con_in c), c\<lparr>con_in := later_lines (con_in c)\<rparr>)"
  by (cases "index_byte (con_in c) (char_of (10 :: nat))") (simp_all only: read_string_def next_line_def later_lines_def option.case)

lemma prompt_lines [simp]:
  "fst (prompt label c) = trim_space (next_line (con_in c))" "con_in (snd (prompt label c)) = later_lines (con_in c)"
  by (simp_all add: prompt_def read_string_lines Let_def)

lemma promptDefault_lines [simp]:
  "fst (promptDefault label v c) = (if trim_space (next_line (con_in c)) = [] then v else trim_space (next_line (con_in c)))"
  "con_in (snd (promptDefault label v c)) = later_lines (con_in c)"
  by (simp_all add: promptDefault_def read_string_lines Let_def)

text \<open>Eve is added with the defaults and an expiry date, then the program is left.\<close>

definition demo_session :: "string list" where
  "demo_session = [''1'', ''Eve'', ''secret'', [], [], [], [], [], [], ''2031-02-03'', ''8'']"

definition demo_eve :: User where
  "demo_eve = \<lparr>Username = ''Eve'', Role = ''user'', PasswordHash = ''secret'', RateLimitRPM = 0, Enabled = True, Plan = ''starter'',
     BandwidthLimitGB = 0, BandwidthSpeedMbps = 0, MaxConnections = 0, ExpiresAt = ''2031-02-03T00:00:00Z''\<rparr>"

lemma drop_newline:
  assumes "qs = space_seqs \<or> qs = map rev space_seqs"
  shows "drop_seqs qs (nl @ x) = drop_seqs qs x"
proof -
  have "\<exists>r. space_seqs = [char_of (9 :: nat)] # [char_of (10 :: nat)] # r" by (simp add: space_seqs_def)
  then obtain r where "space_seqs = [char_of (9 :: nat)] # [char_of (10 :: nat)] # r" by blast
  moreover from arg_cong [OF this, of "map rev"] have "map rev space_seqs = [char_of (9 :: nat)] # [char_of (10 :: nat)] # map rev r"
    by simp
  ultimately have "qs = [char_of (9 :: nat)] # [char_of (10 :: nat)] # r \<or> qs = [char_of (9 :: nat)] # [char_of (10 :: nat)] # map rev r"
    using assms by metis
  moreover have "char_of (9 :: nat) \<noteq> (char_of (10 :: nat) :: char)" by code_simp
  ultimately have "List.find (\<lambda>p. p \<noteq> [] \<and> has_prefix (nl @ x) p) qs = Some nl" by (auto simp: has_prefix_def nl_def)
  then show ?thesis by (subst drop_seqs.simps) (simp add: nl_def)
qed

text \<open>A line without blanks at its ends is read as typed.\<close>

lemma trim_space_typed:
  assumes "s = [] \<or> is_graph (hd s) \<and> is_graph (last s)"
  shows "trim_space (s @ nl) = s"
proof (cases "s = []")
  case True
  then show ?thesis using drop_newline [of space_seqs "[]"] trim_space_Nil by (simp add: trim_space_def)
next
  case False
  have "drop_seqs space_seqs (s @ nl) = s @ nl"
  proof (rule drop_seqs_none)
    fix p assume "p \<in> set space_seqs" "p \<noteq> []"
    then have "\<not> is_graph (hd p)" using space_seqs_ends by blast
    then show "\<not> has_prefix (s @ nl) p" using assms False \<open>p \<noteq> []\<close> by (cases p; cases s) (auto simp: has_prefix_iff)
  qed
  moreover have "drop_seqs space_seqs s = s"
  proof (rule drop_seqs_none)
    fix p assume "p \<in> set space_seqs" "p \<noteq> []"
    then have "\<not> is_graph (hd p)" using space_seqs_ends by blast
    then show "\<not> has_prefix s p" using assms \<open>p \<noteq> []\<close> by (cases p) (auto simp: has_prefix_iff)
  qed
  ultimately show ?thesis using trim_space_graph [OF assms] drop_newline [of "map rev space_seqs" "rev s"]
    by (simp add: trim_space_def nl_def)
qed

lemma trim_space_enter [simp]: "trim_space nl = []"
  using trim_space_typed [of "[]"] by simp

lemma demo_answers [simp]:
  "trim_space (''1'' @ nl) = ''1''" "trim_space (''8'' @ nl) = ''8''" "trim_space (''Eve'' @ nl) = ''Eve''"
  "trim_space (''secret'' @ nl) = ''secret''" "trim_space (''2031-02-03'' @ nl) = ''2031-02-03''"
  by (rule trim_space_typed, simp add: is_graph_def)+

lemma demo_dates: "map_option (format_rfc3339 0) (parse_day ''2031-02-03'') = Some ''2031-02-03T00:00:00Z''" "Atoi ''0'' = (0, True)"
  by code_simp+

lemma demo_turns:
  fixes c :: console
  defines "cfg \<equiv> demo_cfg\<lparr>Users := [demo_user, demo_eve]\<rparr>"
  shows "con_in c = typed demo_session \<Longrightarrow>
      \<exists>c'. manage_turn demo_tool now (Decoded demo_cfg, c) = (True, Decoded cfg, c') \<and> con_in c' = typed [''8'']"
    and "con_in c = typed [''8''] \<Longrightarrow> \<exists>c'. manage_turn demo_tool now (Decoded cfg, c) = (False, Decoded cfg, c')"
proof -
  have menu: "con_in (show_menu c) = con_in c" for c by (simp add: show_menu_def del: fold_simps)
  have nn: "char_of (10 :: nat) \<notin> set ''1''" "char_of (10 :: nat) \<notin> set ''8''" "char_of (10 :: nat) \<notin> set ''Eve''"
    "char_of (10 :: nat) \<notin> set ''secret''" "char_of (10 :: nat) \<notin> set ''2031-02-03''" "char_of (10 :: nat) \<notin> set ([] :: string)"
    by code_simp+
  note lines = nn [THEN typed_lines(1)] nn [THEN typed_lines(2)]
  show "\<exists>c'. manage_turn demo_tool now (Decoded cfg, c) = (False, Decoded cfg, c')" if "con_in c = typed [''8'']"
    using that by (simp add: manage_turn_def Let_def case_prod_beta menu loadConfig_def lines del: append.simps)
  show "\<exists>c'. manage_turn demo_tool now (Decoded demo_cfg, c) = (True, Decoded cfg, c') \<and> con_in c' = typed [''8'']" if "con_in c = typed demo_session"
  proof -
    obtain t where t: "parse_day ''2031-02-03'' = Some t" "format_rfc3339 0 t = ''2031-02-03T00:00:00Z''" using demo_dates(1) by auto
    have fresh: "\<not> list_ex (\<lambda>u. EqualFold (\<lambda>_ _. False) (Username u) ''Eve'') (Users demo_cfg)"
      by (simp add: demo_cfg_def EqualFold_def is_ascii_def ascii_lower_def)
    have cfg: "cfg = demo_cfg\<lparr>Users := Users demo_cfg @ [demo_eve]\<rparr>" by (simp add: cfg_def demo_cfg_def)
    show ?thesis using that fresh
      by (simp add: cfg demo_eve_def trim_space_typed [of "[]"] manage_turn_def Let_def case_prod_beta menu loadConfig_def lines demo_session_def addUser_def new_user_def
          demo_tool_def saveConfig_def t demo_dates(2) del: append.simps)
  qed
qed

text \<open>C36: a users file edited with the tool is one the proxy can use in full. Start from no file, or
  from one whose names are ASCII and differ by more than case and whose dates are readable; type anything in
  ASCII; let saving succeed or fail. Then in the store loaded from the resulting file every
  enabled user is found under its own name, none shadowed by another spelling, and every expiry
  date is enforced at the instant it denotes. (Outside ASCII this is not so: \<^verbatim>\<open>strings.EqualFold\<close>, with which the tool
  compares names, and \<^verbatim>\<open>strings.ToLower\<close>, with which the proxy looks them up, differ on letters such as U+0130.)\<close>

theorem edited_users_are_reachable:
  assumes "manage_main n env clk (f, c) = Some (Decoded cfg, c')" and "file_ok f" and "is_ascii (con_in c)"
    and "writes_or_fails (tl_wr env)" and "NewUserStore d (Decoded cfg) order now = Inr st"
    and "u \<in> set (Users cfg)" and "Enabled u"
  shows "GetUser d st (Username u) = Some u \<and>
    (ExpiresAt u \<noteq> [] \<longrightarrow>
       (\<exists>t. parse_rfc3339 (ExpiresAt u) = Some t \<and> (\<forall>now. CheckExpiry d st (Username u) now \<longleftrightarrow> now < t)))"
proof -
  have "file_ok (Decoded cfg)"
    using assms(1-4) manage_loop_ok [of n env clk f _ "Decoded cfg" c']
    by (auto simp: manage_main_def Let_def simp del: fold_simps)
  then have ok: "list_all user_ok (Users cfg)" "distinct (map folded (Users cfg))" by (simp_all add: file_ok_def config_ok_def)
  have "map (\<lambda>u. lower d (Username u)) (Users cfg) = map folded (Users cfg)"
    using ok(1) by (auto simp: list_all_iff folded_lower)
  then have "distinct (map (\<lambda>u. lower d (Username u)) (Users cfg))" using ok(2) by (simp only:)
  then have g: "GetUser d st (Username u) = Some u"
    using NewUserStore_users(1) [OF assms(5)] load_users_found [OF _ assms(6,7)] by (simp add: GetUser_def)
  moreover have "user_ok u" using ok(1) assms(6) by (simp add: list_all_iff)
  ultimately show ?thesis by (auto simp: user_ok_def CheckExpiry_def GetUser_def)
qed

theorem edited_users_are_reachable_witness:
  "\<exists>n cfg c' st. manage_main n demo_tool (\<lambda>_ _. 0) (Decoded demo_cfg, \<lparr>con_in = typed demo_session, con_out = []\<rparr>) = Some (Decoded cfg, c') \<and>
     Users cfg = [demo_user, demo_eve] \<and> NewUserStore demo_deps (Decoded cfg) [''bob'', ''eve''] 0 = Inr st \<and>
     GetUser demo_deps st ''Eve'' = Some demo_eve \<and> (\<exists>t. \<forall>now. CheckExpiry demo_deps st ''Eve'' now \<longleftrightarrow> now < t)"
proof -
  let ?c = "\<lparr>con_in = typed demo_session, con_out = []\<rparr>" and ?cfg = "demo_cfg\<lparr>Users := [demo_user, demo_eve]\<rparr>"
  have loop: "\<exists>c'. manage_loop (Suc (Suc 0)) demo_tool (\<lambda>_ _. 0) (Decoded demo_cfg, fold say ss ?c) = Some (Decoded ?cfg, c')" for ss
  proof -
    obtain c1 where "manage_turn demo_tool (\<lambda>_. 0) (Decoded demo_cfg, fold say ss ?c) = (True, Decoded ?cfg, c1)" "con_in c1 = typed [''8'']"
      using demo_turns(1) [of "fold say ss ?c" "\<lambda>_. 0"] by auto
    then show ?thesis using demo_turns(2) [of c1 "\<lambda>_. 0"] by auto
  qed
  have "\<exists>c'. manage_main (Suc (Suc 0)) demo_tool (\<lambda>_ _. 0) (Decoded demo_cfg, ?c) = Some (Decoded ?cfg, c')"
    by (simp only: manage_main_def prod.case Let_def) (rule loop)
  then obtain c' where run: "manage_main (Suc (Suc 0)) demo_tool (\<lambda>_ _. 0) (Decoded demo_cfg, ?c) = Some (Decoded ?cfg, c')" by blast
  have ex: "parse_rfc3339 ''2030-01-01T00:00:00Z'' \<noteq> None" by code_simp
  have f: "file_ok (Decoded demo_cfg)"
    using ex by (simp add: file_ok_def config_ok_def demo_cfg_def demo_user_def user_ok_def is_ascii_def)
  have a: "is_ascii (con_in ?c)" by (simp add: is_ascii_def typed_def demo_session_def nl_def)
  have w: "writes_or_fails (tl_wr demo_tool)" by (simp add: writes_or_fails_def demo_tool_def)
  obtain st where st: "NewUserStore demo_deps (Decoded ?cfg) [''bob'', ''eve''] 0 = Inr st"
    by (simp add: NewUserStore_def LoadFromFile_def demo_cfg_def Let_def case_prod_beta)
  have e: "Username demo_eve = ''Eve''" "Enabled demo_eve" "ExpiresAt demo_eve \<noteq> []" by (simp_all add: demo_eve_def)
  show ?thesis
    using edited_users_are_reachable [OF run f a w st, of demo_eve] run st e
    by (intro exI [of _ "Suc (Suc 0)"] exI [of _ ?cfg] exI [of _ c'] exI [of _ st]) auto
qed

text \<open>An expiry date typed into the tool means the same to the proxies: the account works until
  the midnight (UTC) with which the day begins and not from then on, for every day of the years
  0 to 9999.\<close>

lemma tool_expiry_enforced:
  assumes "parse_date v = Some (y, m, day, [])" and "1 \<le> day" and "day \<le> days_in m y"
    and "us_users st (lower d (Username u)) = Some (fst (set_expiry v u c))"
  shows "CheckExpiry d st (Username u) now \<longleftrightarrow> now < unix_days y m day * 86400 * second"
proof -
  have t: "parse_day v = Some (unix_days y m day * 86400 * second)" using assms(1-3) by (simp add: parse_day_def)
  moreover have "v \<noteq> ''clear''" using assms(1) by (auto simp: parse_date_def is_digit_def)
  ultimately show ?thesis using assms(4) parse_day_reads_back [OF t] by (simp add: CheckExpiry_def set_expiry_def)
qed

text \<open>C37: the hash generator ends exactly when a complete line of its input says \<^verbatim>\<open>quit\<close> (in any case,
  blanks around it); the user tool never ends once its input has: both ask again for ever.\<close>

theorem tools_at_end_of_input:
  "((\<exists>n c'. hash_main n env c = Some c') \<longleftrightarrow> list_ex (quits env) (butlast (split_on (char_of (10 :: nat)) (con_in c)))) \<and>
   manage_main n env clk (f, c\<lparr>con_in := []\<rparr>) = None"
  using hash_loop_returns_iff by (auto simp: hash_main_def manage_main_def Let_def manage_loop_at_end simp del: fold_simps)

end
