(* ===== verification/Ui_Progress.thy ===== *)
theory Ui_Progress
  imports Ui_Console
begin

text \<open>
  \<^verbatim>\<open>internal/ui/progress.go\<close>: the progress reporter, shared by its owner and by the goroutine that redraws it.
  Every method takes the mutex, so the interleavings are sequences of whole methods and whole turns of the
  animation; the step relation \<open>progress_step\<close> has one rule for each. \<open>None\<close> is a panic: an index out of range
  or the close of a closed channel.
\<close>

section \<open>The reporter\<close>

definition spinnerFrames :: "string list" where
  "spinnerFrames = [(utf8 [226, 151, 144]), (utf8 [226, 151, 147]), (utf8 [226, 151, 145]), (utf8 [226, 151, 146])]"

text \<open>
  \<open>pr_stopClosed\<close> is the state of \<^verbatim>\<open>stopChan\<close>, \<open>pr_running\<close> whether the goroutine of \<^verbatim>\<open>animate\<close> still runs and \<open>pr_err\<close>
  what was written to the standard error. The field \<^verbatim>\<open>started\<close> is never used.
\<close>

record progressReporter =
  pr_label :: string
  pr_percent :: int
  pr_total :: int
  pr_current :: int
  pr_done :: bool
  pr_stopClosed :: bool
  pr_frame :: int
  pr_running :: bool
  pr_err :: string

definition err_print :: "string \<Rightarrow> progressReporter \<Rightarrow> progressReporter" where
  "err_print s p = p\<lparr>pr_err := pr_err p @ s\<rparr>"

text \<open>The sequence \<^verbatim>\<open>\r\033[K\<close> that clears the line.\<close>

definition clear_line :: string where
  "clear_line = [char_of (13 :: nat), esc] @ ''[K''"

definition renderProgressBar :: "ui_env \<Rightarrow> int \<Rightarrow> int \<Rightarrow> string" where
  "renderProgressBar u percent width =
     (let filled = go_div (i64 (percent * width)) 100;
          filled = (if filled > width then width else filled);
          bar = concat (map (\<lambda>i. if int i < filled then (utf8 [226, 150, 136]) else (utf8 [226, 150, 145])) [0..<nat width])
      in if IsRich u then Accent u bar else bar)"

definition render :: "ui_env \<Rightarrow> progressReporter \<Rightarrow> progressReporter option" where
  "render u p =
     (let p = err_print clear_line p
      in if pr_frame p < 0 \<or> int (length spinnerFrames) \<le> pr_frame p then None
         else let spinner = spinnerFrames ! nat (pr_frame p);
                  spinner = (if IsRich u then Primary u spinner else spinner)
              in Some (err_print
                   (if pr_total p > 0
                    then ''  '' @ spinner @ '' '' @ Subtle u (pr_label p) @ '' '' @ renderProgressBar u (pr_percent p) 20 @ '' '' @
                         int_dec (pr_percent p) @ ''%''
                    else ''  '' @ spinner @ '' '' @ Subtle u (pr_label p)) p))"

text \<open>The branch of \<^verbatim>\<open>animate\<close> taken when the ticker fires.\<close>

definition animate_turn :: "ui_env \<Rightarrow> progressReporter \<Rightarrow> progressReporter option" where
  "animate_turn u p =
     (if pr_done p then Some (p\<lparr>pr_running := False\<rparr>)
      else case render u p of
             None \<Rightarrow> None
           | Some p \<Rightarrow> Some (p\<lparr>pr_frame := go_mod (pr_frame p + 1) (int (length spinnerFrames))\<rparr>))"

definition SetLabel :: "string \<Rightarrow> progressReporter \<Rightarrow> progressReporter" where
  "SetLabel label p = p\<lparr>pr_label := label\<rparr>"

definition SetPercent :: "int \<Rightarrow> progressReporter \<Rightarrow> progressReporter" where
  "SetPercent percent p =
     (let percent = (if percent < 0 then 0 else percent);
          percent = (if percent > 100 then 100 else percent)
      in p\<lparr>pr_percent := percent\<rparr>)"

definition progress_Tick :: "int \<Rightarrow> progressReporter \<Rightarrow> progressReporter" where
  "progress_Tick delta p =
     (if pr_total p \<le> 0 then p
      else let current = i64 (pr_current p + delta);
               current = (if current > pr_total p then pr_total p else current)
           in p\<lparr>pr_current := current, pr_percent := go_div (i64 (current * 100)) (pr_total p)\<rparr>)"

definition progress_Done :: "progressReporter \<Rightarrow> progressReporter option" where
  "progress_Done p =
     (if pr_done p then Some p
      else if pr_stopClosed p then None
      else Some (err_print clear_line (p\<lparr>pr_done := True, pr_stopClosed := True\<rparr>)))"

text \<open>The interface value \<^verbatim>\<open>CreateProgress\<close> returns: without a terminal, a reporter whose methods do nothing.\<close>

datatype ProgressReporter = NoopProgress | Live progressReporter

definition CreateProgress :: "ui_env \<Rightarrow> string \<Rightarrow> int \<Rightarrow> ProgressReporter" where
  "CreateProgress u label ttl =
     (if \<not> ue_tty u then NoopProgress
      else Live \<lparr>pr_label = label, pr_percent = 0, pr_total = ttl, pr_current = 0, pr_done = False, pr_stopClosed = False,
                 pr_frame = 0, pr_running = True, pr_err = []\<rparr>)"

definition Spinner :: "ui_env \<Rightarrow> string \<Rightarrow> ProgressReporter" where
  "Spinner u label = CreateProgress u label 0"

definition reporter_Done :: "ProgressReporter \<Rightarrow> ProgressReporter option" where
  "reporter_Done r = (case r of NoopProgress \<Rightarrow> Some NoopProgress | Live p \<Rightarrow> map_option Live (progress_Done p))"

text \<open>
  \<open>fn\<close> is the function run with the reporter: the reporter as it leaves it (with what the animation did
  meanwhile) and the error it returns. The deferred \<^verbatim>\<open>Done\<close> runs after it.
\<close>

definition WithProgress :: "ui_env \<Rightarrow> string \<Rightarrow> int \<Rightarrow> (ProgressReporter \<Rightarrow> ProgressReporter \<times> string option)
    \<Rightarrow> (ProgressReporter \<times> string option) option" where
  "WithProgress u label ttl fn =
     (let (r, err) = fn (CreateProgress u label ttl)
      in case reporter_Done r of None \<Rightarrow> None | Some r \<Rightarrow> Some (r, err))"

section \<open>Interleavings\<close>

inductive progress_step :: "ui_env \<Rightarrow> progressReporter \<Rightarrow> progressReporter option \<Rightarrow> bool" for u where
  Label: "progress_step u p (Some (SetLabel label p))"
| Percent: "progress_step u p (Some (SetPercent percent p))"
| Ticked: "progress_step u p (Some (progress_Tick delta p))"
| Finished: "progress_step u p (progress_Done p)"
| Ticker: "pr_running p \<Longrightarrow> progress_step u p (animate_turn u p)"
| Stopped: "pr_running p \<Longrightarrow> pr_stopClosed p \<Longrightarrow> progress_step u p (Some (p\<lparr>pr_running := False\<rparr>))"

inductive progress_reach :: "ui_env \<Rightarrow> progressReporter \<Rightarrow> progressReporter \<Rightarrow> bool" for u p where
  Here: "progress_reach u p p"
| Then: "progress_reach u p q \<Longrightarrow> progress_step u q (Some r) \<Longrightarrow> progress_reach u p r"

definition progress_ok :: "progressReporter \<Rightarrow> bool" where
  "progress_ok p \<longleftrightarrow> 0 \<le> pr_frame p \<and> pr_frame p < 4 \<and> pr_stopClosed p = pr_done p"

lemma length_spinnerFrames [simp]: "length spinnerFrames = 4"
  by (simp add: spinnerFrames_def)

lemma render_returns: "progress_ok p \<Longrightarrow> \<exists>s. render u p = Some (err_print s p)"
  by (auto simp: render_def progress_ok_def Let_def err_print_def)

lemma animate_turn_ok:
  assumes "progress_ok p"
  shows "\<exists>q. animate_turn u p = Some q \<and> progress_ok q \<and> pr_done q = pr_done p \<and> (pr_done p \<longrightarrow> pr_err q = pr_err p)"
  using assms render_returns [OF assms, of u] by (auto simp: animate_turn_def err_print_def progress_ok_def go_mod_nonneg)

lemma progress_step_ok:
  assumes "progress_step u p r" "progress_ok p"
  shows "\<exists>q. r = Some q \<and> progress_ok q \<and> (pr_done p \<longrightarrow> pr_done q \<and> pr_err q = pr_err p)"
  using assms(1)
proof (cases rule: progress_step.cases)
  case Finished
  then show ?thesis using assms(2) by (auto simp: progress_Done_def progress_ok_def err_print_def)
next
  case Ticker
  then show ?thesis using animate_turn_ok [OF assms(2)] by blast
qed (use assms(2) in \<open>auto simp: SetLabel_def SetPercent_def progress_Tick_def progress_ok_def Let_def\<close>)

lemma progress_reach_ok:
  assumes "progress_reach u p q" "progress_ok p"
  shows "progress_ok q \<and> (pr_done p \<longrightarrow> pr_done q \<and> pr_err q = pr_err p)"
  using assms by (induction rule: progress_reach.induct) (use progress_step_ok in fastforce)+

text \<open>
  In every interleaving of the owner's calls and the animation no step panics (the channel is closed once,
  the spinner index stays in range), and after \<^verbatim>\<open>Done\<close> nothing is written to the terminal any more.
\<close>

lemma progress_safe:
  assumes "CreateProgress u label ttl = Live p" "progress_reach u p q"
  shows "progress_step u q r \<Longrightarrow> r \<noteq> None"
    and "progress_Done q = Some d \<Longrightarrow> progress_reach u d e \<Longrightarrow> pr_err e = pr_err d"
proof -
  have "progress_ok p" using assms(1) by (auto simp: CreateProgress_def progress_ok_def split: if_splits)
  then have q: "progress_ok q" using progress_reach_ok assms(2) by blast
  then show "progress_step u q r \<Longrightarrow> r \<noteq> None" using progress_step_ok by blast
  assume d: "progress_Done q = Some d" "progress_reach u d e"
  have "progress_ok d" using progress_step_ok [OF progress_step.Finished q] d(1) by auto
  moreover have "pr_done d" using d(1) by (auto simp: progress_Done_def err_print_def split: if_splits)
  ultimately show "pr_err e = pr_err d" using progress_reach_ok [OF d(2)] by blast
qed

text \<open>The animation ends: once \<^verbatim>\<open>Done\<close> was called, one more turn of the goroutine is its last.\<close>

lemma animation_ends: "pr_done p \<Longrightarrow> \<exists>q. animate_turn u p = Some q \<and> \<not> pr_running q"
  by (simp add: animate_turn_def)

text \<open>
  The percentage after a tick is the share of the total, between 0 and 100, and 100 exactly at the end,
  as long as neither \<^verbatim>\<open>current\<close> nor a hundred times the total overflow.
\<close>

lemma tick_percentage:
  assumes "0 \<le> pr_current p" "pr_current p \<le> pr_total p" "0 < pr_total p" "pr_total p * 100 < 2 ^ 63"
    and "0 \<le> delta" "pr_current p + delta < 2 ^ 63" and q: "q = progress_Tick delta p"
  shows "pr_current q = min (pr_current p + delta) (pr_total p)"
    and "pr_percent q = pr_current q * 100 div pr_total p"
    and "0 \<le> pr_percent q" and "pr_percent q \<le> 100" and "pr_percent q = 100 \<longleftrightarrow> pr_current q = pr_total q"
proof -
  have sum: "i64 (pr_current p + delta) = pr_current p + delta" using assms by (intro i64_small) simp_all
  then have cur: "pr_current q = min (pr_current p + delta) (pr_total p)"
    using assms(3) by (simp add: q progress_Tick_def Let_def min_def)
  have range: "0 \<le> pr_current q" "pr_current q \<le> pr_total p" using cur assms by simp_all
  have "i64 (pr_current q * 100) = pr_current q * 100" using range assms(4) by (intro i64_small) simp_all
  then have percent: "pr_percent q = pr_current q * 100 div pr_total p"
    using assms(3) cur range sum by (simp add: q progress_Tick_def Let_def go_div_nonneg)
  show "pr_current q = min (pr_current p + delta) (pr_total p)" by (rule cur)
  show "pr_percent q = pr_current q * 100 div pr_total p" by (rule percent)
  show "0 \<le> pr_percent q" using percent range assms(3) by (simp add: pos_imp_zdiv_nonneg_iff)
  show "pr_percent q \<le> 100"
    unfolding percent using range(2) assms(3) zdiv_mono1 [of "pr_current q * 100" "pr_total p * 100" "pr_total p"] by simp
  have total: "pr_total q = pr_total p" using assms(3) by (simp add: q progress_Tick_def Let_def)
  show "pr_percent q = 100 \<longleftrightarrow> pr_current q = pr_total q"
  proof
    assume "pr_percent q = 100"
    then have h: "pr_current q * 100 div pr_total p = 100" using percent by simp
    have "100 * pr_total p \<le> pr_current q * 100"
      using div_mult_mod_eq [of "pr_current q * 100" "pr_total p", unfolded h] pos_mod_sign [OF assms(3), of "pr_current q * 100"]
      by linarith
    then show "pr_current q = pr_total q" using range(2) total by simp
  qed (use percent total assms(3) in simp)
qed

text \<open>The bar always has as many cells as its width.\<close>

lemma bar_width:
  assumes "sgr_colours u" "0 \<le> width"
  shows "VisibleWidth (renderProgressBar u percent width) = width"
proof -
  have cells: "plain_text (concat (map (\<lambda>i. if P i then (utf8 [226, 150, 136]) else (utf8 [226, 150, 145])) [0..<n])) \<and>
      RuneCount (concat (map (\<lambda>i. if P i then (utf8 [226, 150, 136]) else (utf8 [226, 150, 145])) [0..<n])) = int n \<and>
      rune_start (concat (map (\<lambda>i. if P i then (utf8 [226, 150, 136]) else (utf8 [226, 150, 145])) [0..<n]))" for P n
  proof (induction n)
    case (Suc n)
    have g: "glyph (if P n then (utf8 [226, 150, 136]) else (utf8 [226, 150, 145]))" by (simp add: drawn_glyphs)
    then show ?case using Suc by (simp add: RuneCount_append rune_start_append glyph_plain)
  qed (simp add: rune_start_def)
  define P where "P i = (int i < (let filled = go_div (i64 (percent * width)) 100 in if filled > width then width else filled))" for i
  have bar: "renderProgressBar u percent width =
      (if IsRich u then Accent u else id) (concat (map (\<lambda>i. if P i then (utf8 [226, 150, 136]) else (utf8 [226, 150, 145])) [0..<nat width]))"
    by (simp add: renderProgressBar_def P_def Let_def)
  have "styled (renderProgressBar u percent width) (concat (map (\<lambda>i. if P i then (utf8 [226, 150, 136]) else (utf8 [226, 150, 145])) [0..<nat width]))"
    unfolding bar using styled_colour [OF assms(1) styled_plain] styled_plain cells [of P "nat width"]
    by (auto simp: Accent_def)
  then show ?thesis using cells [of P "nat width"] assms(2) by (simp add: VisibleWidth_styled)
qed

end
