(* ===== verification/Spec2Isabelle.thy ===== *)
theory Spec2Isabelle
  imports App Deployment Sessions Manage_Users Ui_Progress
begin

text \<open>
  A verification library of the multi-protocol proxy: a Go program that runs either as an SNI router
  for TLS connections or as an authenticated HTTP and SOCKS5 proxy with per-user limits.

  \<^bold>\<open>The program and its parts.\<close> \<^verbatim>\<open>cmd/proxy/main.go\<close> reads the environment and \<^verbatim>\<open>config.json\<close> (\<^verbatim>\<open>internal/config\<close>),
  and then serves in one of two modes. In the SNI mode \<^verbatim>\<open>internal/proxy\<close> accepts TLS connections up to a
  capacity, reads the first bytes of a connection as a ClientHello, looks its server name up in the configured hosts
  and relays to the back end; since the listener is one of \<^verbatim>\<open>tls.Listen\<close>, these bytes are the first ones inside the
  TLS session it ends, not the client's own handshake. The server keeps statistics that an internal API and a
  metrics server show. In the HTTPS mode
  \<^verbatim>\<open>internal/httpproxy\<close> and \<^verbatim>\<open>internal/socks5\<close> share one user store (\<^verbatim>\<open>internal/auth\<close>: users, credential cache, white
  list, rate limiter) and one usage tracker (\<^verbatim>\<open>internal/bandwidth\<close>: bytes per month and open connections per
  user, kept in a file), relay through speed limited connections (\<^verbatim>\<open>throttle.go\<close>) and offer PAC files
  (\<^verbatim>\<open>internal/pac\<close>). \<^verbatim>\<open>internal/ui\<close> writes to the terminal, and \<^verbatim>\<open>scripts\<close> holds the tools that edit the users file.

  \<^bold>\<open>Go itself.\<close> \<open>Go_Prelude\<close> has the 64-bit wrap-around (\<^verbatim>\<open>int64\<close> as \<open>int\<close> with \<open>i64\<close>), truncating division, durations,
  bytes and strings (a Go string is the list of its bytes); \<open>Go_Float\<close> has \<^verbatim>\<open>float64\<close> arithmetic as rationals rounded to
  53 significant bits, with error bounds (from the locale \<open>float_rounding\<close>); \<open>Go_Text\<close>, \<open>Go_Net\<close>, \<open>Go_Http\<close>, \<open>Go_Time\<close> and \<open>Go_Calendar\<close> have what the program
  uses of \<^verbatim>\<open>strings\<close>, \<^verbatim>\<open>encoding/base64\<close>, \<^verbatim>\<open>net/url\<close>, \<^verbatim>\<open>net\<close>, \<^verbatim>\<open>net/http\<close> and \<^verbatim>\<open>time\<close> (the calendar is shown inverse to its parser).

  \<^bold>\<open>The components and their theories.\<close>
    \<^item> \<open>Rate_Limiter\<close>: \<^verbatim>\<open>auth/ratelimit.go\<close>, the record \<open>RateLimiter\<close> of token buckets with \<open>SetLimit\<close>, \<open>Allow\<close> and
      \<open>GetRemainingTokens\<close>. Throughput, invariant and progress. \<open>Limiter_Spec\<close> has the locale \<open>keyed_limiter\<close> for limiters
      that decide per key, interpreted on \<open>Allow\<close> and on the limiter of the PAC handler.
    \<^item> \<open>User_Store\<close>: \<^verbatim>\<open>auth/auth.go\<close>, the record \<open>UserStore\<close>: loading, credentials with their cache (the locale
      \<open>credential_checker\<close> is what its clients rely on), white lists, expiry.
    \<^item> \<open>Usage_Tracker\<close>: \<^verbatim>\<open>bandwidth/tracker.go\<close> and \<^verbatim>\<open>api.go\<close>, with the locales \<open>usage_ledger\<close> and \<open>conn_counter\<close> for what
      the servers rely on, interpreted on the operations of the tracker.
      A usage file with a null entry makes loading it panic, a value of the model.
    \<^item> \<open>Throttle\<close>: \<^verbatim>\<open>bandwidth/throttle.go\<close>, with the interleavings of a reader and a writer: what the other
      goroutine does between the turns of a waiting one is an argument of \<open>waitForTokens\<close>.
    \<^item> \<open>Pac\<close>: \<^verbatim>\<open>pac/pac.go\<close>. \<open>Env_Config\<close>: \<^verbatim>\<open>config/env.go\<close> and \<^verbatim>\<open>config.go\<close>.
    \<^item> \<open>Access_Policy\<close>: the reference policy (rate, expiry, cap, connections) and the locale \<open>admission\<close>, which both
      servers interpret. \<open>Http_Proxy\<close>: \<^verbatim>\<open>httpproxy/server.go\<close>, the handlers over a request and a response with the outgoing
      actions and the calls on metrics as a list of events. \<open>Socks5\<close>: \<^verbatim>\<open>socks5/server.go\<close> over the bytes received and sent.
      \<open>Prometheus\<close> has the kinds of metrics and of calls that these events and those of the SNI server use.
    \<^item> \<open>Deployment\<close>: both servers as \<^verbatim>\<open>runHTTPSProxyMode\<close> wires them, on one user store and one tracker, serving a
      sequence of clients of either protocol; the rate limit of a user holds for both together, and does not
      hold for a client that types the user's name in another spelling.
    \<^item> \<open>Sessions\<close>: any number of connections taking the check, the increment and the decrement of the
      connection count as separate steps.
    \<^item> \<open>Sni_Parser\<close>, \<open>Sni_Server\<close>: \<^verbatim>\<open>proxy/server.go\<close>, the parser with explicit bounds (a panic is a value), routing,
      relay, the accept loop as a step relation. \<open>Proxy_Stats\<close>: \<^verbatim>\<open>proxy/stats.go\<close> and the gauge of \<^verbatim>\<open>metrics.go\<close>.
    \<^item> \<open>Metrics\<close>: the metrics that \<^verbatim>\<open>httpproxy/metrics.go\<close>, \<^verbatim>\<open>socks5/metrics.go\<close> and \<^verbatim>\<open>proxy/metrics.go\<close> declare, the calls the
      servers make on them (events of their models, at each call with the label values and the operation), and the metrics server.
    \<^item> \<open>App\<close>: \<^verbatim>\<open>cmd/proxy/main.go\<close>, the composition and the ways the process ends.
    \<^item> \<open>Manage_Users\<close>: \<^verbatim>\<open>scripts/manage-users.go\<close> and \<^verbatim>\<open>hash-password.go\<close>, console dialogues over the remaining input.
    \<^item> \<open>Ui_Text\<close>, \<open>Ui_Console\<close>, \<open>Ui_Progress\<close>: \<^verbatim>\<open>internal/ui\<close>, widths, tables and wrapping; colours, log lines, banner and
      notes; the progress reporter and its animation as interleavings.

  \<^bold>\<open>What is shown.\<close> No traffic leaves for a client that was not admitted (white list, credentials and the whole
  policy), for both servers, which refine one reference policy and leave the shared state alike. Limits
  are bounded in time with their rounding errors; the monthly cap is exact; counts of open connections
  are exact in every interleaving. Parsers and encoders agree (SOCKS5 sessions, proxy credentials, the
  ClientHello, the usage file, expiry dates). The SNI parser never reads out of bounds, and the accept loop
  keeps its capacity and drains. Tables and notes are aligned, with and without colours. Every call the
  handlers and the accept loop make on a metric agrees with its declaration. Some theorems
  record what the code does where it falls short of its intention; they say so.

  \<^bold>\<open>Parameters.\<close> Code that is not in the repository is an argument of the definitions: bcrypt, SHA-256, the
  JSON decoder and the file system, Unicode case mapping, the colour library, the dialled connections and
  what they transfer, clock readings, the order in which Go visits a map and the numbers it draws. What a
  theorem needs of them is one of its hypotheses (a SHA-256 digest has 32 bytes, a written file reads back
  or is left as it was, colours only add SGR sequences), and its witness has a concrete instance.

  \<^bold>\<open>Loops and concurrency.\<close> Loops are recursive functions with termination proofs. The waiting loop of a
  throttled connection and the loops of the tools take fuel; \<open>throttled_io_returns\<close> gives enough fuel for the
  first, and \<open>tools_at_end_of_input\<close> says when the others end. Methods that hold a mutex are single steps
  (a waiting \<^verbatim>\<open>Read\<close> or \<^verbatim>\<open>Write\<close> one step per turn), so interleavings are sequences of whole operations (\<open>Limiter_Spec\<close>, \<open>Throttle\<close>, \<open>Sessions\<close>, \<open>Sni_Server\<close>, \<open>Ui_Progress\<close>).

  \<^bold>\<open>Not modelled.\<close> The Prometheus library and the listener of the metrics server, which are called but not part
  of the repository. \<^verbatim>\<open>ui/palette.go\<close> is a table nothing reads, \<^verbatim>\<open>proxy/handler.go\<close> a comment, and a few constants (reply
  codes and commands of SOCKS5, the tees of the boxes) have no use. TLS, TCP and the
  timing of the relays are behind the parameters above. Two functions lack a closing brace in the source
  (\<^verbatim>\<open>CheckExpiry\<close> and \<^verbatim>\<open>handleMethodNegotiationNoAuth\<close>); they are modelled as if it followed the return.
\<close>

section \<open>Properties that span components\<close>

text \<open>C34: the HTTP and the SOCKS5 server enforce one access policy. For an authenticated user, on the
  same user store, tracker and clock readings, both make the decision of the reference policy
  (rate limit, expiry date, bandwidth cap, connection limit, in this order) and leave the store
  and the tracker in the same state, charged tokens and monthly resets included.\<close>

theorem servers_enforce_the_same_policy:
  assumes "se_deps e' = he_deps e" and "se_wr e' = he_wr e" and "se_off e' = he_off e" and "se_clk e' = he_clk e"
    and "sk_store s' = hp_store s" and "sk_bw s' = hp_bw s"
    and "http_quota e s username user = (refusal, s1)" and "socks_quota e' s' username (Some user) = (ok, s2)"
  shows "(refusal = None \<longleftrightarrow> ok) \<and>
    (ok \<longleftrightarrow> policy_ok (he_deps e) (he_wr e) (he_off e) (he_clk e) (hp_store s) (hp_bw s) username user) \<and>
    (sk_store s2, sk_bw s2) = (hp_store s1, hp_bw s1) \<and>
    (ok, hp_store s1, hp_bw s1) = policy_run (he_deps e) (he_wr e) (he_off e) (he_clk e) (hp_store s, hp_bw s) username user"
  using http_admission.refines [of e s username user] socks_admission.refines [of e' s' username user]
    socks_admission.decides [of e' s' username user] assms
  by (auto simp: prod_eq_iff)

theorem servers_enforce_the_same_policy_witness:
  "\<exists>refusal s1 ok s2. http_quota demo_env demo_http ''Bob'' demo_user = (refusal, s1) \<and>
     socks_quota (demo_socks_env\<lparr>se_clk := he_clk demo_env\<rparr>) (demo_socks (TargetIPv4 [127, 0, 0, 1]) 80) ''Bob'' (Some demo_user) = (ok, s2) \<and>
     (refusal = None \<longleftrightarrow> ok) \<and> sk_bw s2 = hp_bw s1"
proof -
  let ?e = "demo_socks_env\<lparr>se_clk := he_clk demo_env\<rparr>" and ?s = "demo_socks (TargetIPv4 [127, 0, 0, 1]) 80"
  obtain refusal s1 where h: "http_quota demo_env demo_http ''Bob'' demo_user = (refusal, s1)" by fastforce
  obtain ok s2 where k: "socks_quota ?e ?s ''Bob'' (Some demo_user) = (ok, s2)" by fastforce
  show ?thesis using servers_enforce_the_same_policy [OF _ _ _ _ _ _ h k] h k
    by (simp add: demo_env_def demo_socks_env_def demo_http_def demo_socks_def)
qed

end
